(* ===== verification/Prelude.thy ===== *)
theory Prelude
  imports Main "HOL-Library.Word" "HOL-Library.Monad_Syntax" "HOL-Library.Sublist"
begin

unbundle bit_operations_syntax

text \<open>
  Shared ground of the development: the machine types, C memory as lists with checked
  accesses, and the lemma collections the component theories draw on.

  Every function of the model that can run into undefined behaviour of C (an access outside
  an object, a null or dangling pointer) or that may not return has a result of type
  \<open>'a option\<close>: \<open>None\<close> is "undefined or does not return", \<open>Some r\<close> is "returns \<open>r\<close>". The
  do-notation of \<open>Monad_Syntax\<close> sequences such steps. Allocation (\<open>malloc\<close>, \<open>calloc\<close>,
  \<open>realloc\<close>, \<open>strdup\<close>) is taken to succeed.
\<close>

section \<open>Machine types\<close>

type_synonym u8 = "8 word"
type_synonym u16 = "16 word"
type_synonym u32 = "32 word"
type_synonym u64 = "64 word"

text \<open>
  A C string as a value: the bytes before the terminating NUL. String literals of the source
  are written \<open>bytes ''...''\<close>.
\<close>

type_synonym cstring = "u8 list"

definition bytes :: "string \<Rightarrow> cstring" where
  "bytes s = map (\<lambda>c. of_nat (of_char c)) s"

named_theorems mem_simps \<open>equations of checked memory accesses\<close>
named_theorems mem_length \<open>lengths of buffers after a checked write\<close>

lemma length_bytes [simp]: "length (bytes s) = length s"
  by (simp add: bytes_def)

lemma bytes_Nil [simp]: "bytes [] = []"
  by (simp add: bytes_def)

section \<open>Checked memory\<close>

text \<open>
  An object in memory is a list; \<open>sizeof\<close> of it is the length of the list. \<open>rd\<close> and \<open>wr\<close>
  are \<open>xs[i]\<close> and \<open>xs[i] = v\<close>, \<open>put\<close> copies bytes from another object to position \<open>i\<close>
  (\<open>memcpy\<close>, or the kernel filling a receive buffer), and \<open>memmove xs d s n\<close> moves \<open>n\<close> bytes
  from position \<open>s\<close> to position \<open>d\<close> of the same object.
\<close>

definition rd :: "'a list \<Rightarrow> nat \<Rightarrow> 'a option" where
  "rd xs i = (if i < length xs then Some (xs ! i) else None)"

definition wr :: "'a list \<Rightarrow> nat \<Rightarrow> 'a \<Rightarrow> 'a list option" where
  "wr xs i v = (if i < length xs then Some (xs[i := v]) else None)"

definition put :: "'a list \<Rightarrow> nat \<Rightarrow> 'a list \<Rightarrow> 'a list option" where
  "put xs i ys =
     (if i + length ys \<le> length xs then Some (take i xs @ ys @ drop (i + length ys) xs) else None)"

definition memmove :: "'a list \<Rightarrow> nat \<Rightarrow> nat \<Rightarrow> nat \<Rightarrow> 'a list option" where
  "memmove xs d s n = (if s + n \<le> length xs then put xs d (take n (drop s xs)) else None)"

lemma rd_eq_Some [mem_simps]: "rd xs i = Some v \<longleftrightarrow> i < length xs \<and> v = xs ! i"
  by (auto simp: rd_def)

lemma rd_in [simp]: "i < length xs \<Longrightarrow> rd xs i = Some (xs ! i)"
  by (simp add: rd_def)

lemma rd_out [simp]: "length xs \<le> i \<Longrightarrow> rd xs i = None"
  by (simp add: rd_def)

lemma wr_eq_Some [mem_simps]: "wr xs i v = Some ys \<longleftrightarrow> i < length xs \<and> ys = xs[i := v]"
  by (auto simp: wr_def)

lemma wr_in [simp]: "i < length xs \<Longrightarrow> wr xs i v = Some (xs[i := v])"
  by (simp add: wr_def)

lemma wr_out [simp]: "length xs \<le> i \<Longrightarrow> wr xs i v = None"
  by (simp add: wr_def)

lemma put_eq_Some [mem_simps]:
  "put xs i ys = Some zs \<longleftrightarrow>
     i + length ys \<le> length xs \<and> zs = take i xs @ ys @ drop (i + length ys) xs"
  by (auto simp: put_def)

lemma memmove_eq_Some [mem_simps]:
  "memmove xs d s n = Some ys \<longleftrightarrow>
     s + n \<le> length xs \<and> d + n \<le> length xs \<and>
     ys = take d xs @ take n (drop s xs) @ drop (d + n) xs"
  by (auto simp: memmove_def put_def)

lemma memmove_front:
  "s + n \<le> length xs \<Longrightarrow> memmove xs 0 s n = Some (take n (drop s xs) @ drop n xs)"
  by (simp add: memmove_def put_def)

lemma length_wr [mem_length]: "wr xs i v = Some ys \<Longrightarrow> length ys = length xs"
  by (auto simp: wr_def split: if_splits)

lemma length_put [mem_length]: "put xs i zs = Some ys \<Longrightarrow> length ys = length xs"
  by (auto simp: put_def split: if_splits)

lemma length_memmove [mem_length]: "memmove xs d s n = Some ys \<Longrightarrow> length ys = length xs"
  by (auto simp: memmove_def split: if_splits dest: length_put)

section \<open>Total correctness of a step\<close>

text \<open>
  \<open>runs m Q\<close>: the step \<open>m\<close> is defined, returns, and its result satisfies \<open>Q\<close>. The equations
  push the postcondition through the do-notation, so that a handler is verified call by call
  with the rules in the collection \<open>runs_rules\<close>.
\<close>

definition runs :: "'a option \<Rightarrow> ('a \<Rightarrow> bool) \<Rightarrow> bool" where
  "runs m Q \<longleftrightarrow> (\<exists>r. m = Some r \<and> Q r)"

named_theorems runs_rules \<open>total correctness rules of the operations\<close>

lemma runs_Some [simp]: "runs (Some r) Q \<longleftrightarrow> Q r"
  by (simp add: runs_def)

lemma runs_None [simp]: "\<not> runs None Q"
  by (simp add: runs_def)

lemma runs_bind [simp]: "runs (Option.bind m f) Q \<longleftrightarrow> runs m (\<lambda>x. runs (f x) Q)"
  by (cases m) simp_all

lemma runs_weaken: "runs m P \<Longrightarrow> (\<And>r. P r \<Longrightarrow> Q r) \<Longrightarrow> runs m Q"
  by (auto simp: runs_def)

lemma runs_rd [simp]: "runs (rd xs i) Q \<longleftrightarrow> i < length xs \<and> Q (xs ! i)"
  by (auto simp: runs_def rd_def)

lemma runs_wr [simp]: "runs (wr xs i v) Q \<longleftrightarrow> i < length xs \<and> Q (xs[i := v])"
  by (auto simp: runs_def wr_def)

lemma runs_memmove_front:
  "s + n \<le> length xs \<Longrightarrow> Q (take n (drop s xs) @ drop n xs) \<Longrightarrow> runs (memmove xs 0 s n) Q"
  by (simp add: memmove_front)

lemma runsI: "m = Some r \<Longrightarrow> Q r \<Longrightarrow> runs m Q"
  by (simp add: runs_def)

lemma runsE: "runs m Q \<Longrightarrow> (\<And>r. m = Some r \<Longrightarrow> Q r \<Longrightarrow> thesis) \<Longrightarrow> thesis"
  by (auto simp: runs_def)

section \<open>Scanning loops\<close>

text \<open>
  \<open>scan P xs i\<close> is the loop \<open>for(; !P(xs[i]); i++);\<close>: the first position at or after \<open>i\<close>
  where \<open>P\<close> holds, undefined when the loop runs off the object.
\<close>

function scan :: "('a \<Rightarrow> bool) \<Rightarrow> 'a list \<Rightarrow> nat \<Rightarrow> nat option" where
  "scan P xs i = do { c \<leftarrow> rd xs i; if P c then Some i else scan P xs (Suc i) }"
  by pat_completeness auto
termination
  by (relation "measure (\<lambda>(P, xs, i). length xs - i)") (auto simp: rd_def split: if_splits)

declare scan.simps [simp del]

lemma scan_hit [simp]: "i < length xs \<Longrightarrow> P (xs ! i) \<Longrightarrow> scan P xs i = Some i"
  by (simp add: scan.simps)

lemma scan_miss: "i < length xs \<Longrightarrow> \<not> P (xs ! i) \<Longrightarrow> scan P xs i = scan P xs (Suc i)"
  by (simp add: scan.simps [of P xs i])

lemma scan_out [simp]: "length xs \<le> i \<Longrightarrow> scan P xs i = None"
  by (simp add: scan.simps)

lemma scan_SomeD:
  "scan P xs i = Some j \<Longrightarrow>
     i \<le> j \<and> j < length xs \<and> P (xs ! j) \<and> (\<forall>k. i \<le> k \<longrightarrow> k < j \<longrightarrow> \<not> P (xs ! k))"
proof (induction P xs i rule: scan.induct)
  case (1 P xs i)
  show ?case
  proof (cases "i < length xs \<and> \<not> P (xs ! i)")
    case True
    with 1 have "Suc i \<le> j \<and> j < length xs \<and> P (xs ! j) \<and>
        (\<forall>k. Suc i \<le> k \<longrightarrow> k < j \<longrightarrow> \<not> P (xs ! k))"
      by (simp add: scan_miss)
    with True show ?thesis by (auto simp: Suc_le_eq) (metis le_neq_implies_less)
  next
    case False
    with "1.prems" show ?thesis by (cases "i < length xs") auto
  qed
qed

lemma scan_total:
  "i \<le> z \<Longrightarrow> z < length xs \<Longrightarrow> P (xs ! z) \<Longrightarrow> \<exists>j. scan P xs i = Some j \<and> j \<le> z"
proof (induction P xs i rule: scan.induct)
  case (1 P xs i)
  show ?case
  proof (cases "P (xs ! i)")
    case True
    with "1.prems" show ?thesis by simp
  next
    case False
    with "1.prems" have "i \<noteq> z" by auto
    with "1.prems" False 1 show ?thesis by (simp add: scan_miss)
  qed
qed

lemma scan_obtain:
  assumes "i \<le> z" "z < length xs" "P (xs ! z)"
  obtains j where "scan P xs i = Some j" "i \<le> j" "j \<le> z" "j < length xs" "P (xs ! j)"
    "\<forall>k. i \<le> k \<longrightarrow> k < j \<longrightarrow> \<not> P (xs ! k)"
  using scan_total [where P = P, OF assms] scan_SomeD [of P xs i] by blast

lemma scan_eqI:
  assumes "i \<le> j" "j < length xs" "P (xs ! j)" "\<And>k. i \<le> k \<Longrightarrow> k < j \<Longrightarrow> \<not> P (xs ! k)"
  shows "scan P xs i = Some j"
proof -
  from scan_total [where P = P, OF assms(1,2,3)] obtain j' where j': "scan P xs i = Some j'" "j' \<le> j" by auto
  from scan_SomeD [OF this(1)] assms(4) j'(2) have "j' = j"
    by (metis le_neq_implies_less)
  with j' show ?thesis by simp
qed

section \<open>Lists and words\<close>

lemma take_update_beyond [simp]: "n \<le> i \<Longrightarrow> take n (xs[i := v]) = take n xs"
  by (simp add: list_eq_iff_nth_eq)

lemma strict_prefix_append_same [simp]:
  "strict_prefix (xs @ ys) (xs @ zs) \<longleftrightarrow> strict_prefix ys zs"
  by (simp add: strict_prefix_def)

lemma bind_SomeE:
  assumes "Option.bind m f = Some r"
  obtains x where "m = Some x" "f x = Some r"
  using assms by (cases m) auto

lemma uint_eq_int [simp]: "uint x = int n \<longleftrightarrow> unat x = n"
  by (metis nat_int of_nat_inverse uint_nat)

text \<open>Big-endian bytes of a number, most significant first, and back.\<close>

fun be_bytes :: "nat \<Rightarrow> nat \<Rightarrow> u8 list" where
  "be_bytes 0 x = []"
| "be_bytes (Suc k) x = be_bytes k (x div 256) @ [of_nat x]"

definition of_be :: "u8 list \<Rightarrow> nat" where
  "of_be bs = foldl (\<lambda>a b. a * 256 + unat b) 0 bs"

lemma length_be_bytes [simp]: "length (be_bytes k x) = k"
  by (induction k arbitrary: x) auto

lemma of_be_snoc [simp]: "of_be (bs @ [b]) = of_be bs * 256 + unat b"
  by (simp add: of_be_def)

lemma of_be_be_bytes: "of_be (be_bytes k x) = x mod 256 ^ k"
proof (induction k arbitrary: x)
  case 0
  show ?case by (simp add: of_be_def)
next
  case (Suc k)
  have "of_be (be_bytes (Suc k) x) = (x div 256) mod 256 ^ k * 256 + x mod 256"
    by (simp add: Suc unsigned_of_nat take_bit_nat_def)
  also have "\<dots> = x mod 256 ^ Suc k"
    by (simp add: mod_mult2_eq)
  finally show ?case .
qed

lemma of_be_less: "of_be bs < 256 ^ length bs"
proof (induction bs rule: rev_induct)
  case Nil
  show ?case by (simp add: of_be_def)
next
  case (snoc b bs)
  have "unat b < 256" using unsigned_less [of b, where 'a = nat] by simp
  with snoc show ?case by simp
qed

end
