(* ===== verification/Cstring.thy ===== *)
theory Cstring
  imports Prelude
begin

text \<open>
  What the source uses of the C library's character and string functions (C locale), on NUL
  terminated strings inside a byte buffer. Positions stand for pointers: \<open>cstr buf i\<close> is the
  string \<open>buf + i\<close> points to, undefined when no NUL follows inside the object.
\<close>

section \<open>Character classes\<close>

definition isspace :: "u8 \<Rightarrow> bool" where
  "isspace c \<longleftrightarrow> c = 32 \<or> 9 \<le> c \<and> c \<le> 13"

definition isdigit :: "u8 \<Rightarrow> bool" where
  "isdigit c \<longleftrightarrow> 48 \<le> c \<and> c \<le> 57"

definition isxdigit :: "u8 \<Rightarrow> bool" where
  "isxdigit c \<longleftrightarrow> isdigit c \<or> 65 \<le> c \<and> c \<le> 70 \<or> 97 \<le> c \<and> c \<le> 102"

definition isprint :: "u8 \<Rightarrow> bool" where
  "isprint c \<longleftrightarrow> 32 \<le> c \<and> c \<le> 126"

definition tolower :: "u8 \<Rightarrow> u8" where
  "tolower c = (if 65 \<le> c \<and> c \<le> 90 then c + 32 else c)"

lemma isspace_0 [simp]: "\<not> isspace 0"
  by (simp add: isspace_def)

lemma isdigit_0 [simp]: "\<not> isdigit 0"
  by (simp add: isdigit_def)

lemma isxdigit_0 [simp]: "\<not> isxdigit 0"
  by (simp add: isxdigit_def)

lemma tolower_eq_0 [simp]: "tolower c = 0 \<longleftrightarrow> c = 0"
proof -
  have "c + 32 \<noteq> 0" if "c \<le> 90"
  proof
    assume "c + 32 = 0"
    then have "unat (c + 32) = 0" by simp
    with that show False by (simp add: unat_word_ariths word_le_nat_alt)
  qed
  then show ?thesis by (auto simp: tolower_def)
qed

section \<open>Strings inside a buffer\<close>

definition strlen_at :: "u8 list \<Rightarrow> nat \<Rightarrow> nat option" where
  "strlen_at buf i = do { e \<leftarrow> scan (\<lambda>c. c = 0) buf i; Some (e - i) }"

definition cstr :: "u8 list \<Rightarrow> nat \<Rightarrow> cstring option" where
  "cstr buf i = do { n \<leftarrow> strlen_at buf i; Some (take n (drop i buf)) }"

text \<open>
  \<open>strncmp(buf + i, lit, strlen(lit)) == 0\<close> for a literal: the comparison stops at the first
  difference, so a shorter string is never read past its NUL.
\<close>

fun strncmp_eq :: "u8 list \<Rightarrow> nat \<Rightarrow> cstring \<Rightarrow> bool option" where
  "strncmp_eq buf i [] = Some True"
| "strncmp_eq buf i (c # cs) =
     do { b \<leftarrow> rd buf i; if b = c then strncmp_eq buf (Suc i) cs else Some False }"

definition strcasecmp_eq :: "cstring \<Rightarrow> cstring \<Rightarrow> bool" where
  "strcasecmp_eq a b \<longleftrightarrow> map tolower a = map tolower b"

definition strstr :: "cstring \<Rightarrow> cstring \<Rightarrow> bool" where
  "strstr hay needle \<longleftrightarrow> list_ex (prefix needle) (suffixes hay)"

lemma strstr_iff: "strstr hay needle \<longleftrightarrow> sublist needle hay"
  by (auto simp: strstr_def list_ex_iff sublist_altdef')

lemma strlen_at_0 [simp]: "i < length buf \<Longrightarrow> buf ! i = 0 \<Longrightarrow> strlen_at buf i = Some 0"
  by (simp add: strlen_at_def)

lemma scan_append_zero:
  "\<forall>c\<in>set s. \<not> P c \<Longrightarrow> P z \<Longrightarrow>
     scan P (pre @ s @ z # post) (length pre) = Some (length pre + length s)"
  by (rule scan_eqI) (auto simp: nth_append)

lemma scan_nul [simp]:
  "0 \<notin> set s \<Longrightarrow>
     scan (\<lambda>c. c = 0) (pre @ s @ (0 :: u8) # post) (length pre) = Some (length pre + length s)"
  by (rule scan_append_zero) auto

lemma cstr_append [simp]:
  "0 \<notin> set s \<Longrightarrow> cstr (pre @ s @ 0 # post) (length pre) = Some s"
  by (simp add: cstr_def strlen_at_def)

lemma strlen_at_append [simp]:
  "0 \<notin> set s \<Longrightarrow> strlen_at (pre @ s @ 0 # post) (length pre) = Some (length s)"
  by (simp add: strlen_at_def)

text \<open>The view of a string in a buffer that the component proofs use.\<close>

lemma cstr_split:
  assumes "cstr buf i = Some s"
  obtains pre post where "buf = pre @ s @ 0 # post" "length pre = i" "0 \<notin> set s"
proof -
  from assms obtain e where e: "scan (\<lambda>c. c = 0) buf i = Some e"
    and s: "s = take (e - i) (drop i buf)"
    by (auto simp: cstr_def strlen_at_def elim!: bind_SomeE)
  from scan_SomeD [OF e] have le: "i \<le> e" "e < length buf" "buf ! e = 0"
    and nz: "\<forall>k. i \<le> k \<longrightarrow> k < e \<longrightarrow> buf ! k \<noteq> 0" by auto
  have "buf = take i buf @ s @ 0 # drop (Suc e) buf"
  proof -
    have "buf = take i buf @ drop i buf" by simp
    also have "drop i buf = s @ drop e buf"
      using le s by (metis append_take_drop_id drop_drop le_add_diff_inverse2)
    also have "drop e buf = 0 # drop (Suc e) buf"
      using le by (simp add: Cons_nth_drop_Suc [symmetric])
    finally show ?thesis .
  qed
  moreover have "0 \<notin> set s"
    using nz le s by (auto simp: in_set_conv_nth)
  moreover have "length (take i buf) = i" using le by simp
  ultimately show ?thesis using that by blast
qed

lemma cstr_total:
  assumes "i \<le> z" "z < length buf" "buf ! z = 0"
  obtains s where "cstr buf i = Some s" "i + length s \<le> z"
proof -
  from scan_obtain [where P = "\<lambda>c. c = 0", OF assms] obtain j
    where "scan (\<lambda>c. c = 0) buf i = Some j" "i \<le> j" "j \<le> z" "j < length buf" by blast
  then show ?thesis
    using that [of "take (j - i) (drop i buf)"] by (simp add: cstr_def strlen_at_def)
qed

lemma cstr_no_zero: "cstr buf i = Some s \<Longrightarrow> 0 \<notin> set s"
  by (erule cstr_split) simp

lemma cstr_bound: "cstr buf i = Some s \<Longrightarrow> i + length s < length buf"
  by (erule cstr_split) simp

lemma strlen_at_cstr: "cstr buf i = Some s \<Longrightarrow> strlen_at buf i = Some (length s)"
  by (erule cstr_split) auto

lemma strncmp_eq_prefix:
  "strncmp_eq (pre @ s) (length pre) lit =
     (if prefix lit s then Some True else if strict_prefix s lit then None else Some False)"
proof (induction lit arbitrary: pre s)
  case Nil
  then show ?case by simp
next
  case (Cons c lit)
  show ?case
  proof (cases s)
    case Nil
    then show ?thesis by simp
  next
    case (Cons d s')
    with Cons.IH [of "pre @ [d]" s'] show ?thesis by auto
  qed
qed

lemma strncmp_eq_total:
  "i \<le> z \<Longrightarrow> z < length buf \<Longrightarrow> buf ! z \<notin> set lit \<Longrightarrow> \<exists>b. strncmp_eq buf i lit = Some b"
proof (induction lit arbitrary: i)
  case (Cons c lit)
  then show ?case by (cases "i = z") auto
next
  case Nil
  show ?case by (rule exI [of _ True]) simp
qed

lemma strncmp_eq_in:
  "i + length lit \<le> length buf \<Longrightarrow>
     strncmp_eq buf i lit = Some (take (length lit) (drop i buf) = lit)"
  by (induction lit arbitrary: i) (auto simp: Cons_nth_drop_Suc [symmetric])

text \<open>Comparing with a literal at a position of a string.\<close>

lemma strncmp_eq_middle:
  assumes "0 \<notin> set lit"
  shows "strncmp_eq (pre @ t @ 0 # post) (length pre) lit = Some (prefix lit t)"
proof -
  have "\<not> strict_prefix (t @ 0 # post) lit"
  proof
    assume "strict_prefix (t @ 0 # post) lit"
    then have "0 \<in> set lit" by (auto simp: strict_prefix_def prefix_def)
    with assms show False by simp
  qed
  moreover have "prefix lit (t @ 0 # post) \<longleftrightarrow> prefix lit t"
    using assms by (auto simp: prefix_append prefix_Cons)
  ultimately show ?thesis by (simp add: strncmp_eq_prefix)
qed

section \<open>Lines\<close>

text \<open>\<open>getline\<close>: the lines of a file, each with its line end.\<close>

fun file_lines :: "u8 list \<Rightarrow> u8 list list" where
  "file_lines [] = []"
| "file_lines (c # cs) =
     (if c = 10 then [c] # file_lines cs
      else case file_lines cs of [] \<Rightarrow> [[c]] | l # ls \<Rightarrow> (c # l) # ls)"

lemma file_lines_line: "10 \<notin> set s \<Longrightarrow> file_lines (s @ 10 # r) = (s @ [10]) # file_lines r"
  by (induction s) auto

section \<open>In-place loops on strings\<close>

text \<open>
  The right-trim loop \<open>for(p = strlen(v) - 1; p >= 0 && isspace(v[p]); p--) v[p] = 0\<close>; the
  argument counts the characters still in front of the loop, so it starts at \<open>strlen(v)\<close>.
\<close>

fun rtrim_at :: "u8 list \<Rightarrow> nat \<Rightarrow> nat \<Rightarrow> u8 list option" where
  "rtrim_at buf v 0 = Some buf"
| "rtrim_at buf v (Suc p) =
     do { c \<leftarrow> rd buf (v + p);
          if isspace c then do { buf' \<leftarrow> wr buf (v + p) 0; rtrim_at buf' v p } else Some buf }"

definition rtrim :: "cstring \<Rightarrow> cstring" where
  "rtrim s = rev (dropWhile isspace (rev s))"

definition ltrim :: "cstring \<Rightarrow> cstring" where
  "ltrim s = dropWhile isspace s"

lemma rtrim_snoc [simp]: "rtrim (s @ [c]) = (if isspace c then rtrim s else s @ [c])"
  by (simp add: rtrim_def)

lemma rtrim_Nil [simp]: "rtrim [] = []"
  by (simp add: rtrim_def)

lemma length_rtrim: "length (rtrim s) \<le> length s"
  by (metis length_dropWhile_le length_rev rtrim_def)

lemma rtrim_at_append:
  "rtrim_at (pre @ s @ post) (length pre) (length s) =
     Some (pre @ rtrim s @ replicate (length s - length (rtrim s)) 0 @ post)"
proof (induction s arbitrary: post rule: rev_induct)
  case Nil
  then show ?case by simp
next
  case (snoc c s)
  show ?case
  proof (cases "isspace c")
    case True
    have "rtrim_at (pre @ (s @ [c]) @ post) (length pre) (length (s @ [c])) =
        rtrim_at (pre @ s @ 0 # post) (length pre) (length s)"
      using True by (simp add: nth_append list_update_append)
    also have "\<dots> = Some (pre @ rtrim s @ replicate (length s - length (rtrim s)) 0 @ 0 # post)"
      by (rule snoc.IH)
    finally show ?thesis
      using True length_rtrim [of s]
      by (simp add: Suc_diff_le replicate_app_Cons_same [symmetric])
  qed (simp add: nth_append)
qed

text \<open>
  \<open>xstr_lower\<close> (websocksy.c) lowercases a string in place; the loop condition calls
  \<open>strlen\<close> on the string as modified so far.
\<close>

function xstr_lower_loop :: "u8 list \<Rightarrow> nat \<Rightarrow> nat \<Rightarrow> u8 list option" where
  "xstr_lower_loop buf v n =
     do { l \<leftarrow> strlen_at buf v;
          if n < l
          then do { c \<leftarrow> rd buf (v + n);
                    buf' \<leftarrow> wr buf (v + n) (tolower c);
                    xstr_lower_loop buf' v (Suc n) }
          else Some buf }"
  by pat_completeness auto
termination
  by (relation "measure (\<lambda>(buf, v, n). length buf - (v + n))") (auto simp: mem_simps)

declare xstr_lower_loop.simps [simp del]

definition xstr_lower :: "u8 list \<Rightarrow> nat \<Rightarrow> u8 list option" where
  "xstr_lower buf v = xstr_lower_loop buf v 0"

lemma xstr_lower_loop_append:
  "0 \<notin> set s \<Longrightarrow> 0 \<notin> set t \<Longrightarrow>
     xstr_lower_loop (pre @ s @ t @ 0 # post) (length pre) (length s) =
       Some (pre @ s @ map tolower t @ 0 # post)"
proof (induction t arbitrary: s)
  case Nil
  have "strlen_at (pre @ s @ 0 # post) (length pre) = Some (length s)"
    using Nil by simp
  then show ?case by (simp add: xstr_lower_loop.simps)
next
  case (Cons c t)
  have len: "strlen_at (pre @ (s @ c # t) @ 0 # post) (length pre) = Some (length (s @ c # t))"
    by (rule strlen_at_append) (use Cons.prems in auto)
  have "xstr_lower_loop (pre @ s @ (c # t) @ 0 # post) (length pre) (length s) =
      xstr_lower_loop (pre @ (s @ [tolower c]) @ t @ 0 # post) (length pre) (length (s @ [tolower c]))"
    using len by (simp add: xstr_lower_loop.simps [of _ _ "length s"] nth_append list_update_append)
  also have "\<dots> = Some (pre @ (s @ [tolower c]) @ map tolower t @ 0 # post)"
    by (rule Cons.IH) (use Cons.prems in auto)
  finally show ?case by simp
qed

lemma xstr_lower_append:
  "0 \<notin> set s \<Longrightarrow>
     xstr_lower (pre @ s @ 0 # post) (length pre) = Some (pre @ map tolower s @ 0 # post)"
  using xstr_lower_loop_append [of "[]" s pre post] by (simp add: xstr_lower_def)

section \<open>Numbers\<close>

text \<open>
  \<open>strtoul(s, NULL, base)\<close> on a 64-bit target for the bases the source passes, 10 and 0:
  leading white space, an optional sign, for base 0 a \<open>0x\<close> or \<open>0\<close> prefix, then the longest
  run of digits; a value past \<open>ULONG_MAX\<close> saturates, a minus sign negates modulo 2^64.
\<close>

definition digit_val :: "u8 \<Rightarrow> nat" where
  "digit_val c =
     (if isdigit c then unat c - 48
      else if 97 \<le> c \<and> c \<le> 122 then unat c - 87
      else if 65 \<le> c \<and> c \<le> 90 then unat c - 55
      else 255)"

fun strtoul_digits :: "nat \<Rightarrow> nat \<Rightarrow> cstring \<Rightarrow> nat" where
  "strtoul_digits base acc [] = acc"
| "strtoul_digits base acc (c # cs) =
     (if digit_val c < base then strtoul_digits base (acc * base + digit_val c) cs else acc)"

definition strtoul_sign :: "cstring \<Rightarrow> bool \<times> cstring" where
  "strtoul_sign s =
     (case s of [] \<Rightarrow> (False, [])
      | c # cs \<Rightarrow> if c = 45 then (True, cs) else if c = 43 then (False, cs) else (False, s))"

definition strtoul_prefix :: "nat \<Rightarrow> cstring \<Rightarrow> nat \<times> cstring" where
  "strtoul_prefix base s =
     (if base \<noteq> 0 then (base, s)
      else case s of
        c # x # d # _ \<Rightarrow>
          if c = 48 \<and> tolower x = 120 \<and> isxdigit d then (16, drop 2 s)
          else if c = 48 then (8, s) else (10, s)
      | c # _ \<Rightarrow> if c = 48 then (8, s) else (10, s)
      | [] \<Rightarrow> (10, s))"

definition strtoul :: "nat \<Rightarrow> cstring \<Rightarrow> u64" where
  "strtoul base s =
     (let (neg, s1) = strtoul_sign (ltrim s);
          (b, s2) = strtoul_prefix base s1;
          n = strtoul_digits b 0 s2
      in if 2 ^ 64 \<le> n then - 1 else if neg then - of_nat n else of_nat n)"

end
