(* ===== verification/Os.thy ===== *)
theory Os
  imports Cstring
begin

text \<open>
  The operating system as the program sees it. Every system call is logged with its result in
  a trace, and the environment answers a call as any function of the trace so far: it may fail
  a call, accept part of the data of a \<open>send\<close>, or deliver any bytes to a \<open>recv\<close>. Theorems are
  about every environment; where the code relies on documented behaviour of a call, that is a
  named predicate on the environment.
\<close>

datatype sock_type = SOCK_STREAM | SOCK_DGRAM

text \<open>\<open>InetAddr i\<close> is the \<open>i\<close>-th entry of the list the last \<open>getaddrinfo\<close> returned.\<close>

datatype sock_addr = InetAddr nat | UnixAddr cstring

datatype syscall =
    SysSend int "u8 list"
  | SysRecv int nat
  | SysClose int
  | SysAccept int
  | SysGetaddrinfo cstring cstring sock_type bool
  | SysFreeaddrinfo
  | SysSocket sock_addr sock_type
  | SysReuseaddr int
  | SysV6only int
  | SysBind int sock_addr
  | SysConnect int sock_addr
  | SysListen int
  | SysGetfl int
  | SysSetfl int int
  | SysUnlink cstring

type_synonym trace = "(syscall \<times> int) list"

text \<open>
  \<open>sys\<close> answers every call but \<open>recv\<close> with its return value (for \<open>getaddrinfo\<close>, the number of
  addresses found, negative when it fails); \<open>rx\<close> answers a \<open>recv\<close> with an error or the bytes
  that are waiting, of which the kernel copies at most the requested number.
\<close>

record env =
  sys :: "trace \<Rightarrow> syscall \<Rightarrow> int"
  rx :: "trace \<Rightarrow> int \<Rightarrow> nat \<Rightarrow> u8 list option"

definition do_sys :: "env \<Rightarrow> syscall \<Rightarrow> trace \<Rightarrow> int \<times> trace" where
  "do_sys E c tr = (sys E tr c, tr @ [(c, sys E tr c)])"

lemma do_sysD: "do_sys E c tr = (r, tr') \<Longrightarrow> tr' = tr @ [(c, r)]"
  by (auto simp: do_sys_def)

text \<open>\<open>recv(fd, buf + pos, len, 0)\<close>: the return value and the buffer; undefined when the room
  offered to the kernel reaches past the object.\<close>

definition recv :: "env \<Rightarrow> int \<Rightarrow> u8 list \<Rightarrow> nat \<Rightarrow> nat \<Rightarrow> trace \<Rightarrow> (int \<times> u8 list \<times> trace) option" where
  "recv E fd buf pos len tr =
     (if length buf < pos + len then None
      else case rx E tr fd len of
        None \<Rightarrow> Some (-1, buf, tr @ [(SysRecv fd len, -1)])
      | Some ds \<Rightarrow>
          (let got = take len ds in
           do { buf' \<leftarrow> put buf pos got;
                Some (int (length got), buf', tr @ [(SysRecv fd len, int (length got))]) }))"

section \<open>Reading a trace\<close>

text \<open>The bytes the kernel accepted on a descriptor, and the descriptors closed, in order.\<close>

fun event_sent :: "int \<Rightarrow> syscall \<times> int \<Rightarrow> u8 list" where
  "event_sent fd (SysSend fd' bs, r) = (if fd' = fd then take (nat r) bs else [])"
| "event_sent fd _ = []"

definition sent_on :: "int \<Rightarrow> trace \<Rightarrow> u8 list" where
  "sent_on fd tr = concat (map (event_sent fd) tr)"

fun event_closed :: "syscall \<times> int \<Rightarrow> int list" where
  "event_closed (SysClose fd, r) = [fd]"
| "event_closed _ = []"

definition closed_in :: "trace \<Rightarrow> int list" where
  "closed_in tr = concat (map event_closed tr)"

fun is_send :: "int \<Rightarrow> syscall \<times> int \<Rightarrow> bool" where
  "is_send fd (SysSend fd' bs, r) \<longleftrightarrow> fd' = fd"
| "is_send fd _ \<longleftrightarrow> False"

text \<open>A trace segment that only sends on one descriptor.\<close>

definition only_sends :: "int \<Rightarrow> trace \<Rightarrow> bool" where
  "only_sends fd tr \<longleftrightarrow> list_all (is_send fd) tr"

lemma sent_on_Nil [simp]: "sent_on fd [] = []"
  by (simp add: sent_on_def)

lemma sent_on_append [simp]: "sent_on fd (xs @ ys) = sent_on fd xs @ sent_on fd ys"
  by (simp add: sent_on_def)

lemma sent_on_Cons [simp]: "sent_on fd (e # tr) = event_sent fd e @ sent_on fd tr"
  by (simp add: sent_on_def)

lemma closed_in_Nil [simp]: "closed_in [] = []"
  by (simp add: closed_in_def)

lemma closed_in_append [simp]: "closed_in (xs @ ys) = closed_in xs @ closed_in ys"
  by (simp add: closed_in_def)

lemma closed_in_Cons [simp]: "closed_in (e # tr) = event_closed e @ closed_in tr"
  by (simp add: closed_in_def)

lemma only_sends_Nil [simp]: "only_sends fd []"
  by (simp add: only_sends_def)

lemma only_sends_append [simp]: "only_sends fd (xs @ ys) \<longleftrightarrow> only_sends fd xs \<and> only_sends fd ys"
  by (simp add: only_sends_def)

lemma only_sends_Cons [simp]: "only_sends fd (e # tr) \<longleftrightarrow> is_send fd e \<and> only_sends fd tr"
  by (simp add: only_sends_def)

text \<open>A trace segment that neither sends nor receives on a descriptor.\<close>

fun is_io :: "int \<Rightarrow> syscall \<times> int \<Rightarrow> bool" where
  "is_io fd (SysSend fd' bs, r) \<longleftrightarrow> fd' = fd"
| "is_io fd (SysRecv fd' len, r) \<longleftrightarrow> fd' = fd"
| "is_io fd _ \<longleftrightarrow> False"

definition untouched :: "int \<Rightarrow> trace \<Rightarrow> bool" where
  "untouched fd tr \<longleftrightarrow> (\<forall>e\<in>set tr. \<not> is_io fd e)"

lemma untouched_simps [simp]:
  "untouched fd []" "untouched fd (xs @ ys) \<longleftrightarrow> untouched fd xs \<and> untouched fd ys"
  "untouched fd (e # tr) \<longleftrightarrow> \<not> is_io fd e \<and> untouched fd tr"
  by (auto simp: untouched_def)

lemma is_io_sent: "\<not> is_io fd e \<Longrightarrow> event_sent fd e = []"
  by (cases "(fd, e)" rule: is_io.cases) auto

lemma untouched_sent: "untouched fd tr \<Longrightarrow> sent_on fd tr = []"
  by (induction tr) (auto simp: is_io_sent)

text \<open>The descriptors created by \<open>socket\<close> and \<open>accept\<close> calls that succeeded, in order.\<close>

fun event_opened :: "syscall \<times> int \<Rightarrow> int list" where
  "event_opened (SysSocket a t, r) = (if 0 \<le> r then [r] else [])"
| "event_opened (SysAccept fd, r) = (if 0 \<le> r then [r] else [])"
| "event_opened _ = []"

definition opened_in :: "trace \<Rightarrow> int list" where
  "opened_in tr = concat (map event_opened tr)"

lemma opened_in_Nil [simp]: "opened_in [] = []"
  by (simp add: opened_in_def)

lemma opened_in_append [simp]: "opened_in (xs @ ys) = opened_in xs @ opened_in ys"
  by (simp add: opened_in_def)

lemma opened_in_Cons [simp]: "opened_in (e # tr) = event_opened e @ opened_in tr"
  by (simp add: opened_in_def)

lemma is_send_opened: "is_send fd e \<Longrightarrow> event_opened e = []"
  by (cases "(fd, e)" rule: is_send.cases) auto

lemma only_sends_opened: "only_sends fd tr \<Longrightarrow> opened_in tr = []"
  by (induction tr) (auto simp: is_send_opened)

lemma is_send_closed: "is_send fd e \<Longrightarrow> event_closed e = []"
  by (cases "(fd, e)" rule: is_send.cases) auto

lemma only_sends_closed: "only_sends fd tr \<Longrightarrow> closed_in tr = []"
  by (induction tr) (auto simp: is_send_closed)

lemma is_send_other: "is_send fd e \<Longrightarrow> fd' \<noteq> fd \<Longrightarrow> event_sent fd' e = []"
  by (cases "(fd, e)" rule: is_send.cases) auto

lemma only_sends_other: "only_sends fd tr \<Longrightarrow> fd' \<noteq> fd \<Longrightarrow> sent_on fd' tr = []"
  by (induction tr) (auto simp: is_send_other)

lemma is_send_io: "is_send fd e \<Longrightarrow> fd' \<noteq> fd \<Longrightarrow> \<not> is_io fd' e"
  by (cases "(fd, e)" rule: is_send.cases) auto

lemma only_sends_untouched: "only_sends fd tr \<Longrightarrow> fd' \<noteq> fd \<Longrightarrow> untouched fd' tr"
  by (induction tr) (auto simp: is_send_io)

section \<open>What the code relies on\<close>

text \<open>
  POSIX \<open>send\<close>: for a non-empty request it fails with -1 or accepts at least one and at most
  all of the bytes. On a negative descriptor it fails (EBADF).
\<close>

definition posix_send :: "env \<Rightarrow> bool" where
  "posix_send E \<longleftrightarrow>
     (\<forall>tr fd bs. bs \<noteq> [] \<longrightarrow>
        sys E tr (SysSend fd bs) = -1 \<or>
        0 \<le> fd \<and> 1 \<le> sys E tr (SysSend fd bs) \<and> sys E tr (SysSend fd bs) \<le> int (length bs))"

lemma posix_sendD:
  "posix_send E \<Longrightarrow> bs \<noteq> [] \<Longrightarrow>
     sys E tr (SysSend fd bs) = -1 \<or>
     0 \<le> fd \<and> 1 \<le> sys E tr (SysSend fd bs) \<and> sys E tr (SysSend fd bs) \<le> int (length bs)"
  by (simp add: posix_send_def)

text \<open>A descriptor on which some \<open>send\<close> fails.\<close>

definition send_fails :: "env \<Rightarrow> int \<Rightarrow> bool" where
  "send_fails E fd \<longleftrightarrow> (\<exists>tr bs. bs \<noteq> [] \<and> sys E tr (SysSend fd bs) = -1)"

lemma recv_total:
  assumes "pos + len \<le> length buf"
  obtains (error) "recv E fd buf pos len tr = Some (-1, buf, tr @ [(SysRecv fd len, -1)])"
  | (data) ds where "length ds \<le> len" "map_option (take len) (rx E tr fd len) = Some ds"
      "recv E fd buf pos len tr =
         Some (int (length ds), take pos buf @ ds @ drop (pos + length ds) buf,
               tr @ [(SysRecv fd len, int (length ds))])"
proof (cases "rx E tr fd len")
  case None
  with assms show ?thesis by (intro error) (simp add: recv_def)
next
  case (Some ds)
  with assms show ?thesis by (intro data [of "take len ds"]) (auto simp: recv_def put_def Let_def min_def)
qed

end
