(* ===== verification/Network.thy ===== *)
theory Network
  imports Os "HOL-Library.Multiset"
begin

text \<open>
  \<open>network.c\<close>: sending all of a buffer over as many \<open>send\<close> calls as it takes, and creating
  connected or listening sockets.
\<close>

section \<open>Sending\<close>

text \<open>The loop of \<open>network_send\<close>; \<open>off\<close> (the source's \<open>total\<close>) bytes are out so far.\<close>

partial_function (option) network_send_loop ::
  "env \<Rightarrow> int \<Rightarrow> u8 list \<Rightarrow> nat \<Rightarrow> trace \<Rightarrow> (int \<times> trace) option" where
  "network_send_loop E fd data off tr =
     (if off < length data
      then let (sent, tr') = do_sys E (SysSend fd (drop off data)) tr in
           if sent < 0 then Some (1, tr')
           else network_send_loop E fd data (off + nat sent) tr'
      else Some (0, tr))"

definition network_send :: "env \<Rightarrow> int \<Rightarrow> u8 list \<Rightarrow> trace \<Rightarrow> (int \<times> trace) option" where
  "network_send E fd data tr = network_send_loop E fd data 0 tr"

definition network_send_str :: "env \<Rightarrow> int \<Rightarrow> cstring \<Rightarrow> trace \<Rightarrow> (int \<times> trace) option" where
  "network_send_str E fd data tr = network_send E fd data tr"

lemma network_send_loop_total:
  assumes "posix_send E" "off \<le> length data"
  shows "\<exists>r ext. network_send_loop E fd data off tr = Some (r, tr @ ext) \<and> only_sends fd ext \<and>
    (r = 0 \<and> sent_on fd ext = drop off data \<and> (off < length data \<longrightarrow> 0 \<le> fd) \<or>
     r = 1 \<and> strict_prefix (sent_on fd ext) (drop off data) \<and> send_fails E fd)"
  using assms(2)
proof (induction "length data - off" arbitrary: off tr rule: less_induct)
  case less
  show ?case
  proof (cases "off < length data")
    case False
    with less.prems show ?thesis by (simp add: network_send_loop.simps)
  next
    case True
    let ?bs = "drop off data"
    let ?s = "sys E tr (SysSend fd ?bs)"
    from True have "?bs \<noteq> []" by simp
    from posix_sendD [OF assms(1) this, of tr fd] consider
      (fail) "?s = -1" | (ok) "0 \<le> fd" "1 \<le> ?s" "?s \<le> int (length ?bs)" by blast
    then show ?thesis
    proof cases
      case fail
      have "network_send_loop E fd data off tr = Some (1, tr @ [(SysSend fd ?bs, -1)])"
        using True fail by (simp add: network_send_loop.simps do_sys_def)
      moreover have "send_fails E fd" using fail \<open>?bs \<noteq> []\<close> unfolding send_fails_def by blast
      ultimately show ?thesis using True by (auto simp: strict_prefix_def)
    next
      case ok
      let ?t = "off + nat ?s"
      from ok True have t: "?t \<le> length data" "length data - ?t < length data - off" by auto
      from less.hyps [OF t(2,1)] obtain r ext where IH:
        "network_send_loop E fd data ?t (tr @ [(SysSend fd ?bs, ?s)]) =
           Some (r, (tr @ [(SysSend fd ?bs, ?s)]) @ ext)" "only_sends fd ext"
        "r = 0 \<and> sent_on fd ext = drop ?t data \<or>
         r = 1 \<and> strict_prefix (sent_on fd ext) (drop ?t data) \<and> send_fails E fd" by blast
      have "network_send_loop E fd data off tr = Some (r, tr @ ((SysSend fd ?bs, ?s) # ext))"
        using True ok IH(1) by (simp add: network_send_loop.simps [of E fd data off] do_sys_def)
      moreover have "?bs = take (nat ?s) ?bs @ drop ?t data"
        by (metis append_take_drop_id drop_drop add.commute)
      ultimately show ?thesis using IH(2,3) ok(1)
        by (intro exI [of _ r] exI [of _ "(SysSend fd ?bs, ?s) # ext"])
          (auto simp: strict_prefix_def, (metis same_append_eq same_prefix_prefix)+)
    qed
  qed
qed

text \<open>What every caller of \<open>network_send\<close> may rely on.\<close>

lemma network_send_cases:
  assumes "posix_send E"
  obtains (sent) ext where "network_send E fd data tr = Some (0, tr @ ext)" "only_sends fd ext"
      "sent_on fd ext = data" "data \<noteq> [] \<Longrightarrow> 0 \<le> fd"
  | (failed) ext where "network_send E fd data tr = Some (1, tr @ ext)" "only_sends fd ext"
      "strict_prefix (sent_on fd ext) data" "send_fails E fd"
  using network_send_loop_total [OF assms, of 0 data fd tr] by (auto simp: network_send_def)

lemma runs_network_send [runs_rules]:
  assumes "posix_send E"
    and "\<And>ext. only_sends fd ext \<Longrightarrow> sent_on fd ext = data \<Longrightarrow> (data \<noteq> [] \<Longrightarrow> 0 \<le> fd) \<Longrightarrow> Q (0, tr @ ext)"
    and "\<And>ext. only_sends fd ext \<Longrightarrow> strict_prefix (sent_on fd ext) data \<Longrightarrow>
      send_fails E fd \<Longrightarrow> Q (1, tr @ ext)"
  shows "runs (network_send E fd data tr) Q"
  using assms by (cases rule: network_send_cases [OF assms(1), of fd data tr]) simp_all

lemma runs_network_send_str [runs_rules]:
  assumes "posix_send E"
    and "\<And>ext. only_sends fd ext \<Longrightarrow> sent_on fd ext = data \<Longrightarrow> (data \<noteq> [] \<Longrightarrow> 0 \<le> fd) \<Longrightarrow> Q (0, tr @ ext)"
    and "\<And>ext. only_sends fd ext \<Longrightarrow> strict_prefix (sent_on fd ext) data \<Longrightarrow>
      send_fails E fd \<Longrightarrow> Q (1, tr @ ext)"
  shows "runs (network_send_str E fd data tr) Q"
  unfolding network_send_str_def by (rule runs_network_send) (use assms in auto)

section \<open>Creating sockets\<close>

definition O_NONBLOCK :: int where
  "O_NONBLOCK = 2048"

text \<open>
  The loop over the results of \<open>getaddrinfo\<close>: whether an address worked, and the last
  descriptor value assigned.
\<close>

fun network_socket_loop ::
  "env \<Rightarrow> sock_type \<Rightarrow> bool \<Rightarrow> nat list \<Rightarrow> int \<Rightarrow> trace \<Rightarrow> bool \<times> int \<times> trace" where
  "network_socket_loop E socktype listener [] fd tr = (False, fd, tr)"
| "network_socket_loop E socktype listener (i # is) fd0 tr =
     (let (fd, tr1) = do_sys E (SysSocket (InetAddr i) socktype) tr in
      if fd < 0 then network_socket_loop E socktype listener is fd tr1
      else
        let (_, tr2) = do_sys E (SysReuseaddr fd) tr1;
            (_, tr3) = do_sys E (SysV6only fd) tr2;
            (status, tr4) =
              do_sys E (if listener then SysBind fd (InetAddr i) else SysConnect fd (InetAddr i)) tr3
        in if status < 0
           then let (_, tr5) = do_sys E (SysClose fd) tr4
                in network_socket_loop E socktype listener is fd tr5
           else (True, fd, tr4))"

text \<open>Setting a descriptor non-blocking; on failure the descriptor is closed.\<close>

definition set_nonblocking :: "env \<Rightarrow> int \<Rightarrow> trace \<Rightarrow> int \<times> trace" where
  "set_nonblocking E fd tr =
     (let (flags, tr1) = do_sys E (SysGetfl fd) tr;
          (r, tr2) = do_sys E (SysSetfl fd (flags OR O_NONBLOCK)) tr1
      in if r < 0 then let (_, tr3) = do_sys E (SysClose fd) tr2 in (-1, tr3) else (fd, tr2))"

definition network_socket ::
  "env \<Rightarrow> cstring \<Rightarrow> cstring \<Rightarrow> sock_type \<Rightarrow> bool \<Rightarrow> trace \<Rightarrow> int \<times> trace" where
  "network_socket E host port socktype listener tr =
     (let (status, tr1) = do_sys E (SysGetaddrinfo host port socktype listener) tr in
      if status < 0 then (-1, tr1)
      else
        let (found, fd, tr2) =
              network_socket_loop E socktype listener [0..<nat status] (-1) tr1;
            (_, tr3) = do_sys E SysFreeaddrinfo tr2
        in if \<not> found then (-1, tr3)
           else
             let (fd, tr4) = set_nonblocking E fd tr3
             in if fd < 0 then (-1, tr4)
                else if \<not> listener then (fd, tr4)
                else if socktype = SOCK_STREAM
                then let (status, tr5) = do_sys E (SysListen fd) tr4
                     in if status < 0
                        then let (_, tr6) = do_sys E (SysClose fd) tr5 in (-1, tr6)
                        else (fd, tr5)
                else (fd, tr4))"

text \<open>\<open>sizeof(addr.sun_path)\<close> on Linux.\<close>

definition SUN_PATH_SIZE :: nat where
  "SUN_PATH_SIZE = 108"

definition network_socket_unix ::
  "env \<Rightarrow> cstring \<Rightarrow> sock_type \<Rightarrow> bool \<Rightarrow> trace \<Rightarrow> int \<times> trace" where
  "network_socket_unix E path socktype listener tr =
     (let addr = UnixAddr (take (SUN_PATH_SIZE - 1) path);
          (fd, tr1) = do_sys E (SysSocket addr socktype) tr
      in if fd < 0 then (-1, tr1)
         else
           let (fd, tr2) = set_nonblocking E fd tr1
           in if fd < 0 then (-1, tr2)
              else if listener
              then
                let (_, tr3) = do_sys E (SysUnlink path) tr2;
                    (r, tr4) = do_sys E (SysBind fd addr) tr3
                in if r \<noteq> 0 then let (_, tr5) = do_sys E (SysClose fd) tr4 in (-1, tr5)
                   else
                     let (r, tr5) = do_sys E (SysListen fd) tr4
                     in if r \<noteq> 0 then let (_, tr6) = do_sys E (SysClose fd) tr5 in (-1, tr6)
                        else (fd, tr5)
              else
                let (r, tr3) = do_sys E (SysConnect fd addr) tr2
                in if r \<noteq> 0 then let (_, tr4) = do_sys E (SysClose fd) tr3 in (-1, tr4)
                   else (fd, tr3))"

text \<open>
  Descriptor accounting: a trace segment that ends with descriptor \<open>fd\<close> in hand has closed
  every other descriptor it created, exactly once; \<open>fd = -1\<close> means it holds none. A segment
  of socket set-up calls sends and receives nothing.
\<close>

definition balanced :: "int \<Rightarrow> trace \<Rightarrow> bool" where
  "balanced fd tr \<longleftrightarrow>
     mset (opened_in tr) = mset (closed_in tr) + (if 0 \<le> fd then {#fd#} else {#})"

definition quiet :: "trace \<Rightarrow> bool" where
  "quiet tr \<longleftrightarrow> (\<forall>fd. untouched fd tr)"

lemma network_socket_loop_spec:
  "network_socket_loop E socktype listener is fd0 tr = (found, fd, tr') \<Longrightarrow>
     \<exists>ext. tr' = tr @ ext \<and> quiet ext \<and>
       (found \<and> 0 \<le> fd \<and> balanced fd ext \<or> \<not> found \<and> balanced (-1) ext)"
proof (induction "is" arbitrary: fd0 tr listener)
  case Nil
  then show ?case by (simp add: quiet_def balanced_def)
next
  case (Cons i "is")
  from Cons.prems show ?case
    by (auto simp: Let_def quiet_def balanced_def split: prod.splits if_splits
        dest!: do_sysD Cons.IH)
qed

lemma set_nonblocking_spec:
  "set_nonblocking E fd tr = (r, tr') \<Longrightarrow>
     \<exists>ext. tr' = tr @ ext \<and> quiet ext \<and> opened_in ext = [] \<and>
       (r = fd \<and> closed_in ext = [] \<or> r = -1 \<and> closed_in ext = [fd])"
  by (auto simp: set_nonblocking_def Let_def quiet_def split: prod.splits if_splits dest!: do_sysD)

lemma quiet_sent: "quiet tr \<Longrightarrow> sent_on fd tr = []"
  by (simp add: quiet_def untouched_sent)

lemma quiet_balanced_simps [simp]:
  "quiet (xs @ ys) \<longleftrightarrow> quiet xs \<and> quiet ys"
  by (auto simp: quiet_def)

lemma network_socket_spec:
  assumes "network_socket E host port socktype listener tr = (fd, tr')"
  shows "\<exists>ext. tr' = tr @ ext \<and> quiet ext \<and> -1 \<le> fd \<and> balanced fd ext"
  using assms
  by (auto simp: network_socket_def Let_def balanced_def quiet_def split: prod.splits if_splits
      dest!: do_sysD network_socket_loop_spec set_nonblocking_spec)

lemma network_socket_unix_spec:
  assumes "network_socket_unix E path socktype listener tr = (fd, tr')"
  shows "\<exists>ext. tr' = tr @ ext \<and> quiet ext \<and> -1 \<le> fd \<and> balanced fd ext"
  using assms
  by (auto simp: network_socket_unix_def Let_def balanced_def quiet_def split: prod.splits if_splits
      dest!: do_sysD set_nonblocking_spec)

end
