(* ===== verification/Types.thy ===== *)
theory Types
  imports Network
begin

text \<open>
  The shared data model of \<open>websocksy.h\<close>: connection states, opcodes, close reasons, headers,
  peer information and the connection itself. A \<open>char*\<close> that owns a heap string is a
  \<open>cstring option\<close> with \<open>None\<close> for the null pointer; a counted array is a list.
\<close>

definition WS_MAX_LINE :: nat where
  "WS_MAX_LINE = 16384"

definition PEER_BUFFER_SIZE :: nat where
  "PEER_BUFFER_SIZE = 16384"

definition WS_HEADER_LIMIT :: nat where
  "WS_HEADER_LIMIT = 10"

definition WEBSOCKSY_API_VERSION :: nat where
  "WEBSOCKSY_API_VERSION = 1"

section \<open>Enumerations\<close>

datatype ws_state = ws_new | ws_http | ws_open | ws_closed

datatype ws_operation =
    ws_frame_continuation
  | ws_frame_text
  | ws_frame_binary
  | ws_frame_close
  | ws_frame_ping
  | ws_frame_pong
  | ws_frame_discard

fun op_code :: "ws_operation \<Rightarrow> nat" where
  "op_code ws_frame_continuation = 0"
| "op_code ws_frame_text = 1"
| "op_code ws_frame_binary = 2"
| "op_code ws_frame_close = 8"
| "op_code ws_frame_ping = 9"
| "op_code ws_frame_pong = 10"
| "op_code ws_frame_discard = 11"

datatype ws_close_reason =
    ws_close_http
  | ws_close_normal
  | ws_close_shutdown
  | ws_close_proto
  | ws_close_data
  | ws_close_format
  | ws_close_policy
  | ws_close_limit
  | ws_close_unexpected

datatype peer_transport =
    peer_transport_detect
  | peer_tcp_client
  | peer_udp_client
  | peer_fifo_tx
  | peer_fifo_rx
  | peer_unix_stream
  | peer_unix_dgram

text \<open>The C enumerators of the connection state are ordered; the order is the life cycle.\<close>

fun ws_state_num :: "ws_state \<Rightarrow> nat" where
  "ws_state_num ws_new = 0"
| "ws_state_num ws_http = 1"
| "ws_state_num ws_open = 2"
| "ws_state_num ws_closed = 3"

lemma ws_state_num_inject: "ws_state_num a = ws_state_num b \<longleftrightarrow> a = b"
  by (cases a; cases b) simp_all

instantiation ws_state :: linorder
begin

definition less_eq_ws_state :: "ws_state \<Rightarrow> ws_state \<Rightarrow> bool" where
  "a \<le> b \<longleftrightarrow> ws_state_num a \<le> ws_state_num b"

definition less_ws_state :: "ws_state \<Rightarrow> ws_state \<Rightarrow> bool" where
  "a < b \<longleftrightarrow> ws_state_num a < ws_state_num b"

instance
  by standard (auto simp: less_eq_ws_state_def less_ws_state_def ws_state_num_inject)

end

lemma ws_state_le_simps [simp]:
  "ws_new \<le> s" "s \<le> ws_closed" "ws_http \<le> ws_open" "\<not> ws_http \<le> ws_new" "\<not> ws_open \<le> ws_new"
  "\<not> ws_open \<le> ws_http" "ws_closed \<le> s \<longleftrightarrow> s = ws_closed"
  by (cases s; simp add: less_eq_ws_state_def)+

section \<open>Peers and framing functions\<close>

text \<open>
  What a \<open>void* framing_data\<close> of a connection can point to: nothing, an object that was freed,
  or the per-connection configuration of one of the framing functions of the tree.
\<close>

record dynamic32_config =
  dyn_offset :: u32
  dyn_fixed :: u32
  dyn_endian :: u8

datatype framing_data =
    FNull
  | FFreed
  | FSeparator "u8 list"
  | FFixed u64
  | FDynamic dynamic32_config

text \<open>
  A framing function gets the buffer (from the start of the data to the end of the array, or a
  null pointer), the number of bytes in it, the size of the last read, pointers to the opcode
  and to the framing data (\<open>None\<close> for a null pointer), and the configuration string; it returns
  the number of bytes to frame, and the opcode and framing data it leaves behind.
\<close>

type_synonym ws_framing =
  "u8 list option \<Rightarrow> nat \<Rightarrow> nat \<Rightarrow> ws_operation option \<Rightarrow> framing_data option \<Rightarrow> cstring option \<Rightarrow>
     (int \<times> ws_operation option \<times> framing_data option) option"

record ws_http_header =
  tag :: cstring
  "value" :: cstring

record ws_peer_info =
  transport :: peer_transport
  host :: "cstring option"
  port :: "cstring option"
  framing :: "ws_framing option"
  framing_config :: "cstring option"
  peer_protocol :: nat

definition empty_peer :: ws_peer_info where
  "empty_peer =
     \<lparr>transport = peer_transport_detect, host = None, port = None, framing = None,
      framing_config = None, peer_protocol = 0\<rparr>"

section \<open>Connections\<close>

record websocket =
  ws_fd :: int
  read_buffer :: "u8 list"
  read_buffer_offset :: nat
  state :: ws_state
  last_event :: int
  header :: "ws_http_header list"
  request_path :: "cstring option"
  websocket_version :: u32
  socket_key :: "cstring option"
  want_upgrade :: u32
  protocol :: "cstring list"
  peer :: ws_peer_info
  peer_fd :: int
  peer_buffer :: "u8 list"
  peer_buffer_offset :: nat
  peer_framing_data :: framing_data

text \<open>
  The backend in use, as a connection sees it: \<open>query\<close> with the endpoint, the offered
  subprotocols and the headers; it may modify the endpoint string in place.
\<close>

type_synonym backend_query =
  "cstring option \<Rightarrow> cstring list \<Rightarrow> ws_http_header list \<Rightarrow> (ws_peer_info \<times> cstring option) option"

end
