(* ===== verification/Framing.thy ===== *)
theory Framing
  imports Types
begin

text \<open>
  The framing functions of \<open>builtins.c\<close> and the contract a framing function has with its
  caller, the locales \<open>framing_stream_law\<close> and \<open>framing_law\<close>.
\<close>

section \<open>The contract\<close>

text \<open>
  \<open>I\<close> is the set of values the framing data of a connection can have between calls. Given a
  buffer with room for one byte after the data (the terminator the caller writes), the function
  returns, frames no more than there is, and keeps \<open>I\<close>.
\<close>

locale framing_stream_law =
  fixes f :: ws_framing and cfg :: "cstring option" and I :: "framing_data \<Rightarrow> bool"
  assumes fresh: "I FNull"
    and data: "I fd \<Longrightarrow> len < length buf \<Longrightarrow> last_read \<le> len \<Longrightarrow>
      \<exists>n op' fd'. f (Some buf) len last_read (Some op) (Some fd) cfg = Some (int n, Some op', Some fd') \<and>
        n \<le> len \<and> I fd'"

text \<open>A framing function that, in addition, frames only payloads of a certain shape.\<close>

locale framing_shape_law = framing_stream_law +
  fixes shape :: "u8 list \<Rightarrow> bool"
  assumes shape: "I fd \<Longrightarrow> len < length buf \<Longrightarrow> last_read \<le> len \<Longrightarrow>
      f (Some buf) len last_read (Some op) (Some fd) cfg = Some (int n, op', fd') \<Longrightarrow> 0 < n \<Longrightarrow>
      shape (take n buf)"

sublocale framing_stream_law \<subseteq> any_shape: framing_shape_law f cfg I "\<lambda>_. True"
  by unfold_locales simp

text \<open>Releasing the framing data is defined.\<close>

locale framing_law = framing_stream_law +
  assumes cleanup: "I fd \<Longrightarrow> fd \<noteq> FNull \<Longrightarrow> f None 0 0 None (Some fd) cfg \<noteq> None"

section \<open>\<open>auto\<close> and \<open>binary\<close>\<close>

definition utf8_byte :: "u8 \<Rightarrow> bool" where
  "utf8_byte a \<longleftrightarrow> a AND 0xC0 = 0x80"

text \<open>The chain of conditions \<open>!UTF8_BYTE(data[p + 1]) || !UTF8_BYTE(data[p + 2]) ...\<close>, negated;
  the reads stop at the first byte that is no continuation byte.\<close>

fun utf8_conts :: "u8 list \<Rightarrow> nat \<Rightarrow> nat \<Rightarrow> bool option" where
  "utf8_conts d p 0 = Some True"
| "utf8_conts d p (Suc n) =
     do { b \<leftarrow> rd d (p + 1); if \<not> utf8_byte b then Some False else utf8_conts d (p + 1) n }"

function framing_auto_valid :: "u8 list \<Rightarrow> nat \<Rightarrow> nat \<Rightarrow> bool option" where
  "framing_auto_valid d len p =
     (if p < len then do {
        c \<leftarrow> rd d p;
        if c AND 0xF8 = 0xF0 then
          (if p + 3 \<ge> len then Some False
           else do { ok \<leftarrow> utf8_conts d p 3;
                     if \<not> ok then Some False else framing_auto_valid d len (p + 3 + 1) })
        else if c AND 0xF0 = 0xE0 then
          (if p + 2 \<ge> len then Some False
           else do { ok \<leftarrow> utf8_conts d p 2;
                     if \<not> ok then Some False else framing_auto_valid d len (p + 2 + 1) })
        else if c AND 0xE0 = 0xC0 then
          (if p + 1 \<ge> len then Some False
           else do { ok \<leftarrow> utf8_conts d p 1;
                     if \<not> ok then Some False else framing_auto_valid d len (p + 1 + 1) })
        else if c AND 0x80 \<noteq> 0 then Some False
        else framing_auto_valid d len (p + 1) }
      else Some True)"
  by pat_completeness auto
termination
  by (relation "measure (\<lambda>(d, len, p). len - p)") auto

declare framing_auto_valid.simps [simp del]

definition framing_auto :: ws_framing where
  "framing_auto data len last_read opcode framing_data config =
     do { valid \<leftarrow> (case data of
            None \<Rightarrow> if len = 0 then Some True else None
          | Some d \<Rightarrow> framing_auto_valid d len 0);
          Some (int len, if valid then map_option (\<lambda>_. ws_frame_text) opcode else opcode,
                framing_data) }"

definition framing_binary :: ws_framing where
  "framing_binary data len last_read opcode framing_data config =
     Some (int len, opcode, framing_data)"

section \<open>\<open>separator\<close>\<close>

text \<open>\<open>sscanf(s, "%02x", ..)\<close> at a hexadecimal digit: at most two digits.\<close>

definition hex_val :: "u8 \<Rightarrow> nat" where
  "hex_val c = digit_val c"

definition sscanf_02x :: "u8 list \<Rightarrow> nat \<Rightarrow> nat option" where
  "sscanf_02x s i =
     do { a \<leftarrow> rd s i;
          b \<leftarrow> rd s (i + 1);
          Some (if isxdigit b then 16 * hex_val a + hex_val b else hex_val a) }"

text \<open>
  The escape parser works in place: \<open>u\<close> reads, \<open>p\<close> writes. \<open>Some None\<close> is the early
  \<open>return -1\<close>. In the case of a backslash before the terminator the source decrements \<open>u\<close>
  before the two increments (unsigned, so 0 wraps and comes back).
\<close>

function separator_parse :: "u8 list \<Rightarrow> nat \<Rightarrow> nat \<Rightarrow> (u8 list \<times> nat) option option" where
  "separator_parse s u p =
     do { c \<leftarrow> rd s u;
          if c = 0 then Some (Some (s, p))
          else do {
            s1 \<leftarrow> wr s p c;
            if c \<noteq> 92 then separator_parse s1 (u + 1) (p + 1)
            else do {
              e \<leftarrow> rd s1 (u + 1);
              if e = 0 then do { s2 \<leftarrow> wr s1 p 0; separator_parse s2 (u + 1) (p + 1) }
              else if e = 48 then do { s2 \<leftarrow> wr s1 p 0; separator_parse s2 (u + 2) (p + 1) }
              else if e = 116 then do { s2 \<leftarrow> wr s1 p 9; separator_parse s2 (u + 2) (p + 1) }
              else if e = 110 then do { s2 \<leftarrow> wr s1 p 10; separator_parse s2 (u + 2) (p + 1) }
              else if e = 102 then do { s2 \<leftarrow> wr s1 p 12; separator_parse s2 (u + 2) (p + 1) }
              else if e = 114 then do { s2 \<leftarrow> wr s1 p 13; separator_parse s2 (u + 2) (p + 1) }
              else if e = 92 then do { s2 \<leftarrow> wr s1 p 92; separator_parse s2 (u + 2) (p + 1) }
              else if e = 120 then do {
                h1 \<leftarrow> rd s1 (u + 2);
                if \<not> isxdigit h1 then Some None
                else do {
                  h2 \<leftarrow> rd s1 (u + 3);
                  if \<not> isxdigit h2 then Some None
                  else do {
                    hex \<leftarrow> sscanf_02x s1 (u + 3);
                    s2 \<leftarrow> wr s1 p (of_nat hex);
                    separator_parse s2 (u + 4) (p + 1) } } }
              else separator_parse s1 (u + 2) (p + 1) } } }"
  by pat_completeness auto
termination
  by (relation "measure (\<lambda>(s, u, p). length s - u)") (auto simp: mem_simps)

declare separator_parse.simps [simp del]

text \<open>The search for the separator among the bytes of the last read.\<close>

function separator_search :: "u8 list \<Rightarrow> nat \<Rightarrow> nat \<Rightarrow> cstring \<Rightarrow> nat \<Rightarrow> int option" where
  "separator_search d len last_read sep u =
     (if u < last_read \<and> last_read - u \<ge> length sep
      then do { hit \<leftarrow> strncmp_eq d ((len - last_read) + u) sep;
                if hit then Some (int ((len - last_read) + u + length sep))
                else separator_search d len last_read sep (Suc u) }
      else Some 0)"
  by pat_completeness auto
termination
  by (relation "measure (\<lambda>(d, len, last_read, sep, u). last_read - u)") auto

declare separator_search.simps [simp del]

text \<open>
  \<open>framing_separator\<close>. A size of the last read past the length of the data would make the
  pointer arithmetic wrap and is undefined. When parsing fails the configuration is freed and
  not stored.
\<close>

definition framing_separator :: ws_framing where
  "framing_separator data len last_read opcode framing_data config =
     (let cur = (case framing_data of None \<Rightarrow> FNull | Some fd \<Rightarrow> fd) in
      case data of
        Some d \<Rightarrow>
          do { parsed \<leftarrow>
                 (if cur = FNull
                  then do { cfg \<leftarrow> config;
                            r \<leftarrow> separator_parse (cfg @ [0]) 0 0;
                            Some (map_option (\<lambda>(s, p). FSeparator (take p s)) r) }
                  else Some (Some cur));
               case parsed of
                 None \<Rightarrow> Some (-1, opcode, framing_data)
               | Some conf \<Rightarrow>
                   (case conf of
                      FSeparator sep \<Rightarrow>
                        if sep = [] then Some (int len, opcode, map_option (\<lambda>_. conf) framing_data)
                        else if len < last_read then None
                        else do { n \<leftarrow> separator_search d len last_read sep 0;
                                  Some (n, opcode, map_option (\<lambda>_. conf) framing_data) }
                    | _ \<Rightarrow> None) }
      | None \<Rightarrow>
          (case cur of
             FNull \<Rightarrow> Some (int len, opcode, framing_data)
           | FSeparator sep \<Rightarrow> Some (0, opcode, Some FFreed)
           | _ \<Rightarrow> None))"

section \<open>\<open>newline\<close>\<close>

definition framing_newline :: ws_framing where
  "framing_newline data len last_read opcode framing_data config =
     do { (b, opcode1, framing_data1) \<leftarrow>
            (if data \<noteq> None \<and> (framing_data = None \<or> framing_data = Some FNull)
             then do {
               cfg \<leftarrow> config;
               let e0 = bytes [CHR 92, CHR ''r'', CHR 92, CHR ''n''];
               let e1 = (if cfg = bytes ''crlf'' then bytes [CHR 92, CHR ''r'', CHR 92, CHR ''n''] else e0);
               let e2 = (if cfg = bytes ''lfcr'' then bytes [CHR 92, CHR ''n'', CHR 92, CHR ''r''] else e1);
               let e3 = (if cfg = bytes ''lf'' then bytes [CHR 92, CHR ''n''] else e2);
               let e4 = (if cfg = bytes ''cr'' then bytes [CHR 92, CHR ''r''] else e3);
               framing_separator data len last_read opcode framing_data (Some e4) }
             else framing_separator data len last_read opcode framing_data None);
          if b < 0 then Some (int len, opcode1, framing_data1)
          else do { (r, opcode2, _) \<leftarrow> framing_auto data (nat b) 0 opcode1 None None;
                    Some (r, opcode2, framing_data1) } }"

section \<open>\<open>auto\<close> recognises the UTF-8 bit patterns\<close>

text \<open>
  The grammar the checks amount to: units of a lead byte and its continuation bytes, told apart
  by the bit patterns of RFC 3629 alone.
\<close>

definition utf8_follow :: "u8 \<Rightarrow> nat option" where
  "utf8_follow c =
     (if c AND 0xF8 = 0xF0 then Some 3
      else if c AND 0xF0 = 0xE0 then Some 2
      else if c AND 0xE0 = 0xC0 then Some 1
      else if c AND 0x80 \<noteq> 0 then None
      else Some 0)"

definition utf8_unit :: "u8 list \<Rightarrow> bool" where
  "utf8_unit u \<longleftrightarrow>
     (case u of [] \<Rightarrow> False | c # cs \<Rightarrow> utf8_follow c = Some (length cs) \<and> list_all utf8_byte cs)"

function utf8_like :: "u8 list \<Rightarrow> bool" where
  "utf8_like [] \<longleftrightarrow> True"
| "utf8_like (c # cs) \<longleftrightarrow>
     (case utf8_follow c of
        None \<Rightarrow> False
      | Some n \<Rightarrow> n \<le> length cs \<and> list_all utf8_byte (take n cs) \<and> utf8_like (drop n cs))"
  by pat_completeness auto
termination
  by (relation "measure length") auto

declare utf8_like.simps(2) [simp del]

lemma utf8_like_unit: "utf8_unit u \<Longrightarrow> utf8_like (u @ xs) \<longleftrightarrow> utf8_like xs"
  by (cases u) (auto simp: utf8_unit_def utf8_like.simps(2))

lemma utf8_like_units: "\<forall>u\<in>set us. utf8_unit u \<Longrightarrow> utf8_like (concat us)"
  by (induction us) (auto simp: utf8_like_unit)

lemma utf8_like_iff: "utf8_like xs \<longleftrightarrow> (\<exists>us. xs = concat us \<and> (\<forall>u\<in>set us. utf8_unit u))"
proof
  assume "utf8_like xs"
  then show "\<exists>us. xs = concat us \<and> (\<forall>u\<in>set us. utf8_unit u)"
  proof (induction xs rule: utf8_like.induct)
    case 1
    show ?case by (rule exI [of _ "[]"]) simp
  next
    case (2 c cs)
    then obtain n where n: "utf8_follow c = Some n" "n \<le> length cs"
      "list_all utf8_byte (take n cs)" "utf8_like (drop n cs)"
      by (auto simp: utf8_like.simps(2) split: option.splits)
    from "2.IH" [OF n(1,4)] obtain us where us: "drop n cs = concat us" "\<forall>u\<in>set us. utf8_unit u"
      by blast
    have "c # cs = concat ((c # take n cs) # us)"
      by (simp add: us(1) [symmetric])
    moreover have "utf8_unit (c # take n cs)" using n by (simp add: utf8_unit_def)
    ultimately show ?case using us(2) by (metis set_ConsD)
  qed
qed (auto intro: utf8_like_units)

lemma utf8_conts_eq:
  "p + n < length d \<Longrightarrow> utf8_conts d p n = Some (list_all utf8_byte (take n (drop (p + 1) d)))"
proof (induction n arbitrary: p)
  case (Suc n)
  then have "drop (p + 1) d = d ! (p + 1) # drop (p + 2) d"
    by (simp add: Cons_nth_drop_Suc)
  with Suc show ?case by simp
qed simp

text \<open>One step of the loop, told by the number of continuation bytes of the lead byte.\<close>

lemma framing_auto_valid_step:
  assumes "p < len" "len \<le> length d"
  shows "framing_auto_valid d len p =
    (case utf8_follow (d ! p) of
       None \<Rightarrow> Some False
     | Some n \<Rightarrow>
         if len \<le> p + n then Some False
         else do { ok \<leftarrow> utf8_conts d p n;
                   if \<not> ok then Some False else framing_auto_valid d len (p + n + 1) })"
  using assms by (simp add: framing_auto_valid.simps [of d len p] utf8_follow_def del: utf8_conts.simps(2) cong: if_cong)

lemma framing_auto_valid_eq:
  "p \<le> len \<Longrightarrow> len \<le> length d \<Longrightarrow>
     framing_auto_valid d len p = Some (utf8_like (take (len - p) (drop p d)))"
proof (induction "len - p" arbitrary: p rule: less_induct)
  case less
  show ?case
  proof (cases "p < len")
    case False
    with less.prems show ?thesis by (simp add: framing_auto_valid.simps)
  next
    case True
    let ?cs = "take (len - Suc p) (drop (Suc p) d)"
    have split: "take (len - p) (drop p d) = d ! p # ?cs"
      using True less.prems
      by (metis Cons_nth_drop_Suc Suc_diff_Suc order_less_le_trans take_Suc_Cons)
    note step = framing_auto_valid_step [OF True less.prems(2)] split utf8_like.simps(2)
    have rest: "drop n ?cs = take (len - (p + n + 1)) (drop (p + n + 1) d)" for n
      by (simp add: drop_take add.commute)
    have conts: "utf8_conts d p n = Some (list_all utf8_byte (take n ?cs))" if "p + n < len" for n
      using that less.prems utf8_conts_eq [of p n d] by (simp add: min_absorb1)
    show ?thesis
    proof (cases "utf8_follow (d ! p)")
      case None
      then show ?thesis by (simp add: step)
    next
      case (Some n)
      show ?thesis
      proof (cases "p + n < len")
        case True
        then have "framing_auto_valid d len (p + n + 1) = Some (utf8_like (drop n ?cs))" "n \<le> length ?cs"
          using less.hyps [of "p + n + 1"] less.prems by (simp_all add: rest)
        with True show ?thesis by (simp add: step Some conts del: drop_drop take_drop drop_take)
      next
        case False
        then show ?thesis using True less.prems by (auto simp: step Some)
      qed
    qed
  qed
qed

lemma framing_auto_eq:
  "len \<le> length d \<Longrightarrow>
     framing_auto (Some d) len last_read opcode fd cfg =
       Some (int len, if utf8_like (take len d) then map_option (\<lambda>_. ws_frame_text) opcode else opcode, fd)"
  by (simp add: framing_auto_def framing_auto_valid_eq)

end
