(* ===== verification/Separator.thy ===== *)
theory Separator
  imports Framing
begin

text \<open>
  The \<open>separator\<close> and \<open>newline\<close> framing functions: the in-place escape parser against a
  reference on strings, the search against "first occurrence", and the framing laws.
\<close>

section \<open>The escape parser\<close>

text \<open>
  The value the code gives \<open>\x<a><b>\<close>: the scan starts at the second digit, so it takes the
  second digit and, if it is one, the character after the escape.
\<close>

definition hex_escape :: "u8 \<Rightarrow> cstring \<Rightarrow> u8" where
  "hex_escape h2 r =
     of_nat (case r of
        [] \<Rightarrow> hex_val h2
      | b # _ \<Rightarrow> if isxdigit b then 16 * hex_val h2 + hex_val b else hex_val h2)"

function unescape :: "cstring \<Rightarrow> cstring option" where
  "unescape [] = Some []"
| "unescape (c # cs) =
     (if c \<noteq> 92 then map_option (Cons c) (unescape cs)
      else case cs of
        [] \<Rightarrow> Some [0]
      | e # r \<Rightarrow>
          if e = 48 then map_option (Cons 0) (unescape r)
          else if e = 116 then map_option (Cons 9) (unescape r)
          else if e = 110 then map_option (Cons 10) (unescape r)
          else if e = 102 then map_option (Cons 12) (unescape r)
          else if e = 114 then map_option (Cons 13) (unescape r)
          else if e = 92 then map_option (Cons 92) (unescape r)
          else if e = 120 then
            (case r of
               h1 # h2 # r' \<Rightarrow>
                 if isxdigit h1 \<and> isxdigit h2
                 then map_option (Cons (hex_escape h2 r')) (unescape r') else None
             | _ \<Rightarrow> None)
          else map_option (Cons 92) (unescape r))"
  by pat_completeness auto
termination
  by (relation "measure length") auto

declare unescape.simps(2) [simp del]

text \<open>One step of the loop has written \<open>v\<close> behind the output and moved past \<open>k\<close> characters.\<close>

lemma update_behind_output:
  obtains J where "(out @ junk @ c # rest)[length out := v] = out @ v # J @ rest"
    "length J = length junk"
proof (cases junk)
  case Nil
  then show ?thesis using that [of "[]"] by simp
next
  case (Cons j js)
  then show ?thesis using that [of "js @ [c]"] by simp
qed

definition parse_result :: "u8 list \<Rightarrow> cstring option \<Rightarrow> (u8 list \<times> nat) option option \<Rightarrow> bool" where
  "parse_result out u r \<longleftrightarrow>
     (case u of
        None \<Rightarrow> r = Some None
      | Some s \<Rightarrow> \<exists>buf. r = Some (Some (buf, length out + length s)) \<and>
                    take (length out + length s) buf = out @ s)"

lemma parse_result_Cons:
  "parse_result (out @ [v]) u r \<Longrightarrow> parse_result out (map_option (Cons v) u) r"
  by (auto simp: parse_result_def split: option.splits)

lemma rd_past:
  "length J = length junk \<Longrightarrow> i = length out + length junk + 1 + k \<Longrightarrow>
     rd (out @ v # J @ rest) i = rd rest k"
  by (simp add: rd_def nth_append)

lemma sscanf_past:
  "length J = length junk \<Longrightarrow> i = length out + length junk + 1 + k \<Longrightarrow>
     sscanf_02x (out @ v # J @ rest) i = sscanf_02x rest k"
  by (simp add: sscanf_02x_def rd_past [of J junk _ out k] rd_past [of J junk _ out "Suc k"])

lemma wr_behind: "wr (out @ v # J @ rest) (length out) w = Some (out @ w # J @ rest)"
  by simp

text \<open>One iteration of the parser, on a buffer split into output, skipped bytes and input.\<close>

lemma separator_parse_step:
  assumes c: "c \<noteq> 0" and J: "length J = length junk"
    "(out @ junk @ c # rest)[length out := c] = out @ c # J @ rest"
    and u: "u = length out + length junk" and q: "q = length out"
  shows "separator_parse (out @ junk @ c # rest) u q =
    (let go = (\<lambda>v k. separator_parse (out @ v # J @ rest) (u + k) (length out + 1)) in
     if c \<noteq> 92 then go c 1
     else do {
       e \<leftarrow> rd rest 0;
       if e = 0 then go 0 1
       else if e = 48 then go 0 2
       else if e = 116 then go 9 2
       else if e = 110 then go 10 2
       else if e = 102 then go 12 2
       else if e = 114 then go 13 2
       else if e = 92 then go 92 2
       else if e = 120 then do {
         h1 \<leftarrow> rd rest 1;
         if \<not> isxdigit h1 then Some None
         else do {
           h2 \<leftarrow> rd rest 2;
           if \<not> isxdigit h2 then Some None
           else do { hex \<leftarrow> sscanf_02x rest 2; go (of_nat hex) 4 } } }
       else go 92 2 })"
proof -
  have r0: "rd (out @ junk @ c # rest) u = Some c" by (simp add: rd_def u nth_append)
  have w0: "wr (out @ junk @ c # rest) (length out) c = Some (out @ c # J @ rest)" by (simp add: J(2))
  have rds: "rd (out @ c # J @ rest) (u + 1) = rd rest 0" "rd (out @ c # J @ rest) (u + 2) = rd rest 1"
    "rd (out @ c # J @ rest) (u + 3) = rd rest 2" by (rule rd_past [OF J(1)], simp add: u)+
  have sc: "sscanf_02x (out @ c # J @ rest) (u + 3) = sscanf_02x rest 2"
    by (rule sscanf_past [OF J(1)]) (simp add: u)
  show ?thesis
  proof (cases "c = 92")
    case True
    show ?thesis
      unfolding True
      by (subst separator_parse.simps)
        (simp only: r0 [unfolded True] w0 [unfolded True] rds [unfolded True] sc [unfolded True]
          c [unfolded True] q wr_behind Option.bind.simps Let_def if_False refl not_True_eq_False)
  next
    case False
    then show ?thesis
      by (subst separator_parse.simps)
        (simp only: r0 w0 q Option.bind.simps Let_def c if_False if_True not_False_eq_True)
  qed
qed

text \<open>
  \<open>escape c cs\<close>: the value of the character or escape that begins with \<open>c\<close> and the number of
  characters of \<open>cs\<close> it takes. The reference and the parser both go from one to the next.
\<close>

definition escape :: "u8 \<Rightarrow> cstring \<Rightarrow> (u8 \<times> nat) option" where
  "escape c cs =
     (if c \<noteq> 92 then Some (c, 0)
      else case cs of
        [] \<Rightarrow> Some (0, 0)
      | e # r \<Rightarrow>
          if e = 48 then Some (0, 1)
          else if e = 116 then Some (9, 1)
          else if e = 110 then Some (10, 1)
          else if e = 102 then Some (12, 1)
          else if e = 114 then Some (13, 1)
          else if e = 92 then Some (92, 1)
          else if e = 120 then
            (case r of
               h1 # h2 # r' \<Rightarrow> if isxdigit h1 \<and> isxdigit h2 then Some (hex_escape h2 r', 3) else None
             | _ \<Rightarrow> None)
          else Some (92, 1))"

lemma escape_length: "escape c cs = Some (v, k) \<Longrightarrow> k \<le> length cs"
  by (auto simp: escape_def split: if_splits list.splits)

lemma unescape_escape:
  "unescape (c # cs) =
     (case escape c cs of
        None \<Rightarrow> None
      | Some (v, k) \<Rightarrow> map_option (Cons v) (unescape (drop k cs)))"
  by (auto simp: unescape.simps(2) escape_def split: list.split)

lemma sscanf_escape:
  "sscanf_02x (e # h1 # h2 # r @ [0]) 2 =
     Some (case r of [] \<Rightarrow> hex_val h2 | b # _ \<Rightarrow> if isxdigit b then 16 * hex_val h2 + hex_val b else hex_val h2)"
  by (cases r) (simp_all add: sscanf_02x_def rd_def)

lemma separator_parse_escape:
  assumes c: "c \<noteq> 0" "0 \<notin> set cs" and J: "length J = length junk"
    "(out @ junk @ c # cs @ [0])[length out := c] = out @ c # J @ cs @ [0]"
    and u: "u = length out + length junk"
  shows "separator_parse (out @ junk @ c # cs @ [0]) u (length out) =
    (case escape c cs of
       None \<Rightarrow> Some None
     | Some (v, k) \<Rightarrow> separator_parse (out @ v # J @ cs @ [0]) (u + (k + 1)) (length out + 1))"
proof -
  note step = separator_parse_step [OF c(1) J u refl]
  show ?thesis
  proof (cases "c = 92 \<and> (\<exists>r. cs = 120 # r)")
    case False
    with c(2) show ?thesis
      unfolding step
      by (cases cs) (auto simp: escape_def rd_def Let_def numeral_2_eq_2)
  next
    case True
    then obtain r where r: "cs = 120 # r" "c = 92" by blast
    consider "r = []" | h1 where "r = [h1]" | h1 h2 r' where "r = h1 # h2 # r'" by (metis list.exhaust)
    then show ?thesis
      unfolding step
      by cases (auto simp: escape_def rd_def r Let_def sscanf_escape hex_escape_def add.commute [of u])
  qed
qed

lemma separator_parse_unescape:
  "0 \<notin> set s \<Longrightarrow> u = length out + length junk \<Longrightarrow> q = length out \<Longrightarrow>
     parse_result out (unescape s) (separator_parse (out @ junk @ s @ [0]) u q)"
proof (induction s arbitrary: out junk u q rule: length_induct)
  case (1 s)
  show ?case
  proof (cases s)
    case Nil
    with "1.prems" show ?thesis
      by (simp add: parse_result_def separator_parse.simps [of "out @ junk @ [0]"] rd_def nth_append)
  next
    case s: (Cons c cs)
    obtain J where J: "(out @ junk @ c # cs @ [0])[length out := c] = out @ c # J @ cs @ [0]"
      "length J = length junk" by (rule update_behind_output)
    have nz: "c \<noteq> 0" "0 \<notin> set cs" using "1.prems" s by auto
    note step = separator_parse_escape [OF nz J(2,1) "1.prems"(2)]
    show ?thesis
    proof (cases "escape c cs")
      case None
      then show ?thesis using "1.prems"(3) by (simp add: s step unescape_escape parse_result_def)
    next
      case (Some vk)
      then obtain v k where vk: "escape c cs = Some (v, k)" by (cases vk) simp
      have "parse_result (out @ [v]) (unescape (drop k cs))
          (separator_parse ((out @ [v]) @ (J @ take k cs) @ drop k cs @ [0]) (u + (k + 1)) (length out + 1))"
        using escape_length [OF vk] nz J(2) "1.prems" s
        by (intro "1.IH" [rule_format]) (auto dest: in_set_dropD)
      from parse_result_Cons [OF this] show ?thesis
        using "1.prems"(3) by (simp add: s step vk unescape_escape flip: append_assoc [of "take k cs"])
    qed
  qed
qed

section \<open>Documented configurations\<close>

text \<open>
  The documented form of a separator: plain bytes, the escapes \<open>\r\<close>, \<open>\t\<close>, \<open>\n\<close>, \<open>\0\<close>, \<open>\f\<close>, \<open>\\\<close>, and
  bytes in hexadecimal, \<open>\x<hexbyte>\<close>.
\<close>

datatype separator_item = Plain u8 | Escaped u8 | Hexbyte u8 u8

definition separator_escapes :: "(u8 \<times> u8) list" where
  "separator_escapes = [(114, 13), (116, 9), (110, 10), (48, 0), (102, 12), (92, 92)]"

primrec separator_item_ok :: "separator_item \<Rightarrow> bool" where
  "separator_item_ok (Plain c) \<longleftrightarrow> c \<noteq> 0 \<and> c \<noteq> 92"
| "separator_item_ok (Escaped e) \<longleftrightarrow> e \<in> fst ` set separator_escapes"
| "separator_item_ok (Hexbyte a b) \<longleftrightarrow> isxdigit a \<and> isxdigit b"

primrec separator_item_text :: "separator_item \<Rightarrow> cstring" where
  "separator_item_text (Plain c) = [c]"
| "separator_item_text (Escaped e) = [92, e]"
| "separator_item_text (Hexbyte a b) = [92, 120, a, b]"

definition separator_text :: "separator_item list \<Rightarrow> cstring" where
  "separator_text items = concat (map separator_item_text items)"

lemma separator_text_simps [simp]:
  "separator_text [] = []" "separator_text (i # is) = separator_item_text i @ separator_text is"
  by (simp_all add: separator_text_def)

text \<open>The bytes they stand for: as documented, and as they are read.\<close>

primrec separator_item_byte :: "separator_item \<Rightarrow> u8" where
  "separator_item_byte (Plain c) = c"
| "separator_item_byte (Escaped e) = the (map_of separator_escapes e)"
| "separator_item_byte (Hexbyte a b) = of_nat (16 * hex_val a + hex_val b)"

fun separator_read :: "separator_item list \<Rightarrow> cstring" where
  "separator_read [] = []"
| "separator_read (Hexbyte a b # is) = hex_escape b (separator_text is) # separator_read is"
| "separator_read (i # is) = separator_item_byte i # separator_read is"

lemma separator_read_plain:
  "\<forall>a b. Hexbyte a b \<notin> set items \<Longrightarrow> separator_read items = map separator_item_byte items"
  by (induction items rule: separator_read.induct) auto

lemma separator_text_nul_free:
  assumes "\<forall>i\<in>set items. separator_item_ok i"
  shows "0 \<notin> set (separator_text items)"
proof -
  have "\<not> isxdigit 0" by code_simp
  then have "0 \<notin> set (separator_item_text i)" if "separator_item_ok i" for i
    using that by (cases i) (auto simp: separator_escapes_def)
  with assms show ?thesis by (auto simp: separator_text_def)
qed

lemma unescape_item:
  assumes "separator_item_ok i"
  shows "unescape (separator_item_text i @ r) =
    map_option (Cons (case i of Hexbyte a b \<Rightarrow> hex_escape b r | _ \<Rightarrow> separator_item_byte i)) (unescape r)"
  using assms by (cases i) (auto simp: unescape.simps(2) separator_escapes_def)

lemma unescape_text:
  "\<forall>i\<in>set items. separator_item_ok i \<Longrightarrow> unescape (separator_text items) = Some (separator_read items)"
proof (induction items rule: separator_read.induct)
  case (2 a b items)
  from 2 show ?case using unescape_item [of "Hexbyte a b" "separator_text items"] by simp
qed (simp_all add: unescape_item del: separator_item_text.simps)

text \<open>An escape \<open>\x\<close> without two digits is refused, whatever is in front of it.\<close>

lemma unescape_text_None:
  "\<forall>i\<in>set items. separator_item_ok i \<Longrightarrow> unescape r = None \<Longrightarrow> unescape (separator_text items @ r) = None"
  by (induction items) (simp_all add: unescape_item)

lemma unescape_bad_hex:
  assumes "\<not> (\<exists>a b r'. r = a # b # r' \<and> isxdigit a \<and> isxdigit b)"
  shows "unescape (92 # 120 # r) = None"
  using assms by (auto simp: unescape.simps(2) split: list.split)

section \<open>The search\<close>

text \<open>\<open>first_at sep xs k\<close>: the first occurrence of \<open>sep\<close> in \<open>xs\<close> starts at \<open>k\<close>.\<close>

definition occurs_at :: "cstring \<Rightarrow> cstring \<Rightarrow> nat \<Rightarrow> bool" where
  "occurs_at sep xs k \<longleftrightarrow> k + length sep \<le> length xs \<and> take (length sep) (drop k xs) = sep"

definition first_at :: "cstring \<Rightarrow> cstring \<Rightarrow> nat \<Rightarrow> bool" where
  "first_at sep xs k \<longleftrightarrow> occurs_at sep xs k \<and> (\<forall>j<k. \<not> occurs_at sep xs j)"

lemma separator_search_spec:
  assumes "last_read \<le> len" "len \<le> length d" "sep \<noteq> []"
    and "u \<le> last_read" "\<forall>j<u. \<not> occurs_at sep (take last_read (drop (len - last_read) d)) j"
  shows "(\<exists>k. first_at sep (take last_read (drop (len - last_read) d)) k \<and>
           separator_search d len last_read sep u = Some (int (len - last_read + k + length sep))) \<or>
         ((\<forall>j. \<not> occurs_at sep (take last_read (drop (len - last_read) d)) j) \<and>
           separator_search d len last_read sep u = Some 0)"
  using assms
proof (induction d len last_read sep u rule: separator_search.induct)
  case (1 d len last_read sep u)
  let ?w = "take last_read (drop (len - last_read) d)"
  have w: "length ?w = last_read" using "1.prems" by simp
  show ?case
  proof (cases "u < last_read \<and> length sep \<le> last_read - u")
    case False
    have "\<not> occurs_at sep ?w j" for j
    proof
      assume o: "occurs_at sep ?w j"
      with "1.prems" have "u \<le> j" by (meson not_le)
      moreover have "j + length sep \<le> last_read" using o w by (simp only: occurs_at_def)
      ultimately show False using False "1.prems"(3) by (cases sep) auto
    qed
    moreover have "separator_search d len last_read sep u = Some 0"
      by (subst separator_search.simps) (simp only: False if_False)
    ultimately show ?thesis by blast
  next
    case True
    have cmp: "strncmp_eq d (len - last_read + u) sep = Some (occurs_at sep ?w u)"
    proof -
      have "strncmp_eq d (len - last_read + u) sep =
          Some (take (length sep) (drop (len - last_read + u) d) = sep)"
        by (rule strncmp_eq_in) (use True "1.prems"(1,2) in linarith)
      moreover have "take (length sep) (drop u ?w) = take (length sep) (drop (len - last_read + u) d)"
        using True by (simp add: drop_take min_absorb1 add.commute)
      moreover have "u + length sep \<le> length ?w" using True unfolding w by auto
      ultimately show ?thesis by (simp only: occurs_at_def simp_thms)
    qed
    note unfold = separator_search.simps [of d len last_read sep u]
    show ?thesis
    proof (cases "occurs_at sep ?w u")
      case hit: True
      with "1.prems" have "first_at sep ?w u" by (simp add: first_at_def)
      moreover have "separator_search d len last_read sep u = Some (int (len - last_read + u + length sep))"
        unfolding unfold cmp using True hit by simp
      ultimately show ?thesis by blast
    next
      case miss: False
      have "separator_search d len last_read sep u = separator_search d len last_read sep (Suc u)"
        by (subst unfold, subst cmp) (use True miss in simp)
      moreover have "\<forall>j<Suc u. \<not> occurs_at sep ?w j" using "1.prems"(5) miss less_Suc_eq by auto
      ultimately show ?thesis using "1.IH" [OF True cmp] miss "1.prems" True by simp
    qed
  qed
qed

lemma separator_search_bound:
  assumes "last_read \<le> len" "len \<le> length d" "sep \<noteq> []"
  shows "\<exists>n. separator_search d len last_read sep 0 = Some (int n) \<and> n \<le> len"
proof -
  consider k where "occurs_at sep (take last_read (drop (len - last_read) d)) k"
      "separator_search d len last_read sep 0 = Some (int (len - last_read + k + length sep))"
    | "separator_search d len last_read sep 0 = Some 0"
    using separator_search_spec [OF assms, of 0] by (auto simp: first_at_def)
  then show ?thesis
  proof cases
    case (1 k)
    then have "len - last_read + k + length sep \<le> len"
      using assms by (auto simp: occurs_at_def)
    with 1 show ?thesis by blast
  qed (intro exI [of _ 0], simp)
qed

section \<open>The framing function as a whole\<close>

lemma separator_parse_config:
  assumes "0 \<notin> set c"
  shows "separator_parse (c @ [0]) 0 0 = Some None \<and> unescape c = None \<or>
    (\<exists>buf p s. separator_parse (c @ [0]) 0 0 = Some (Some (buf, p)) \<and> unescape c = Some s \<and> take p buf = s)"
  using separator_parse_unescape [OF assms, of 0 "[]" "[]" 0]
  by (auto simp: parse_result_def split: option.splits)

text \<open>The call with data: parse the configuration once, then search.\<close>

lemma framing_separator_data:
  assumes "0 \<notin> set c" "unescape c = Some s" "fd = FNull \<or> fd = FSeparator s"
  shows "framing_separator (Some d) len last_read opcode (Some fd) (Some c) =
    (if s = [] then Some (int len, opcode, Some (FSeparator s))
     else if len < last_read then None
     else map_option (\<lambda>n. (n, opcode, Some (FSeparator s))) (separator_search d len last_read s 0))"
proof (cases "separator_search d len last_read s 0")
  case None
  with separator_parse_config [OF assms(1)] assms(2,3) show ?thesis
    by (auto simp: framing_separator_def Let_def)
next
  case (Some n)
  with separator_parse_config [OF assms(1)] assms(2,3) show ?thesis
    by (auto simp: framing_separator_def Let_def)
qed

lemma framing_separator_law:
  assumes "0 \<notin> set c" "unescape c = Some s"
  shows "framing_law framing_separator (Some c) (\<lambda>fd. fd = FNull \<or> fd = FSeparator s)"
proof unfold_locales
  fix fd len last_read op and buf :: "u8 list"
  assume fd: "fd = FNull \<or> fd = FSeparator s" and len: "len < length buf" and lr: "last_read \<le> len"
  from framing_separator_data [OF assms fd, of buf len last_read "Some op"] lr len
    separator_search_bound [of last_read len buf s]
  show "\<exists>n op' fd'. framing_separator (Some buf) len last_read (Some op) (Some fd) (Some c) =
      Some (int n, Some op', Some fd') \<and> n \<le> len \<and> (fd' = FNull \<or> fd' = FSeparator s)"
    by (cases "s = []") auto
qed (auto simp: framing_separator_def)

section \<open>\<open>newline\<close>\<close>

text \<open>The newline sequence a configuration string selects.\<close>

definition newline_sequence :: "cstring \<Rightarrow> cstring" where
  "newline_sequence c =
     (if c = bytes ''cr'' then [13]
      else if c = bytes ''lf'' then [10]
      else if c = bytes ''lfcr'' then [10, 13]
      else [13, 10])"

lemma newline_sequence_nonempty [simp]: "newline_sequence c \<noteq> []"
  by (simp add: newline_sequence_def)

lemma unescape_newlines:
  "unescape (bytes [CHR 92, CHR ''r'', CHR 92, CHR ''n'']) = Some [13, 10]"
  "unescape (bytes [CHR 92, CHR ''n'', CHR 92, CHR ''r'']) = Some [10, 13]"
  "unescape (bytes [CHR 92, CHR ''n'']) = Some [10]"
  "unescape (bytes [CHR 92, CHR ''r'']) = Some [13]"
  by code_simp+

lemma framing_newline_data:
  assumes fd: "fd = FNull \<or> fd = FSeparator (newline_sequence c)"
    and len: "len \<le> length d" "last_read \<le> len"
  obtains n where "separator_search d len last_read (newline_sequence c) 0 = Some (int n)" "n \<le> len"
    "framing_newline (Some d) len last_read opcode (Some fd) (Some c) =
       Some (int n, if utf8_like (take n d) then map_option (\<lambda>_. ws_frame_text) opcode else opcode,
             Some (FSeparator (newline_sequence c)))"
proof -
  obtain n where n: "separator_search d len last_read (newline_sequence c) 0 = Some (int n)" "n \<le> len"
    using separator_search_bound [OF len(2,1) newline_sequence_nonempty [of c]] by blast
  obtain e where e: "0 \<notin> set e" "unescape e = Some (newline_sequence c)"
    "framing_newline (Some d) len last_read opcode (Some FNull) (Some c) =
      do { (b, opcode1, framing_data1) \<leftarrow>
             framing_separator (Some d) len last_read opcode (Some FNull) (Some e);
           if b < 0 then Some (int len, opcode1, framing_data1)
           else do { (r, opcode2, _) \<leftarrow> framing_auto (Some d) (nat b) 0 opcode1 None None;
                     Some (r, opcode2, framing_data1) } }"
  proof -
    let ?e = "if c = bytes ''cr'' then bytes [CHR 92, CHR ''r'']
      else if c = bytes ''lf'' then bytes [CHR 92, CHR ''n'']
      else if c = bytes ''lfcr'' then bytes [CHR 92, CHR ''n'', CHR 92, CHR ''r'']
      else bytes [CHR 92, CHR ''r'', CHR 92, CHR ''n'']"
    show ?thesis
    proof (rule that [of ?e])
      show "0 \<notin> set ?e" by (simp add: bytes_def)
      show "unescape ?e = Some (newline_sequence c)"
        by (simp add: newline_sequence_def unescape_newlines)
    qed (auto simp: framing_newline_def Let_def)
  qed
  have auto: "framing_auto (Some d) n 0 op None None =
      Some (int n, if utf8_like (take n d) then map_option (\<lambda>_. ws_frame_text) op else op, None)" for op
    by (rule framing_auto_eq) (use n len in simp)
  have "framing_newline (Some d) len last_read opcode (Some fd) (Some c) =
       Some (int n, if utf8_like (take n d) then map_option (\<lambda>_. ws_frame_text) opcode else opcode,
             Some (FSeparator (newline_sequence c)))"
  proof (cases "fd = FNull")
    case True
    with e(3) framing_separator_data [OF e(1,2), of FNull d len last_read opcode] n len(2) auto
    show ?thesis by simp
  next
    case False
    with fd n len(2) auto show ?thesis
      by (simp add: framing_newline_def framing_separator_def Let_def)
  qed
  with n that show ?thesis by blast
qed

section \<open>The framing laws of the built-in functions\<close>

interpretation auto_framing: framing_law framing_auto cfg "\<lambda>_. True" for cfg
  by unfold_locales (auto simp: framing_auto_eq, simp add: framing_auto_def)

interpretation binary_framing: framing_law framing_binary cfg "\<lambda>_. True" for cfg
  by unfold_locales (auto simp: framing_binary_def)

interpretation newline_framing:
  framing_law framing_newline "Some c" "\<lambda>fd. fd = FNull \<or> fd = FSeparator (newline_sequence c)" for c
proof unfold_locales
  fix fd len last_read op and buf :: "u8 list"
  assume "fd = FNull \<or> fd = FSeparator (newline_sequence c)" "len < length buf" "last_read \<le> len"
  then show "\<exists>n op' fd'. framing_newline (Some buf) len last_read (Some op) (Some fd) (Some c) =
      Some (int n, Some op', Some fd') \<and> n \<le> len \<and>
      (fd' = FNull \<or> fd' = FSeparator (newline_sequence c))"
    by (elim framing_newline_data [of fd c len buf last_read "Some op", OF _ less_imp_le]) auto
qed (auto simp: framing_newline_def framing_separator_def framing_auto_def Let_def)

end
