(* ===== verification/Frame.thy ===== *)
theory Frame
  imports Framing
begin

text \<open>
  WebSocket framing and shutdown, from \<open>websocket.c\<close>: \<open>ws_send_frame\<close>, \<open>ws_close\<close> and
  \<open>ws_frame\<close>.
\<close>

section \<open>Sending a frame\<close>

definition WS_FLAG_FIN :: u8 where
  "WS_FLAG_FIN = 0x80"

text \<open>The bytes of \<open>frame_header\<close> that are sent.\<close>

definition ws_frame_header :: "ws_operation \<Rightarrow> nat \<Rightarrow> u8 list" where
  "ws_frame_header opcode len =
     (let h0 = WS_FLAG_FIN OR of_nat (op_code opcode) in
      if len \<le> 125 then [h0, of_nat len]
      else if len \<le> 0xFFFF then [h0, 126] @ be_bytes 2 len
      else [h0, 127] @ be_bytes 8 len)"

definition ws_send_frame ::
  "env \<Rightarrow> websocket \<Rightarrow> ws_operation \<Rightarrow> u8 list \<Rightarrow> trace \<Rightarrow> (int \<times> trace) option" where
  "ws_send_frame E ws opcode data tr =
     do { (r, tr1) \<leftarrow> network_send E (ws_fd ws) (ws_frame_header opcode (length data)) tr;
          if r \<noteq> 0 then Some (1, tr1)
          else do { (r, tr2) \<leftarrow> network_send E (ws_fd ws) data tr1;
                    if r \<noteq> 0 then Some (1, tr2) else Some (0, tr2) } }"

section \<open>Closing a connection\<close>

text \<open>The parting words: a close frame on an open connection, a status line during the handshake.\<close>

definition ws_close_notify ::
  "env \<Rightarrow> websocket \<Rightarrow> ws_close_reason \<Rightarrow> cstring option \<Rightarrow> trace \<Rightarrow> trace option" where
  "ws_close_notify E ws code reason tr =
     (case reason of
        None \<Rightarrow> Some tr
      | Some msg \<Rightarrow>
          if state ws = ws_open
          then do { (_, tr1) \<leftarrow> ws_send_frame E ws ws_frame_close msg tr; Some tr1 }
          else if state ws = ws_http \<and> code = ws_close_http
          then do { (_, tr1) \<leftarrow> network_send_str E (ws_fd ws) (bytes ''HTTP/1.1 '') tr;
                    (_, tr2) \<leftarrow> network_send_str E (ws_fd ws) msg tr1;
                    (_, tr3) \<leftarrow> network_send_str E (ws_fd ws) [13, 10, 13, 10] tr2;
                    Some tr3 }
          else Some tr)"

text \<open>Closing the peer descriptor and releasing the framing data; the remaining framing data.\<close>

definition ws_close_peer :: "env \<Rightarrow> websocket \<Rightarrow> trace \<Rightarrow> (framing_data \<times> trace) option" where
  "ws_close_peer E ws tr =
     (if peer_fd ws \<ge> 0
      then let (_, tr1) = do_sys E (SysClose (peer_fd ws)) tr in
           if peer_framing_data ws \<noteq> FNull
           then do { f \<leftarrow> framing (peer ws);
                     _ \<leftarrow> f None 0 0 None (Some (peer_framing_data ws)) (framing_config (peer ws));
                     Some (FNull, tr1) }
           else Some (FNull, tr1)
      else Some (peer_framing_data ws, tr))"

definition ws_close ::
  "env \<Rightarrow> websocket \<Rightarrow> ws_close_reason \<Rightarrow> cstring option \<Rightarrow> trace \<Rightarrow> (int \<times> websocket \<times> trace) option" where
  "ws_close E ws code reason tr =
     do { tr1 \<leftarrow> ws_close_notify E ws code reason tr;
          let tr2 = (if ws_fd ws \<ge> 0 then snd (do_sys E (SysClose (ws_fd ws)) tr1) else tr1);
          (fdata, tr3) \<leftarrow> ws_close_peer E ws tr2;
          Some (0,
            ws\<lparr>state := ws_closed,
               ws_fd := (if ws_fd ws \<ge> 0 then -1 else ws_fd ws),
               peer_fd := (if peer_fd ws \<ge> 0 then -1 else peer_fd ws),
               peer_framing_data := fdata,
               header := [],
               protocol := [],
               read_buffer_offset := 0,
               peer_buffer_offset := 0,
               request_path := None,
               socket_key := None,
               websocket_version := 0,
               want_upgrade := 0,
               peer := empty_peer\<rparr>,
            tr3) }"

section \<open>Receiving a frame\<close>

definition WS_GET_OP :: "u8 \<Rightarrow> u8" where
  "WS_GET_OP a = a AND 0x0F"

definition WS_GET_MASK :: "u8 \<Rightarrow> u8" where
  "WS_GET_MASK a = drop_bit 7 (a AND 0x80)"

definition WS_GET_LEN :: "u8 \<Rightarrow> u8" where
  "WS_GET_LEN a = a AND 0x7F"

text \<open>
  Where the masking key and the payload start and how long the payload is; \<open>Some None\<close> is
  "not enough bytes yet", the early \<open>return 0\<close>.
\<close>

definition ws_frame_layout :: "u8 list \<Rightarrow> nat \<Rightarrow> (nat option \<times> nat \<times> u64) option option" where
  "ws_frame_layout buf off =
     do { b1 \<leftarrow> rd buf 1;
          let masked = (WS_GET_MASK b1 \<noteq> 0);
          if masked \<and> off < 6 then Some None
          else if WS_GET_LEN b1 = 126 then
            (if off < 4 then Some None
             else do { l0 \<leftarrow> rd buf 2; l1 \<leftarrow> rd buf 3;
                       if masked
                       then if off < 8 then Some None
                            else Some (Some (Some 4, 8, of_nat (of_be [l0, l1])))
                       else Some (Some (None, 4, of_nat (of_be [l0, l1]))) })
          else if WS_GET_LEN b1 = 127 then
            (if off < 10 then Some None
             else do { l0 \<leftarrow> rd buf 2; l1 \<leftarrow> rd buf 3; l2 \<leftarrow> rd buf 4; l3 \<leftarrow> rd buf 5;
                       l4 \<leftarrow> rd buf 6; l5 \<leftarrow> rd buf 7; l6 \<leftarrow> rd buf 8; l7 \<leftarrow> rd buf 9;
                       if masked
                       then if off < 14 then Some None
                            else Some (Some (Some 10, 14, of_nat (of_be [l0, l1, l2, l3, l4, l5, l6, l7])))
                       else Some (Some (None, 10, of_nat (of_be [l0, l1, l2, l3, l4, l5, l6, l7]))) })
          else Some (Some (if masked then Some 2 else None, if masked then 6 else 2,
                           ucast (WS_GET_LEN b1))) }"

text \<open>The unmasking loop, in place; \<open>n\<close> is \<open>payload_length\<close>.\<close>

function ws_unmask :: "u8 list \<Rightarrow> nat \<Rightarrow> nat \<Rightarrow> nat \<Rightarrow> nat \<Rightarrow> u8 list option" where
  "ws_unmask buf pay key n u =
     (if u < n
      then do { p \<leftarrow> rd buf (pay + u);
                k \<leftarrow> rd buf (key + u mod 4);
                buf' \<leftarrow> wr buf (pay + u) (p XOR k);
                ws_unmask buf' pay key n (Suc u) }
      else Some buf)"
  by pat_completeness auto
termination
  by (relation "measure (\<lambda>(buf, pay, key, n, u). n - u)") auto

declare ws_unmask.simps [simp del]

text \<open>The dispatch on the opcode; \<open>payload\<close> is the unmasked payload.\<close>

definition ws_frame_dispatch ::
  "env \<Rightarrow> websocket \<Rightarrow> u8 \<Rightarrow> u8 list \<Rightarrow> trace \<Rightarrow> (websocket \<times> trace) option" where
  "ws_frame_dispatch E ws opcode payload tr =
     (if opcode = 1 \<or> opcode = 2 then
        (if peer_fd ws \<ge> 0
         then do { (r, tr1) \<leftarrow> network_send E (peer_fd ws) payload tr;
                   if r \<noteq> 0
                   then do { (_, ws1, tr2) \<leftarrow>
                               ws_close E ws ws_close_unexpected (Some (bytes ''Failed to forward'')) tr1;
                             Some (ws1, tr2) }
                   else Some (ws, tr1) }
         else Some (ws, tr))
      else if opcode = 8 then
        do { (_, ws1, tr1) \<leftarrow>
               ws_close E ws ws_close_normal (Some (bytes ''Client requested termination'')) tr;
             Some (ws1, tr1) }
      else if opcode = 9 then
        do { (r, tr1) \<leftarrow> ws_send_frame E ws ws_frame_pong payload tr;
             if r \<noteq> 0
             then do { (_, ws1, tr2) \<leftarrow>
                         ws_close E ws ws_close_unexpected (Some (bytes ''Failed to send pong'')) tr1;
                       Some (ws1, tr2) }
             else Some (ws, tr1) }
      else if opcode = 10 then Some (ws, tr)
      else
        do { (_, ws1, tr1) \<leftarrow> ws_close E ws ws_close_proto (Some (bytes ''Invalid opcode'')) tr;
             Some (ws1, tr1) })"

text \<open>
  \<open>ws_frame\<close>: the number of bytes handled. The completeness check and the result are 64-bit
  unsigned sums, which wrap.
\<close>

definition ws_frame :: "env \<Rightarrow> websocket \<Rightarrow> trace \<Rightarrow> (nat \<times> websocket \<times> trace) option" where
  "ws_frame E ws tr =
     (let buf = read_buffer ws; off = read_buffer_offset ws in
      if off < 2 then Some (0, ws, tr)
      else do {
        layout \<leftarrow> ws_frame_layout buf off;
        case layout of
          None \<Rightarrow> Some (0, ws, tr)
        | Some (key, pay, plen) \<Rightarrow>
            if (of_nat off :: u64) < of_nat pay + plen then Some (0, ws, tr)
            else
              (case key of
                 None \<Rightarrow>
                   do { (_, ws1, tr1) \<leftarrow>
                          ws_close E ws ws_close_proto (Some (bytes ''Unmasked client frame'')) tr;
                        Some (0, ws1, tr1) }
               | Some k \<Rightarrow>
                   do { buf1 \<leftarrow> ws_unmask buf pay k (unat plen) 0;
                        b0 \<leftarrow> rd buf1 0;
                        (ws1, tr1) \<leftarrow>
                          ws_frame_dispatch E (ws\<lparr>read_buffer := buf1\<rparr>) (WS_GET_OP b0)
                            (take (unat plen) (drop pay buf1)) tr;
                        Some (unat (of_nat pay + plen), ws1, tr1) }) })"

end
