(* ===== verification/Frame_Close.thy ===== *)
theory Frame_Close
  imports Frame
begin

text \<open>
  Facts about sending frames and closing connections that every handler rests on.
\<close>

section \<open>Sending\<close>

text \<open>The bytes of a frame on the wire.\<close>

definition frame_bytes :: "ws_operation \<Rightarrow> u8 list \<Rightarrow> u8 list" where
  "frame_bytes opcode data = ws_frame_header opcode (length data) @ data"

lemma ws_frame_header_nonempty [simp]: "ws_frame_header opcode len \<noteq> []"
  by (simp add: ws_frame_header_def Let_def)

lemma runs_ws_send_frame [runs_rules]:
  assumes "posix_send E"
    and "\<And>ext. only_sends (ws_fd ws) ext \<Longrightarrow> sent_on (ws_fd ws) ext = frame_bytes opcode data \<Longrightarrow>
      0 \<le> ws_fd ws \<Longrightarrow> Q (0, tr @ ext)"
    and "\<And>ext. only_sends (ws_fd ws) ext \<Longrightarrow>
      strict_prefix (sent_on (ws_fd ws) ext) (frame_bytes opcode data) \<Longrightarrow>
      send_fails E (ws_fd ws) \<Longrightarrow> Q (1, tr @ ext)"
  shows "runs (ws_send_frame E ws opcode data tr) Q"
  unfolding ws_send_frame_def runs_bind
proof (rule runs_network_send [OF assms(1)], goal_cases)
  case (1 ext)
  note first = 1
  show ?case
    unfolding prod.case if_not_P [OF not_not [THEN iffD2, OF refl]] runs_bind
  proof (rule runs_network_send [OF assms(1)], goal_cases)
    case (1 ext')
    with first assms(2) [of "ext @ ext'"] show ?case by (simp add: frame_bytes_def)
  next
    case (2 ext')
    with first assms(3) [of "ext @ ext'"] show ?case by (simp add: frame_bytes_def)
  qed
next
  case (2 ext)
  then have "strict_prefix (sent_on (ws_fd ws) ext) (frame_bytes opcode data)"
    by (auto simp: frame_bytes_def strict_prefix_def)
  with 2 assms(3) show ?case by simp
qed

section \<open>Closing\<close>

text \<open>What closing needs of the framing function: its clean-up call returns.\<close>

definition framing_releasable :: "websocket \<Rightarrow> bool" where
  "framing_releasable ws \<longleftrightarrow>
     (0 \<le> peer_fd ws \<longrightarrow> peer_framing_data ws \<noteq> FNull \<longrightarrow>
       (\<exists>f. framing (peer ws) = Some f \<and>
         f None 0 0 None (Some (peer_framing_data ws)) (framing_config (peer ws)) \<noteq> None))"

text \<open>The connection \<open>ws_close\<close> leaves behind.\<close>

definition ws_reset :: "websocket \<Rightarrow> websocket" where
  "ws_reset ws =
     ws\<lparr>state := ws_closed,
        ws_fd := (if ws_fd ws \<ge> 0 then -1 else ws_fd ws),
        peer_fd := (if peer_fd ws \<ge> 0 then -1 else peer_fd ws),
        peer_framing_data := (if peer_fd ws \<ge> 0 then FNull else peer_framing_data ws),
        header := [], protocol := [],
        read_buffer_offset := 0, peer_buffer_offset := 0,
        request_path := None, socket_key := None,
        websocket_version := 0, want_upgrade := 0, peer := empty_peer\<rparr>"

definition fd_list :: "int \<Rightarrow> int list" where
  "fd_list fd = (if 0 \<le> fd then [fd] else [])"

lemma runs_ws_close_notify:
  assumes "posix_send E" "\<And>ext. only_sends (ws_fd ws) ext \<Longrightarrow> Q (tr @ ext)"
  shows "runs (ws_close_notify E ws code reason tr) Q"
proof -
  have "Q tr" using assms(2) [of "[]"] by simp
  then show ?thesis
    by (cases reason)
      (auto simp: ws_close_notify_def assms intro!: runs_rules)
qed

text \<open>
  What closing does to the outside world: each descriptor the connection holds is closed once,
  the client's first, and nothing is exchanged with anyone but the client.
\<close>

definition close_trace :: "websocket \<Rightarrow> trace \<Rightarrow> bool" where
  "close_trace ws ext \<longleftrightarrow>
     closed_in ext = fd_list (ws_fd ws) @ fd_list (peer_fd ws) \<and> opened_in ext = [] \<and>
     (\<forall>fd. fd \<noteq> ws_fd ws \<longrightarrow> untouched fd ext)"

lemma runs_ws_close_peer:
  assumes "framing_releasable ws"
    and "\<And>ext. closed_in ext = fd_list (peer_fd ws) \<Longrightarrow> opened_in ext = [] \<Longrightarrow> quiet ext \<Longrightarrow>
      Q (if peer_fd ws \<ge> 0 then FNull else peer_framing_data ws, tr @ ext)"
  shows "runs (ws_close_peer E ws tr) Q"
proof (cases "0 \<le> peer_fd ws")
  case True
  let ?ext = "[(SysClose (peer_fd ws), sys E tr (SysClose (peer_fd ws)))]"
  have Q: "Q (FNull, tr @ ?ext)"
    using assms(2) [of ?ext] True by (simp add: fd_list_def quiet_def)
  with True assms(1) show ?thesis
    by (auto simp: ws_close_peer_def do_sys_def framing_releasable_def)
next
  case False
  with assms(2) [of "[]"] show ?thesis
    by (simp add: ws_close_peer_def fd_list_def quiet_def)
qed

lemma runs_ws_close [runs_rules]:
  assumes "posix_send E" "framing_releasable ws"
    and Q: "\<And>ext. close_trace ws ext \<Longrightarrow> Q (0, ws_reset ws, tr @ ext)"
  shows "runs (ws_close E ws code reason tr) Q"
  unfolding ws_close_def runs_bind
proof (rule runs_ws_close_notify [OF assms(1)], goal_cases)
  case (1 ext1)
  define ext2 where "ext2 =
    (if 0 \<le> ws_fd ws then [(SysClose (ws_fd ws), sys E (tr @ ext1) (SysClose (ws_fd ws)))] else [])"
  have ext2: "(if ws_fd ws \<ge> 0 then snd (do_sys E (SysClose (ws_fd ws)) (tr @ ext1)) else tr @ ext1) =
      tr @ ext1 @ ext2" "closed_in ext2 = fd_list (ws_fd ws)" "opened_in ext2 = []" "quiet ext2"
    by (simp_all add: ext2_def do_sys_def fd_list_def quiet_def)
  show ?case
    unfolding Let_def ext2(1) runs_bind
  proof (rule runs_ws_close_peer [OF assms(2)], goal_cases)
    case (1 ext3)
    have "close_trace ws (ext1 @ ext2 @ ext3)"
      using 1 ext2 \<open>only_sends (ws_fd ws) ext1\<close>
      by (auto simp: close_trace_def quiet_def only_sends_closed only_sends_opened only_sends_untouched)
    from Q [OF this] show ?case by (simp add: ws_reset_def)
  qed
qed

lemma ws_close_obtain:
  assumes "posix_send E" "framing_releasable ws"
  obtains ext where "ws_close E ws code reason tr = Some (0, ws_reset ws, tr @ ext)" "close_trace ws ext"
proof -
  have "runs (ws_close E ws code reason tr)
      (\<lambda>x. \<exists>ext. x = (0, ws_reset ws, tr @ ext) \<and> close_trace ws ext)"
    by (rule runs_ws_close [OF assms]) blast
  then show ?thesis using that by (auto simp: runs_def)
qed

end
