(* ===== verification/Frame_Decode.thy ===== *)
theory Frame_Decode
  imports Frame_Close
begin

text \<open>
  \<open>ws_frame\<close> against the frame format of RFC 6455, section 5.2: a reference encoder for client
  frames, the decoding of what it produces, and the safety of decoding arbitrary bytes.
\<close>

section \<open>Bits of the header bytes\<close>

lemma and_127: "w < 128 \<Longrightarrow> w AND 127 = w" for w :: u8
proof -
  assume "w < 128"
  then have "unat w < 128" by (simp add: word_less_nat_alt)
  then have "take_bit 7 w = w"
    by (simp add: word_unat_eq_iff unsigned_take_bit_eq take_bit_nat_def)
  then show ?thesis by (simp add: take_bit_eq_mask mask_eq_exp_minus_1)
qed

lemma and_15: "w < 16 \<Longrightarrow> w AND 15 = w" for w :: u8
proof -
  assume "w < 16"
  then have "unat w < 16" by (simp add: word_less_nat_alt)
  then have "take_bit 4 w = w"
    by (simp add: word_unat_eq_iff unsigned_take_bit_eq take_bit_nat_def)
  then show ?thesis by (simp add: take_bit_eq_mask mask_eq_exp_minus_1)
qed

lemma WS_GET_LEN_masked: "w < 128 \<Longrightarrow> WS_GET_LEN (0x80 OR w) = w"
  by (simp add: WS_GET_LEN_def bit.conj_disj_distrib2 and_127)

lemma WS_GET_LEN_plain: "w < 128 \<Longrightarrow> WS_GET_LEN w = w"
  by (simp add: WS_GET_LEN_def and_127)

lemma and_128: "w < 128 \<Longrightarrow> w AND 128 = 0" for w :: u8
proof -
  assume "w < 128"
  then have "w AND 128 = (w AND 127) AND 128" by (simp add: and_127)
  also have "\<dots> = 0" by (simp add: and.assoc)
  finally show ?thesis .
qed

lemma WS_GET_MASK_masked: "w < 128 \<Longrightarrow> WS_GET_MASK (0x80 OR w) = 1"
  by (simp add: WS_GET_MASK_def bit.conj_disj_distrib2 and_128)

lemma WS_GET_MASK_plain: "w < 128 \<Longrightarrow> WS_GET_MASK w = 0"
  by (simp add: WS_GET_MASK_def and_128)

lemma WS_GET_OP_fin: "w < 16 \<Longrightarrow> WS_GET_OP (WS_FLAG_FIN OR w) = w"
  by (simp add: WS_GET_OP_def WS_FLAG_FIN_def bit.conj_disj_distrib2 and_15)

lemma header_consts:
  "WS_GET_LEN 254 = 126" "WS_GET_MASK 254 = 1" "WS_GET_LEN 255 = 127" "WS_GET_MASK 255 = 1"
  using WS_GET_LEN_masked [of 126] WS_GET_MASK_masked [of 126]
    WS_GET_LEN_masked [of 127] WS_GET_MASK_masked [of 127] by simp_all

section \<open>Unmasking\<close>

definition mask_bytes :: "u8 list \<Rightarrow> u8 list \<Rightarrow> u8 list" where
  "mask_bytes key bs = map (\<lambda>i. bs ! i XOR key ! (i mod 4)) [0..<length bs]"

lemma length_mask_bytes [simp]: "length (mask_bytes key bs) = length bs"
  by (simp add: mask_bytes_def)

lemma mask_bytes_involution: "mask_bytes key (mask_bytes key bs) = bs"
  by (rule nth_equalityI) (simp_all add: mask_bytes_def xor.assoc)

lemma ws_unmask_loop:
  assumes "key + 4 \<le> pay" "pay + n \<le> length buf" "u \<le> n"
  shows "\<exists>buf'. ws_unmask buf pay key n u = Some buf' \<and> length buf' = length buf \<and>
    (\<forall>j<length buf. buf' ! j =
       (if pay + u \<le> j \<and> j < pay + n then buf ! j XOR buf ! (key + (j - pay) mod 4) else buf ! j))"
  using assms
proof (induction buf pay key n u rule: ws_unmask.induct)
  case (1 buf pay key n u)
  show ?case
  proof (cases "u < n")
    case False
    with "1.prems" show ?thesis by (auto simp: ws_unmask.simps [of buf])
  next
    case True
    let ?v = "buf ! (pay + u) XOR buf ! (key + u mod 4)"
    let ?b = "buf[pay + u := ?v]"
    have in1: "pay + u < length buf" and in2: "key + u mod 4 < pay + u"
      using "1.prems" True mod_less_divisor [of 4 u] by linarith+
    have step: "ws_unmask buf pay key n u = ws_unmask ?b pay key n (Suc u)"
      using True in1 in2 by (simp add: ws_unmask.simps [of buf pay key n u])
    obtain buf' where IH: "ws_unmask ?b pay key n (Suc u) = Some buf'" "length buf' = length ?b"
      "\<forall>j<length ?b. buf' ! j =
         (if pay + Suc u \<le> j \<and> j < pay + n then ?b ! j XOR ?b ! (key + (j - pay) mod 4) else ?b ! j)"
      using "1.IH" [of "buf ! (pay + u)" "buf ! (key + u mod 4)" ?b] True in1 in2 "1.prems" by auto
    have keyb: "?b ! (key + (j - pay) mod 4) = buf ! (key + (j - pay) mod 4)" for j
    proof -
      have "key + (j - pay) mod 4 \<noteq> pay + u"
        using "1.prems"(1) mod_less_divisor [of 4 "j - pay"] by linarith
      then show ?thesis by simp
    qed
    have "\<forall>j<length buf. buf' ! j =
       (if pay + u \<le> j \<and> j < pay + n then buf ! j XOR buf ! (key + (j - pay) mod 4) else buf ! j)"
    proof (intro allI impI)
      fix j assume j: "j < length buf"
      show "buf' ! j =
        (if pay + u \<le> j \<and> j < pay + n then buf ! j XOR buf ! (key + (j - pay) mod 4) else buf ! j)"
        using IH(3) [unfolded keyb] j True by (cases "j = pay + u") auto
    qed
    with step IH(1,2) show ?thesis by simp
  qed
qed

lemma ws_unmask_spec:
  assumes "key + 4 \<le> pay" "pay + n \<le> length buf"
  shows "ws_unmask buf pay key n 0 =
    Some (take pay buf @ mask_bytes (take 4 (drop key buf)) (take n (drop pay buf)) @ drop (pay + n) buf)"
proof -
  obtain buf' where b: "ws_unmask buf pay key n 0 = Some buf'" "length buf' = length buf"
    "\<forall>j<length buf. buf' ! j =
       (if pay \<le> j \<and> j < pay + n then buf ! j XOR buf ! (key + (j - pay) mod 4) else buf ! j)"
    using ws_unmask_loop [OF assms, of 0] by auto
  have "buf' = take pay buf @ mask_bytes (take 4 (drop key buf)) (take n (drop pay buf)) @ drop (pay + n) buf"
    (is "_ = ?r")
  proof (rule nth_equalityI)
    show "length buf' = length ?r" using assms b(2) by simp
  next
    fix j assume "j < length buf'"
    then have j: "j < length buf" by (simp add: b(2))
    have "key + 4 \<le> length buf" using assms by simp
    then have k: "take 4 (drop key buf) ! (i mod 4) = buf ! (key + i mod 4)" for i
      by simp
    show "buf' ! j = ?r ! j"
      using b(3) [rule_format, OF j] j assms
      by (auto simp: nth_append mask_bytes_def k)
  qed
  with b(1) show ?thesis by simp
qed

text \<open>The loop writes past the buffer as soon as the payload length says so.\<close>

lemma ws_unmask_overrun:
  assumes "key + 4 \<le> pay" "length buf < pay + n" "pay + u \<le> length buf"
  shows "ws_unmask buf pay key n u = None"
  using assms
proof (induction buf pay key n u rule: ws_unmask.induct)
  case (1 buf pay key n u)
  from "1.prems" have "u < n" by linarith
  show ?case
  proof (cases "pay + u < length buf")
    case True
    have in2: "key + u mod 4 < pay + u"
      using "1.prems" mod_less_divisor [of 4 u] by linarith
    have "ws_unmask (buf[pay + u := buf ! (pay + u) XOR buf ! (key + u mod 4)]) pay key n (Suc u) = None"
      using True in2 "1.prems" \<open>u < n\<close>
        "1.IH" [of "buf ! (pay + u)" "buf ! (key + u mod 4)"] by auto
    with True in2 \<open>u < n\<close> show ?thesis by (simp add: ws_unmask.simps [of buf pay key n u])
  next
    case False
    with \<open>u < n\<close> show ?thesis by (simp add: ws_unmask.simps [of buf pay key n u])
  qed
qed

section \<open>The layout of arbitrary bytes\<close>

text \<open>
  A layout is computed from at most the first ten bytes; a complete header lies inside the
  received bytes, and the key is the four bytes in front of the payload.
\<close>

lemma ws_frame_layout_total:
  assumes "2 \<le> off" "off \<le> length buf"
  obtains (more) "ws_frame_layout buf off = Some None"
  | (layout) key pay plen where "ws_frame_layout buf off = Some (Some (key, pay, plen))"
      "2 \<le> pay" "pay \<le> off" "pay \<le> 14" "\<And>k. key = Some k \<Longrightarrow> k + 4 = pay \<and> 2 \<le> k"
      "key = None \<longleftrightarrow> WS_GET_MASK (buf ! 1) = 0"
proof -
  have r1: "rd buf 1 = Some (buf ! 1)" using assms by simp
  show ?thesis
  proof (cases "WS_GET_LEN (buf ! 1) = 126")
    case True
    then show ?thesis
      using assms more
        layout [of "if WS_GET_MASK (buf ! 1) = 0 then None else Some 4"
          "if WS_GET_MASK (buf ! 1) = 0 then 4 else 8" "of_nat (of_be [buf ! 2, buf ! 3])"]
      by (fastforce simp: ws_frame_layout_def r1 Let_def split: if_splits)
  next
    case n126: False
    show ?thesis
    proof (cases "WS_GET_LEN (buf ! 1) = 127")
      case True
      then show ?thesis
        using assms more
          layout [of "if WS_GET_MASK (buf ! 1) = 0 then None else Some 10"
            "if WS_GET_MASK (buf ! 1) = 0 then 10 else 14"
            "of_nat (of_be [buf ! 2, buf ! 3, buf ! 4, buf ! 5, buf ! 6, buf ! 7, buf ! 8, buf ! 9])"]
        by (fastforce simp: ws_frame_layout_def r1 Let_def split: if_splits)
    next
      case False
      with n126 show ?thesis
        using assms more
          layout [of "if WS_GET_MASK (buf ! 1) = 0 then None else Some 2"
            "if WS_GET_MASK (buf ! 1) = 0 then 2 else 6" "ucast (WS_GET_LEN (buf ! 1))"]
        by (fastforce simp: ws_frame_layout_def r1 Let_def split: if_splits)
    qed
  qed
qed

text \<open>The 64-bit sum of the completeness check, when it does not wrap.\<close>

lemma unat_of_nat_u64: "n < 2 ^ 64 \<Longrightarrow> unat (of_nat n :: u64) = n"
  by (simp add: unsigned_of_nat take_bit_nat_eq_self)

lemma frame_sum_unat:
  "pay + unat plen < 2 ^ 64 \<Longrightarrow> unat (of_nat pay + plen :: u64) = pay + unat plen"
  using unat_of_nat_u64 [of pay] by (simp add: unat_word_ariths)

lemma frame_complete_iff:
  assumes "pay + unat plen < 2 ^ 64" "off < 2 ^ 64"
  shows "(of_nat off :: u64) < of_nat pay + plen \<longleftrightarrow> off < pay + unat plen"
  using frame_sum_unat [OF assms(1)] unat_of_nat_u64 [OF assms(2)]
  by (simp add: word_less_nat_alt)

section \<open>A reference client\<close>

text \<open>
  The frame a client sends: header with the length in 7, 16 or 64 bits and the mask bit set,
  masking key, masked payload.
\<close>

definition client_frame :: "u8 \<Rightarrow> u8 list \<Rightarrow> u8 list \<Rightarrow> u8 list" where
  "client_frame opcode key payload =
     (let n = length payload; b0 = WS_FLAG_FIN OR opcode in
      (if n \<le> 125 then [b0, 0x80 OR of_nat n]
       else if n \<le> 0xFFFF then [b0, 0x80 OR 126] @ be_bytes 2 n
       else [b0, 0x80 OR 127] @ be_bytes 8 n) @ key @ mask_bytes key payload)"

definition client_header_len :: "nat \<Rightarrow> nat" where
  "client_header_len n = (if n \<le> 125 then 2 else if n \<le> 0xFFFF then 4 else 10)"

lemma length_client_frame:
  "length (client_frame opcode key payload) =
     client_header_len (length payload) + length key + length payload"
  by (simp add: client_frame_def client_header_len_def Let_def)

lemma of_nat_u8_less: "n \<le> 125 \<Longrightarrow> (of_nat n :: u8) < 128 \<and> (of_nat n :: u8) \<noteq> 126 \<and> (of_nat n :: u8) \<noteq> 127"
  by (auto simp: word_less_nat_alt word_unat_eq_iff unsigned_of_nat take_bit_nat_def)

lemma ucast_of_nat_u8: "n \<le> 125 \<Longrightarrow> (ucast (of_nat n :: u8) :: u64) = of_nat n"
  by (simp add: word_unat_eq_iff unsigned_ucast_eq unsigned_of_nat take_bit_nat_def)

lemma length_2_obtain: "length xs = 2 \<Longrightarrow> \<exists>a b. xs = [a, b]"
  by (auto simp: numeral_2_eq_2 length_Suc_conv)

lemma length_8_obtain: "length xs = 8 \<Longrightarrow> \<exists>a b c d e f g h. xs = [a, b, c, d, e, f, g, h]"
  by (auto simp: eval_nat_numeral length_Suc_conv)

lemma ws_frame_layout_client:
  assumes key: "length key = 4" and n: "n = length payload" "n < 2 ^ 64"
    and buf: "buf = client_frame opcode key payload @ rest"
    and off: "client_header_len n + 4 \<le> off"
  shows "ws_frame_layout buf off =
    Some (Some (Some (client_header_len n), client_header_len n + 4, of_nat n))"
proof -
  consider (short) "n \<le> 125" | (mid) "125 < n" "n \<le> 0xFFFF" | (long) "0xFFFF < n" by linarith
  then show ?thesis
  proof cases
    case short
    have "buf ! 1 = 0x80 OR of_nat n" "1 < length buf"
      using short by (simp_all add: buf client_frame_def Let_def n(1) nth_append)
    with short off of_nat_u8_less [OF short] show ?thesis
      by (simp add: ws_frame_layout_def client_header_len_def Let_def WS_GET_LEN_masked
          WS_GET_MASK_masked ucast_of_nat_u8)
  next
    case mid
    obtain a b where ab: "be_bytes 2 n = [a, b]" using length_2_obtain length_be_bytes by blast
    have "of_be [a, b] = n"
      using of_be_be_bytes [of 2 n] mid unfolding ab by simp
    moreover have "buf = [WS_FLAG_FIN OR opcode, 0x80 OR 126, a, b] @ key @ mask_bytes key payload @ rest"
      using mid n ab by (simp add: buf client_frame_def Let_def)
    ultimately show ?thesis using mid off
      by (simp add: ws_frame_layout_def client_header_len_def Let_def header_consts rd_def)
  next
    case long
    obtain a b c d e f g h where ab: "be_bytes 8 n = [a, b, c, d, e, f, g, h]"
      using length_8_obtain length_be_bytes by blast
    have "of_be [a, b, c, d, e, f, g, h] = n"
      using of_be_be_bytes [of 8 n] n(2) unfolding ab by simp
    moreover have "buf = [WS_FLAG_FIN OR opcode, 0x80 OR 127, a, b, c, d, e, f, g, h] @
        key @ mask_bytes key payload @ rest"
      using long n ab by (simp add: buf client_frame_def Let_def)
    ultimately show ?thesis using long off
      by (simp add: ws_frame_layout_def client_header_len_def Let_def header_consts rd_def)
  qed
qed

section \<open>Decoding what a client sent\<close>

lemma ws_frame_client_frame:
  assumes key: "length key = 4" and op: "opcode < 16"
    and buf: "read_buffer ws = client_frame opcode key payload @ rest"
    and off: "length (client_frame opcode key payload) \<le> read_buffer_offset ws"
      "read_buffer_offset ws < 2 ^ 64"
  obtains hdr where "length hdr = length (client_frame opcode key payload) - length payload"
    "ws_frame E ws tr =
       do { (ws1, tr1) \<leftarrow> ws_frame_dispatch E (ws\<lparr>read_buffer := hdr @ payload @ rest\<rparr>) opcode payload tr;
            Some (length (client_frame opcode key payload), ws1, tr1) }"
proof -
  let ?n = "length payload" and ?off = "read_buffer_offset ws"
  let ?k = "client_header_len ?n"
  let ?buf = "read_buffer ws"
  have len: "length (client_frame opcode key payload) = ?k + 4 + ?n"
    using key by (simp add: length_client_frame)
  have n64: "?k + 4 + ?n < 2 ^ 64" using off len by simp
  define hd where "hd = take ?k (client_frame opcode key payload)"
  have cf: "client_frame opcode key payload = hd @ key @ mask_bytes key payload" and lhd: "length hd = ?k"
    by (simp_all add: hd_def client_frame_def client_header_len_def Let_def)
  have lay: "ws_frame_layout ?buf ?off = Some (Some (Some ?k, ?k + 4, of_nat ?n))"
    by (rule ws_frame_layout_client [OF key refl _ buf]) (use n64 off len in simp_all)
  have un: "unat (of_nat ?n :: u64) = ?n" using n64 by (intro unat_of_nat_u64) simp
  have sum: "unat (of_nat (?k + 4) + of_nat ?n :: u64) = ?k + 4 + ?n"
    using frame_sum_unat [of "?k + 4" "of_nat ?n"] n64 un by simp
  have complete: "\<not> (of_nat ?off :: u64) < of_nat (?k + 4) + of_nat ?n"
    using frame_complete_iff [of "?k + 4" "of_nat ?n" ?off] n64 un off len by simp
  have b0: "hd ! 0 = WS_FLAG_FIN OR opcode" "hd \<noteq> []"
    by (simp_all add: hd_def client_frame_def client_header_len_def Let_def nth_append)
  have unm: "ws_unmask ?buf (?k + 4) ?k ?n 0 = Some (hd @ key @ payload @ rest)"
    using ws_unmask_spec [of ?k "?k + 4" ?n ?buf] key lhd
    by (simp add: buf cf mask_bytes_involution)
  have pl: "take ?n (drop (?k + 4) (hd @ key @ payload @ rest)) = payload"
    using key lhd by simp
  have "2 \<le> ?off" using off len by (simp add: client_header_len_def split: if_splits)
  moreover have "WS_GET_OP (WS_FLAG_FIN OR opcode) = opcode" by (rule WS_GET_OP_fin [OF op])
  ultimately have "ws_frame E ws tr =
       do { (ws1, tr1) \<leftarrow> ws_frame_dispatch E (ws\<lparr>read_buffer := (hd @ key) @ payload @ rest\<rparr>) opcode payload tr;
            Some (?k + 4 + ?n, ws1, tr1) }"
    using lay complete unm pl un sum b0 by (simp add: ws_frame_def Let_def nth_append rd_def)
  then show ?thesis using that [of "hd @ key"] len lhd key by simp
qed

section \<open>Decoding arbitrary bytes\<close>

text \<open>The length field does not make the 64-bit sums of \<open>ws_frame\<close> wrap.\<close>

definition frame_no_wrap :: "u8 list \<Rightarrow> nat \<Rightarrow> bool" where
  "frame_no_wrap buf off \<longleftrightarrow>
     (case ws_frame_layout buf off of
        Some (Some (key, pay, plen)) \<Rightarrow> pay + unat plen < 2 ^ 64
      | _ \<Rightarrow> True)"

text \<open>What handling a frame may do to the outside world: send to the two ends of the connection.\<close>

definition conn_trace :: "websocket \<Rightarrow> trace \<Rightarrow> bool" where
  "conn_trace ws ext \<longleftrightarrow>
     opened_in ext = [] \<and> (\<forall>fd. fd \<noteq> ws_fd ws \<longrightarrow> fd \<noteq> peer_fd ws \<longrightarrow> untouched fd ext)"

lemma conn_trace_sends: "only_sends fd ext \<Longrightarrow> fd = ws_fd ws \<or> fd = peer_fd ws \<Longrightarrow> conn_trace ws ext"
  by (auto simp: conn_trace_def only_sends_opened only_sends_untouched)

lemma conn_trace_close: "close_trace ws ext \<Longrightarrow> conn_trace ws ext"
  by (auto simp: conn_trace_def close_trace_def)

lemma conn_trace_append [simp]: "conn_trace ws (xs @ ys) \<longleftrightarrow> conn_trace ws xs \<and> conn_trace ws ys"
  by (auto simp: conn_trace_def)

lemma runs_ws_frame_dispatch [runs_rules]:
  assumes "posix_send E" "framing_releasable ws"
    and live: "\<And>ext. closed_in ext = [] \<Longrightarrow> conn_trace ws ext \<Longrightarrow> Q (ws, tr @ ext)"
    and dead: "\<And>ext. closed_in ext = fd_list (ws_fd ws) @ fd_list (peer_fd ws) \<Longrightarrow>
      conn_trace ws ext \<Longrightarrow> Q (ws_reset ws, tr @ ext)"
  shows "runs (ws_frame_dispatch E ws opcode payload tr) Q"
proof -
  have live0: "Q (ws, tr)" using live [of "[]"] by (simp add: conn_trace_def)
  have close: "runs (ws_close E ws code reason (tr @ ext)) (\<lambda>x. runs (case x of (_, y) \<Rightarrow> Some y) Q)"
    if "only_sends fd ext" "fd = ws_fd ws \<or> fd = peer_fd ws" for code reason ext fd
    using that by (intro runs_ws_close assms(1,2))
      (auto intro!: dead simp: close_trace_def only_sends_closed conn_trace_close conn_trace_sends)
  have close0: "runs (ws_close E ws code reason tr) (\<lambda>x. runs (case x of (_, y) \<Rightarrow> Some y) Q)"
    for code reason
    using close [of "ws_fd ws" "[]"] by simp
  show ?thesis
    unfolding ws_frame_dispatch_def
    by (auto intro!: runs_network_send runs_ws_send_frame assms(1) live close0 live0 close
        simp: only_sends_closed conn_trace_sends)
qed

lemma runs_ws_frame [runs_rules]:
  assumes "posix_send E" "framing_releasable ws"
    and buf: "read_buffer_offset ws \<le> length (read_buffer ws)" "read_buffer_offset ws < 2 ^ 64"
    and nowrap: "frame_no_wrap (read_buffer ws) (read_buffer_offset ws)"
    and wait: "Q (0, ws, tr)"
    and unmasked: "\<And>ext. close_trace ws ext \<Longrightarrow> Q (0, ws_reset ws, tr @ ext)"
    and live: "\<And>n buf ext. 2 \<le> n \<Longrightarrow> n \<le> read_buffer_offset ws \<Longrightarrow> length buf = length (read_buffer ws) \<Longrightarrow>
      drop n buf = drop n (read_buffer ws) \<Longrightarrow>
      closed_in ext = [] \<Longrightarrow> conn_trace ws ext \<Longrightarrow> Q (n, ws\<lparr>read_buffer := buf\<rparr>, tr @ ext)"
    and dead: "\<And>n buf ext. 2 \<le> n \<Longrightarrow> n \<le> read_buffer_offset ws \<Longrightarrow> length buf = length (read_buffer ws) \<Longrightarrow>
      closed_in ext = fd_list (ws_fd ws) @ fd_list (peer_fd ws) \<Longrightarrow>
      conn_trace ws ext \<Longrightarrow> Q (n, ws_reset (ws\<lparr>read_buffer := buf\<rparr>), tr @ ext)"
  shows "runs (ws_frame E ws tr) Q"
proof (cases "read_buffer_offset ws < 2")
  case True
  with wait show ?thesis by (simp add: ws_frame_def)
next
  case off: False
  then have off2: "2 \<le> read_buffer_offset ws" by simp
  from off2 buf(1) show ?thesis
  proof (cases rule: ws_frame_layout_total)
    case more
    with off wait show ?thesis by (simp add: ws_frame_def Let_def)
  next
    case (layout key pay plen)
    let ?n = "pay + unat plen"
    have n64: "?n < 2 ^ 64" using nowrap layout(1) by (simp add: frame_no_wrap_def)
    note complete = frame_complete_iff [OF n64 buf(2)] and sum = frame_sum_unat [OF n64]
    show ?thesis
    proof (cases "read_buffer_offset ws < ?n")
      case True
      with off wait layout(1) complete show ?thesis by (simp add: ws_frame_def Let_def)
    next
      case n: False
      show ?thesis
      proof (cases key)
        case None
        with off n layout(1) complete show ?thesis
          by (auto simp: ws_frame_def Let_def intro!: runs_ws_close [OF assms(1,2)] unmasked)
      next
        case (Some k)
        have k: "k + 4 \<le> pay" using layout(5) Some by simp
        obtain buf1 where unm: "ws_unmask (read_buffer ws) pay k (unat plen) 0 = Some buf1"
          and lbuf: "length buf1 = length (read_buffer ws)"
          and dbuf: "drop ?n buf1 = drop ?n (read_buffer ws)"
          using ws_unmask_spec [OF k, of "unat plen" "read_buffer ws"] n buf by simp
        have rel: "framing_releasable (ws\<lparr>read_buffer := buf1\<rparr>)"
          using assms(2) by (simp add: framing_releasable_def)
        have "runs (ws_frame_dispatch E (ws\<lparr>read_buffer := buf1\<rparr>) (WS_GET_OP (buf1 ! 0))
            (take (unat plen) (drop pay buf1)) tr) (\<lambda>x. Q (?n, x))"
          by (rule runs_ws_frame_dispatch [OF assms(1) rel])
            (use n layout(2) live [OF _ _ lbuf dbuf] dead [OF _ _ lbuf] in
              \<open>simp_all add: conn_trace_def\<close>)
        moreover have "0 < length buf1" using buf off2 lbuf by linarith
        ultimately show ?thesis
          using off n layout(1) complete Some unm sum
          by (simp add: ws_frame_def Let_def rd_def)
      qed
    qed
  qed
qed

text \<open>
  When the length field does make the sums wrap, the completeness check passes although the
  payload cannot be there, and the unmasking loop leaves the buffer.
\<close>

lemma ws_frame_wrap_overrun:
  assumes off: "2 \<le> read_buffer_offset ws" "read_buffer_offset ws \<le> length (read_buffer ws)"
    and len: "length (read_buffer ws) < 2 ^ 63"
    and lay: "ws_frame_layout (read_buffer ws) (read_buffer_offset ws) = Some (Some (Some k, pay, plen))"
    and wrap: "2 ^ 64 \<le> pay + unat plen"
    and pass: "unat (of_nat pay + plen :: u64) \<le> read_buffer_offset ws"
  shows "ws_frame E ws tr = None"
proof -
  have k: "k + 4 = pay" "pay \<le> 14"
    using ws_frame_layout_total [OF off] lay by fastforce+
  have "length (read_buffer ws) < pay + unat plen" using len wrap by simp
  moreover have "pay \<le> length (read_buffer ws)"
    using ws_frame_layout_total [OF off] lay off by fastforce
  ultimately have "ws_unmask (read_buffer ws) pay k (unat plen) 0 = None"
    using k by (intro ws_unmask_overrun) simp_all
  moreover have "\<not> (of_nat (read_buffer_offset ws) :: u64) < of_nat pay + plen"
    using pass len off by (simp add: word_less_nat_alt unat_of_nat_u64)
  ultimately show ?thesis using off lay by (simp add: ws_frame_def Let_def)
qed

text \<open>Arbitrary bytes: the handling of a frame is safe, or it is undefined because the length wrapped.\<close>

lemma ws_frame_cases:
  assumes E: "posix_send E" and rel: "framing_releasable ws"
    and buf: "read_buffer_offset ws \<le> length (read_buffer ws)" "length (read_buffer ws) < 2 ^ 63"
    and wait: "Q (0, ws, tr)"
    and unmasked: "\<And>ext. close_trace ws ext \<Longrightarrow> Q (0, ws_reset ws, tr @ ext)"
    and live: "\<And>n buf ext. 2 \<le> n \<Longrightarrow> n \<le> read_buffer_offset ws \<Longrightarrow> length buf = length (read_buffer ws) \<Longrightarrow>
      drop n buf = drop n (read_buffer ws) \<Longrightarrow>
      closed_in ext = [] \<Longrightarrow> conn_trace ws ext \<Longrightarrow> Q (n, ws\<lparr>read_buffer := buf\<rparr>, tr @ ext)"
    and dead: "\<And>n buf ext. 2 \<le> n \<Longrightarrow> n \<le> read_buffer_offset ws \<Longrightarrow> length buf = length (read_buffer ws) \<Longrightarrow>
      closed_in ext = fd_list (ws_fd ws) @ fd_list (peer_fd ws) \<Longrightarrow>
      conn_trace ws ext \<Longrightarrow> Q (n, ws_reset (ws\<lparr>read_buffer := buf\<rparr>), tr @ ext)"
  shows "(ws_frame E ws tr = None \<and> 2 \<le> read_buffer_offset ws \<and>
      \<not> frame_no_wrap (read_buffer ws) (read_buffer_offset ws)) \<or> runs (ws_frame E ws tr) Q"
proof (cases "read_buffer_offset ws < 2 \<or> frame_no_wrap (read_buffer ws) (read_buffer_offset ws)")
  case True
  then show ?thesis
  proof
    assume "read_buffer_offset ws < 2"
    then show ?thesis using wait by (simp add: ws_frame_def)
  next
    assume nowrap: "frame_no_wrap (read_buffer ws) (read_buffer_offset ws)"
    have "runs (ws_frame E ws tr) Q"
      by (rule runs_ws_frame [OF E rel buf(1) _ nowrap]) (use assms in auto)
    then show ?thesis ..
  qed
next
  case False
  then have off: "2 \<le> read_buffer_offset ws" by simp
  obtain key pay plen where lay: "ws_frame_layout (read_buffer ws) (read_buffer_offset ws) = Some (Some (key, pay, plen))"
    and wrap: "2 ^ 64 \<le> pay + unat plen"
    using False by (auto simp: frame_no_wrap_def split: option.splits)
  show ?thesis
  proof (cases "(of_nat (read_buffer_offset ws) :: u64) < of_nat pay + plen")
    case True
    then show ?thesis using off lay wait by (simp add: ws_frame_def Let_def)
  next
    case pass: False
    show ?thesis
    proof (cases key)
      case None
      have "runs (ws_frame E ws tr) Q"
        using off lay pass None
        by (auto simp: ws_frame_def Let_def intro!: runs_ws_close [OF E rel] unmasked)
      then show ?thesis ..
    next
      case (Some k)
      have "unat (of_nat pay + plen :: u64) \<le> read_buffer_offset ws"
        using pass buf by (simp add: word_less_nat_alt unat_of_nat_u64 not_less)
      then have "ws_frame E ws tr = None"
        using ws_frame_wrap_overrun [OF off buf(1,2)] lay Some wrap by blast
      with off False show ?thesis by blast
    qed
  qed
qed

end
