(* ===== verification/Client.thy ===== *)
theory Client
  imports Separator Frame_Decode
begin

text \<open>
  Establishing the peer connection, from \<open>websocksy.c\<close>: \<open>client_detect_transport\<close>,
  \<open>client_detect_port\<close> and \<open>client_connect\<close>.
\<close>

section \<open>Services\<close>

text \<open>
  What a connection calls that its own source does not define: the query function of the
  configured backend, and the hash and base64 functions of the nettle library (the latter as a
  function of the whole input, the source's update and final calls together), with nettle's macro
  for the room an encoding of \<open>n\<close> bytes is given.
\<close>

record services =
  cfg_query :: backend_query
  nettle_sha1 :: "u8 list \<Rightarrow> u8 list"
  nettle_base64 :: "u8 list \<Rightarrow> u8 list"
  BASE64_ENCODE_LENGTH :: "nat \<Rightarrow> nat"

section \<open>Reading the peer address\<close>

text \<open>Both functions work in place on the host string, a buffer ending in its NUL.\<close>

definition client_detect_transport :: "u8 list \<Rightarrow> (peer_transport \<times> u8 list) option" where
  "client_detect_transport s =
     do { tcp \<leftarrow> strncmp_eq s 0 (bytes ''tcp://'');
          if tcp then do { l \<leftarrow> strlen_at s 0; s' \<leftarrow> memmove s 0 6 (l - 5); Some (peer_tcp_client, s') }
          else do {
          udp \<leftarrow> strncmp_eq s 0 (bytes ''udp://'');
          if udp then do { l \<leftarrow> strlen_at s 0; s' \<leftarrow> memmove s 0 6 (l - 5); Some (peer_udp_client, s') }
          else do {
          fifotx \<leftarrow> strncmp_eq s 0 (bytes ''fifotx://'');
          if fifotx then do { l \<leftarrow> strlen_at s 0; s' \<leftarrow> memmove s 0 9 (l - 8); Some (peer_fifo_tx, s') }
          else do {
          fiforx \<leftarrow> strncmp_eq s 0 (bytes ''fiforx://'');
          if fiforx then do { l \<leftarrow> strlen_at s 0; s' \<leftarrow> memmove s 0 9 (l - 8); Some (peer_fifo_rx, s') }
          else do {
          unix \<leftarrow> strncmp_eq s 0 (bytes ''unix://'');
          if unix then do { l \<leftarrow> strlen_at s 0; s' \<leftarrow> memmove s 0 7 (l - 6); Some (peer_unix_stream, s') }
          else do {
          dgram \<leftarrow> strncmp_eq s 0 (bytes ''unix-dgram://'');
          if dgram then do { l \<leftarrow> strlen_at s 0; s' \<leftarrow> memmove s 0 13 (l - 12); Some (peer_unix_dgram, s') }
          else Some (peer_tcp_client, s) } } } } } }"

function client_detect_port_loop :: "u8 list \<Rightarrow> nat \<Rightarrow> (cstring option \<times> u8 list) option" where
  "client_detect_port_loop s u =
     do { c \<leftarrow> rd s u;
          if c = 0 then Some (None, s)
          else if c = 58 then do { s' \<leftarrow> wr s u 0; p \<leftarrow> cstr s' (u + 1); Some (Some p, s') }
          else client_detect_port_loop s (Suc u) }"
  by pat_completeness auto
termination
  by (relation "measure (\<lambda>(s, u). length s - u)") (auto simp: mem_simps)

declare client_detect_port_loop.simps [simp del]

definition client_detect_port :: "u8 list \<Rightarrow> (cstring option \<times> u8 list) option" where
  "client_detect_port s = client_detect_port_loop s 0"

section \<open>Connecting\<close>

text \<open>The switch over the transports: the value returned early, or the new descriptor.\<close>

definition client_open_peer ::
  "env \<Rightarrow> peer_transport \<Rightarrow> cstring \<Rightarrow> cstring option \<Rightarrow> trace \<Rightarrow> (int option \<times> trace) option" where
  "client_open_peer E t h p tr =
     (case t of
        peer_tcp_client \<Rightarrow>
          do { p' \<leftarrow> p; let (fd, tr1) = network_socket E h p' SOCK_STREAM False tr in Some (Some fd, tr1) }
      | peer_udp_client \<Rightarrow>
          do { p' \<leftarrow> p; let (fd, tr1) = network_socket E h p' SOCK_DGRAM False tr in Some (Some fd, tr1) }
      | peer_fifo_tx \<Rightarrow> Some (None, tr)
      | peer_fifo_rx \<Rightarrow> Some (None, tr)
      | peer_unix_stream \<Rightarrow>
          (let (fd, tr1) = network_socket_unix E h SOCK_STREAM False tr in Some (Some fd, tr1))
      | peer_unix_dgram \<Rightarrow>
          (let (fd, tr1) = network_socket_unix E h SOCK_DGRAM False tr in Some (Some fd, tr1))
      | peer_transport_detect \<Rightarrow> Some (None, tr))"

text \<open>The scan of the host for a transport and a port, where they are not given.\<close>

definition client_complete_peer :: "ws_peer_info \<Rightarrow> cstring \<Rightarrow> ws_peer_info option" where
  "client_complete_peer p h =
     do { (t, s1) \<leftarrow> (if transport p = peer_transport_detect
                      then client_detect_transport (h @ [0]) else Some (transport p, h @ [0]));
          (po, s2) \<leftarrow> (if (t = peer_tcp_client \<or> t = peer_udp_client) \<and> port p = None
                       then client_detect_port s1 else Some (port p, s1));
          h' \<leftarrow> cstr s2 0;
          Some (p\<lparr>transport := t, host := Some h', port := po\<rparr>) }"

definition client_connect ::
  "env \<Rightarrow> services \<Rightarrow> websocket \<Rightarrow> trace \<Rightarrow> (int \<times> websocket \<times> trace) option" where
  "client_connect E SV ws tr =
     do { (p, path) \<leftarrow> cfg_query SV (request_path ws) (protocol ws) (header ws);
          let ws1 = ws\<lparr>request_path := path, peer := p\<rparr>;
          case host p of
            None \<Rightarrow> Some (1, ws1, tr)
          | Some h \<Rightarrow>
              do { let p1 = (if framing p = None then p\<lparr>framing := Some framing_auto\<rparr> else p);
                   p2 \<leftarrow> client_complete_peer p1 h;
                   let ws2 = ws1\<lparr>peer := p2\<rparr>;
                   if (transport p2 = peer_tcp_client \<or> transport p2 = peer_udp_client) \<and> port p2 = None
                   then Some (1, ws2, tr)
                   else do {
                     h' \<leftarrow> host p2;
                     (r, tr1) \<leftarrow> client_open_peer E (transport p2) h' (port p2) tr;
                     case r of
                       None \<Rightarrow> Some (1, ws2, tr1)
                     | Some fd \<Rightarrow> Some (if fd = -1 then 1 else 0, ws2\<lparr>peer_fd := fd\<rparr>, tr1) } } }"

section \<open>What the address scan computes\<close>

text \<open>The transports by prefix, and the address behind the prefix.\<close>

definition transport_prefixes :: "(cstring \<times> peer_transport) list" where
  "transport_prefixes =
     [(bytes ''tcp://'', peer_tcp_client), (bytes ''udp://'', peer_udp_client),
      (bytes ''fifotx://'', peer_fifo_tx), (bytes ''fiforx://'', peer_fifo_rx),
      (bytes ''unix://'', peer_unix_stream), (bytes ''unix-dgram://'', peer_unix_dgram)]"

definition split_transport :: "cstring \<Rightarrow> peer_transport \<times> cstring" where
  "split_transport h =
     (case find (\<lambda>(p, t). prefix p h) transport_prefixes of
        Some (p, t) \<Rightarrow> (t, drop (length p) h)
      | None \<Rightarrow> (peer_tcp_client, h))"

definition split_port :: "cstring \<Rightarrow> cstring \<times> cstring option" where
  "split_port h =
     (takeWhile (\<lambda>c. c \<noteq> 58) h,
      case dropWhile (\<lambda>c. c \<noteq> 58) h of [] \<Rightarrow> None | c # p \<Rightarrow> Some p)"

lemma strncmp_eq_string:
  "0 \<notin> set lit \<Longrightarrow> strncmp_eq (s @ 0 # post) 0 lit = Some (prefix lit s)"
  using strncmp_eq_middle [of lit "[]" s post] by simp

lemma memmove_string:
  assumes "prefix p h" "0 \<notin> set h" "p \<noteq> []"
  obtains post where "memmove (h @ [0]) 0 (length p) (length h - (length p - 1)) =
    Some (drop (length p) h @ 0 # post)"
proof -
  from assms obtain r where h: "h = p @ r" by (auto simp: prefix_def)
  have n: "length h - (length p - 1) = Suc (length r)" using assms(3) by (cases p) (simp_all add: h)
  have "memmove (h @ [0]) 0 (length p) (length h - (length p - 1)) =
      Some (r @ 0 # drop (Suc (length r)) (h @ [0]))"
    unfolding n by (subst memmove_front) (simp_all add: h)
  with h show ?thesis using that by simp
qed

lemma client_detect_transport_spec:
  assumes "0 \<notin> set h"
  obtains post where "client_detect_transport (h @ [0]) =
    Some (fst (split_transport h), snd (split_transport h) @ 0 # post)"
proof -
  have l: "strlen_at (h @ [0]) 0 = Some (length h)"
    using strlen_at_append [of h "[]" "[]"] assms by simp
  have z: "0 \<notin> set (bytes ''tcp://'')" "0 \<notin> set (bytes ''udp://'')" "0 \<notin> set (bytes ''fifotx://'')"
    "0 \<notin> set (bytes ''fiforx://'')" "0 \<notin> set (bytes ''unix://'')" "0 \<notin> set (bytes ''unix-dgram://'')"
    by (simp_all add: bytes_def)
  note cmp = z [THEN strncmp_eq_string, of h "[]"]
  note unfold = client_detect_transport_def split_transport_def transport_prefixes_def cmp l
  have mm: "\<exists>post. memmove (h @ [0]) 0 k (length h - (k - 1)) = Some (drop k h @ 0 # post)"
    if "prefix p h" "k = length p" "0 < k" for p k
    using memmove_string [OF that(1) assms] that(2,3) by fastforce
  let ?done = "\<exists>post. client_detect_transport (h @ [0]) =
    Some (fst (split_transport h), snd (split_transport h) @ 0 # post)"
  consider (tcp) "prefix (bytes ''tcp://'') h" 
    | (udp) "prefix (bytes ''udp://'') h" "\<not> prefix (bytes ''tcp://'') h"
    | (tx) "prefix (bytes ''fifotx://'') h" "\<not> prefix (bytes ''tcp://'') h" "\<not> prefix (bytes ''udp://'') h"
    | (rx) "prefix (bytes ''fiforx://'') h" "\<not> prefix (bytes ''tcp://'') h" "\<not> prefix (bytes ''udp://'') h" "\<not> prefix (bytes ''fifotx://'') h"
    | (unix) "prefix (bytes ''unix://'') h" "\<not> prefix (bytes ''tcp://'') h" "\<not> prefix (bytes ''udp://'') h" "\<not> prefix (bytes ''fifotx://'') h" "\<not> prefix (bytes ''fiforx://'') h"
    | (dgram) "prefix (bytes ''unix-dgram://'') h" "\<not> prefix (bytes ''tcp://'') h" "\<not> prefix (bytes ''udp://'') h" "\<not> prefix (bytes ''fifotx://'') h" "\<not> prefix (bytes ''fiforx://'') h" "\<not> prefix (bytes ''unix://'') h"
    | (other) "\<not> prefix (bytes ''tcp://'') h" "\<not> prefix (bytes ''udp://'') h" "\<not> prefix (bytes ''fifotx://'') h" "\<not> prefix (bytes ''fiforx://'') h" "\<not> prefix (bytes ''unix://'') h" "\<not> prefix (bytes ''unix-dgram://'') h"
    by blast
  then have ?done
  proof cases
    case tcp
    then show ?thesis using mm [OF tcp(1), of 6] by (auto simp: unfold eval_nat_numeral)
  next
    case udp
    then show ?thesis using mm [OF udp(1), of 6] by (auto simp: unfold eval_nat_numeral)
  next
    case tx
    then show ?thesis using mm [OF tx(1), of 9] by (auto simp: unfold eval_nat_numeral)
  next
    case rx
    then show ?thesis using mm [OF rx(1), of 9] by (auto simp: unfold eval_nat_numeral)
  next
    case unix
    then show ?thesis using mm [OF unix(1), of 7] by (auto simp: unfold eval_nat_numeral)
  next
    case dgram
    then show ?thesis using mm [OF dgram(1), of 13] by (auto simp: unfold eval_nat_numeral)
  next
    case other
    then show ?thesis by (simp add: unfold)
  qed
  with that show ?thesis by blast
qed

lemma client_detect_port_loop_spec:
  "0 \<notin> set h \<Longrightarrow> 58 \<notin> set g \<Longrightarrow> 0 \<notin> set g \<Longrightarrow>
     \<exists>post'. client_detect_port_loop (g @ h @ 0 # post) (length g) =
       Some (snd (split_port h), g @ fst (split_port h) @ 0 # post')"
proof (induction h arbitrary: g)
  case Nil
  then show ?case
    by (simp add: client_detect_port_loop.simps [of "g @ 0 # post"] nth_append split_port_def)
next
  case (Cons c h)
  show ?case
  proof (cases "c = 58")
    case True
    have "cstr (g @ 0 # h @ 0 # post) (length g + 1) = Some h"
      using cstr_append [of h "g @ [0]" post] Cons.prems by simp
    with True Cons.prems show ?thesis
      by (simp add: client_detect_port_loop.simps [of "g @ 58 # h @ 0 # post"] nth_append
          list_update_append split_port_def)
  next
    case False
    have "client_detect_port_loop (g @ (c # h) @ 0 # post) (length g) =
        client_detect_port_loop ((g @ [c]) @ h @ 0 # post) (length (g @ [c]))"
      using False Cons.prems
      by (simp add: client_detect_port_loop.simps [of _ "length g"] nth_append)
    with Cons.IH [of "g @ [c]"] Cons.prems False show ?thesis by (auto simp: split_port_def)
  qed
qed

lemma client_detect_port_spec:
  assumes "0 \<notin> set h"
  obtains post' where
    "client_detect_port (h @ 0 # post) = Some (snd (split_port h), fst (split_port h) @ 0 # post')"
  using client_detect_port_loop_spec [of h "[]" post] assms by (auto simp: client_detect_port_def)

text \<open>The peer address completed from the host string.\<close>

definition completed_peer :: "ws_peer_info \<Rightarrow> cstring \<Rightarrow> ws_peer_info" where
  "completed_peer p h =
     (let (t, h1) = (if transport p = peer_transport_detect then split_transport h else (transport p, h));
          (h2, po) = (if (t = peer_tcp_client \<or> t = peer_udp_client) \<and> port p = None
                      then split_port h1 else (h1, port p))
      in p\<lparr>transport := t, host := Some h2, port := po\<rparr>)"

lemma split_transport_no_nul: "0 \<notin> set h \<Longrightarrow> 0 \<notin> set (snd (split_transport h))"
  by (auto simp: split_transport_def split: option.splits dest: in_set_dropD)

lemma split_port_no_nul: "0 \<notin> set h \<Longrightarrow> 0 \<notin> set (fst (split_port h))"
  by (auto simp: split_port_def dest: set_takeWhileD)

lemma cstr_string: "0 \<notin> set h \<Longrightarrow> cstr (h @ 0 # post) 0 = Some h"
  using cstr_append [of h "[]" post] by simp

lemma client_complete_peer_eq:
  assumes "0 \<notin> set h"
  shows "client_complete_peer p h = Some (completed_peer p h)"
proof -
  define t where "t = (if transport p = peer_transport_detect then fst (split_transport h) else transport p)"
  define h1 where "h1 = (if transport p = peer_transport_detect then snd (split_transport h) else h)"
  have nz: "0 \<notin> set h1" using assms split_transport_no_nul by (simp add: h1_def)
  obtain post where post: "(if transport p = peer_transport_detect
      then client_detect_transport (h @ [0]) else Some (transport p, h @ [0])) = Some (t, h1 @ 0 # post)"
    by (cases "transport p = peer_transport_detect")
      (use client_detect_transport_spec [OF assms] in \<open>auto simp: t_def h1_def\<close>)
  obtain post' where port: "client_detect_port (h1 @ 0 # post) =
      Some (snd (split_port h1), fst (split_port h1) @ 0 # post')"
    by (rule client_detect_port_spec [OF nz])
  have "(if transport p = peer_transport_detect then split_transport h else (transport p, h)) = (t, h1)"
    by (simp add: t_def h1_def)
  then show ?thesis
    by (simp add: client_complete_peer_def completed_peer_def post port cstr_string nz
        split_port_no_nul split: prod.splits)
qed

section \<open>Connecting, in general\<close>

text \<open>
  What the code relies on in a backend: its query returns, the host is a C string, and a framing
  function it selects obeys the framing law with the configuration it supplies.
\<close>

definition peer_lawful :: "ws_peer_info \<Rightarrow> bool" where
  "peer_lawful p \<longleftrightarrow>
     (case host p of None \<Rightarrow> True | Some h \<Rightarrow> 0 \<notin> set h) \<and>
     (case framing p of None \<Rightarrow> True | Some f \<Rightarrow> \<exists>I. framing_law f (framing_config p) I)"

definition peer_live :: "ws_peer_info \<Rightarrow> bool" where
  "peer_live p \<longleftrightarrow> (\<exists>f I. framing p = Some f \<and> framing_law f (framing_config p) I)"

text \<open>A backend that answers every question of a connection, usably.\<close>

definition services_total :: "services \<Rightarrow> bool" where
  "services_total SV \<longleftrightarrow>
     (\<forall>path protos hdrs. runs (cfg_query SV path protos hdrs) (\<lambda>(p, path'). peer_lawful p))"

text \<open>A backend whose answers a connection can use; it need not answer everything.\<close>

definition services_sound :: "services \<Rightarrow> bool" where
  "services_sound SV \<longleftrightarrow>
     (\<forall>path protos hdrs p path'. cfg_query SV path protos hdrs = Some (p, path') \<longrightarrow> peer_lawful p)"

text \<open>The same for the one question that is asked for a connection.\<close>

definition backend_answers :: "services \<Rightarrow> websocket \<Rightarrow> bool" where
  "backend_answers SV ws \<longleftrightarrow>
     runs (cfg_query SV (request_path ws) (protocol ws) (header ws)) (\<lambda>(p, path). peer_lawful p)"

lemma services_total_answers: "services_total SV \<Longrightarrow> backend_answers SV ws"
  by (simp add: services_total_def backend_answers_def)

lemma services_total_sound: "services_total SV \<Longrightarrow> services_sound SV"
  unfolding services_total_def services_sound_def by (metis case_prodD runs_Some)

text \<open>The peer a connection gets when the backend names \<open>p\<close>, which has a host.\<close>

definition connected_peer :: "ws_peer_info \<Rightarrow> ws_peer_info" where
  "connected_peer p =
     completed_peer (if framing p = None then p\<lparr>framing := Some framing_auto\<rparr> else p) (the (host p))"

lemma completed_peer_framing [simp]:
  "framing (completed_peer p h) = framing p" "framing_config (completed_peer p h) = framing_config p"
  by (simp_all add: completed_peer_def Let_def split: prod.splits)

lemma completed_peer_host: "host (completed_peer p h) \<noteq> None"
  by (simp add: completed_peer_def Let_def split: prod.splits)

lemma runs_client_open_peer:
  assumes "(t = peer_tcp_client \<or> t = peer_udp_client) \<Longrightarrow> p \<noteq> None"
    and "Q (None, tr)"
    and "\<And>fd ext. -1 \<le> fd \<Longrightarrow> quiet ext \<Longrightarrow> balanced fd ext \<Longrightarrow> Q (Some fd, tr @ ext)"
  shows "runs (client_open_peer E t h p tr) Q"
proof -
  have inet: "runs (let (fd, tr1) = network_socket E h po ty False tr in Some (Some fd, tr1)) Q" for po ty
    using network_socket_spec [of E h po ty False tr] assms(3)
    by (cases "network_socket E h po ty False tr") auto
  have unix: "runs (let (fd, tr1) = network_socket_unix E h ty False tr in Some (Some fd, tr1)) Q" for ty
    using network_socket_unix_spec [of E h ty False tr] assms(3)
    by (cases "network_socket_unix E h ty False tr") auto
  show ?thesis using assms(1,2) inet unix by (cases t) (auto simp: client_open_peer_def)
qed

lemma runs_client_connect [runs_rules]:
  assumes "backend_answers SV ws"
    and fail: "\<And>p path. Q (1, ws\<lparr>request_path := path, peer := p\<rparr>, tr)"
    and refused: "\<And>p path ext. quiet ext \<Longrightarrow> balanced (-1) ext \<Longrightarrow>
      Q (1, ws\<lparr>request_path := path, peer := p, peer_fd := -1\<rparr>, tr @ ext)"
    and up: "\<And>p path fd ext. 0 \<le> fd \<Longrightarrow> peer_live (connected_peer p) \<Longrightarrow>
      cfg_query SV (request_path ws) (protocol ws) (header ws) = Some (p, path) \<Longrightarrow> host p \<noteq> None \<Longrightarrow>
      quiet ext \<Longrightarrow> balanced fd ext \<Longrightarrow>
      Q (0, ws\<lparr>request_path := path, peer := connected_peer p, peer_fd := fd\<rparr>, tr @ ext)"
  shows "runs (client_connect E SV ws tr) Q"
proof -
  obtain p path where q: "cfg_query SV (request_path ws) (protocol ws) (header ws) = Some (p, path)"
    "peer_lawful p"
    using assms(1) by (auto simp: backend_answers_def runs_def)
  show ?thesis
  proof (cases "host p")
    case None
    with q fail show ?thesis by (simp add: client_connect_def)
  next
    case (Some h)
    define p1 where "p1 = (if framing p = None then p\<lparr>framing := Some framing_auto\<rparr> else p)"
    define p2 where "p2 = completed_peer p1 h"
    have nz: "0 \<notin> set h" using q(2) Some by (simp add: peer_lawful_def)
    have "peer_live p1"
      using q(2) auto_framing.framing_law_axioms
      by (auto simp: p1_def peer_live_def peer_lawful_def split: option.splits)
    then have live: "peer_live p2" by (simp add: p2_def peer_live_def)
    have p2: "p2 = connected_peer p" using Some by (simp add: p2_def p1_def connected_peer_def)
    obtain h' where h': "host p2 = Some h'" using completed_peer_host p2_def by blast
    have body: "client_connect E SV ws tr =
      (if (transport p2 = peer_tcp_client \<or> transport p2 = peer_udp_client) \<and> port p2 = None
       then Some (1, ws\<lparr>request_path := path, peer := p2\<rparr>, tr)
       else do {
         (r, tr1) \<leftarrow> client_open_peer E (transport p2) h' (port p2) tr;
         case r of
           None \<Rightarrow> Some (1, ws\<lparr>request_path := path, peer := p2\<rparr>, tr1)
         | Some fd \<Rightarrow> Some (if fd = -1 then 1 else 0,
             ws\<lparr>request_path := path, peer := p2, peer_fd := fd\<rparr>, tr1) })"
      using q(1) Some h' client_complete_peer_eq [OF nz, of p1, folded p2_def]
      by (simp add: client_connect_def Let_def p1_def [symmetric] cong: if_cong)
    show ?thesis
      unfolding body
      using live q(1) Some by (auto simp: p2 intro!: runs_client_open_peer fail refused up)
  qed
qed

end
