(* ===== verification/Strtok.thy ===== *)
theory Strtok
  imports Cstring
begin

text \<open>
  \<open>strtok\<close> with the delimiter string \<open>","\<close>, as the handling of \<open>Sec-WebSocket-Protocol\<close> uses
  it. The C function keeps a hidden position between calls; the model passes it explicitly.
  \<open>comma_tokens\<close> is the reference: the non-empty pieces between commas.
\<close>

definition is_comma :: "u8 \<Rightarrow> bool" where
  "is_comma c \<longleftrightarrow> c = 44"

text \<open>One call: \<open>None\<close> inside the outer \<open>Some\<close> is the null result, otherwise the position of the
  token, the position the next call resumes from, and the buffer with the delimiter overwritten.\<close>

definition strtok :: "u8 list \<Rightarrow> nat \<Rightarrow> (nat \<times> nat \<times> u8 list) option option" where
  "strtok buf pos =
     do { s \<leftarrow> scan (\<lambda>c. \<not> is_comma c) buf pos;
          c \<leftarrow> rd buf s;
          if c = 0 then Some None
          else do { e \<leftarrow> scan (\<lambda>c. is_comma c \<or> c = 0) buf s;
                    d \<leftarrow> rd buf e;
                    if d = 0 then Some (Some (s, e, buf))
                    else do { buf' \<leftarrow> wr buf e 0; Some (Some (s, Suc e, buf')) } } }"

function comma_tokens :: "cstring \<Rightarrow> cstring list" where
  "comma_tokens s =
     (let t = dropWhile is_comma s
      in if t = [] then []
         else takeWhile (Not \<circ> is_comma) t # comma_tokens (dropWhile (Not \<circ> is_comma) t))"
  by pat_completeness auto
termination
proof (relation "measure length", goal_cases)
  case (2 s t)
  then obtain c t' where t: "t = c # t'" "\<not> is_comma c"
    by (metis hd_dropWhile list.collapse)
  have "length (dropWhile (Not \<circ> is_comma) t) \<le> length t'"
    using t by (simp add: length_dropWhile_le)
  also have "\<dots> < length t" using t by simp
  also have "\<dots> \<le> length s" using 2 by (simp add: length_dropWhile_le)
  finally show ?case by simp
qed simp

declare comma_tokens.simps [simp del]

lemma comma_tokens_step:
  "dropWhile is_comma s \<noteq> [] \<Longrightarrow> comma_tokens s =
     takeWhile (Not \<circ> is_comma) (dropWhile is_comma s) #
     comma_tokens (dropWhile (Not \<circ> is_comma) (dropWhile is_comma s))"
  by (subst comma_tokens.simps) (simp only: Let_def if_False)

lemma comma_tokens_Nil [simp]: "comma_tokens [] = []"
  by (simp add: comma_tokens.simps)

lemma is_comma_0 [simp]: "\<not> is_comma 0"
  by (simp add: is_comma_def)

lemma comma_tokens_nonempty: "t \<in> set (comma_tokens s) \<Longrightarrow> t \<noteq> [] \<and> set t \<subseteq> set s \<and> 44 \<notin> set t"
proof (induction s rule: comma_tokens.induct)
  case (1 s)
  let ?t = "dropWhile is_comma s"
  show ?case
  proof (cases "?t = []")
    case True
    with "1.prems" show ?thesis by (simp add: comma_tokens.simps [of s])
  next
    case False
    have sub: "set ?t \<subseteq> set s" by (auto dest: set_dropWhileD)
    consider "t = takeWhile (Not \<circ> is_comma) ?t"
      | "t \<in> set (comma_tokens (dropWhile (Not \<circ> is_comma) ?t))"
      using "1.prems" unfolding comma_tokens_step [OF False] by auto
    then show ?thesis
    proof cases
      case 1
      have "takeWhile (Not \<circ> is_comma) ?t \<noteq> []"
        using False hd_dropWhile [OF False] by (cases ?t) auto
      with 1 sub show ?thesis by (auto simp: is_comma_def dest!: set_takeWhileD)
    next
      case 2
      with "1.IH" False have "t \<noteq> [] \<and> set t \<subseteq> set (dropWhile (Not \<circ> is_comma) ?t) \<and> 44 \<notin> set t"
        by blast
      with sub show ?thesis by (meson set_dropWhileD subset_iff)
    qed
  qed
qed

lemma comma_tokens_Cons_comma: "is_comma c \<Longrightarrow> comma_tokens (c # s) = comma_tokens s"
  by (simp add: comma_tokens.simps [of "c # s"] comma_tokens.simps [of s])

text \<open>
  One call on a string \<open>s\<close> at position \<open>length pre\<close>: it skips delimiters \<open>d\<close>, finds the first
  token of \<open>s\<close>, and leaves behind the rest \<open>r\<close> after at most one overwritten delimiter \<open>z\<close>.
\<close>

text \<open>A string with a token: the commas before it, the token, and what follows.\<close>

lemma comma_split:
  assumes "dropWhile is_comma s \<noteq> []"
  obtains d tok rest where "s = d @ tok @ rest" "tok \<noteq> []" "\<forall>c\<in>set d. is_comma c" "\<forall>c\<in>set tok. \<not> is_comma c"
    "rest = [] \<or> is_comma (hd rest)" "comma_tokens s = tok # comma_tokens rest"
proof -
  let ?t = "dropWhile is_comma s"
  let ?tok = "takeWhile (Not \<circ> is_comma) ?t" and ?rest = "dropWhile (Not \<circ> is_comma) ?t"
  have "\<not> is_comma (hd ?t)" using assms by (rule hd_dropWhile)
  then have "?tok \<noteq> []" using assms by (cases ?t) (simp_all del: dropWhile_eq_Nil_conv)
  moreover have "s = takeWhile is_comma s @ ?tok @ ?rest" by simp
  moreover have "\<forall>c\<in>set (takeWhile is_comma s). is_comma c" "\<forall>c\<in>set ?tok. \<not> is_comma c"
    by (auto dest: set_takeWhileD)
  moreover have "?rest = [] \<or> is_comma (hd ?rest)"
    using hd_dropWhile [of "Not \<circ> is_comma" ?t] by (cases "?rest = []") (simp_all del: dropWhile_eq_Nil_conv)
  ultimately show ?thesis using comma_tokens_step [OF assms] by (intro that)
qed

text \<open>The call: the token stands between the commas that are skipped and the byte that ends it.\<close>

lemma strtok_token:
  assumes "\<forall>c\<in>set d. is_comma c" "\<forall>c\<in>set tok. \<not> is_comma c \<and> c \<noteq> 0" "tok \<noteq> []" "is_comma c \<or> c = 0"
  shows "strtok (pre @ d @ tok @ c # post) (length pre) =
    Some (Some (length (pre @ d), length (pre @ d @ tok) + (if c = 0 then 0 else 1), pre @ d @ tok @ 0 # post))"
proof -
  let ?buf = "pre @ d @ tok @ c # post"
  obtain c0 tok' where tok: "tok = c0 # tok'" using assms(3) by (cases tok) auto
  have "scan (\<lambda>c. \<not> is_comma c) ?buf (length pre) = Some (length (pre @ d))"
    using scan_append_zero [of d "\<lambda>c. \<not> is_comma c" c0 pre "tok' @ c # post"] assms(1,2) by (simp add: tok)
  moreover have "rd ?buf (length (pre @ d)) = Some c0" "c0 \<noteq> 0"
    using assms(2) by (simp_all add: tok nth_append)
  moreover have "scan (\<lambda>c. is_comma c \<or> c = 0) ?buf (length (pre @ d)) = Some (length (pre @ d @ tok))"
    using scan_append_zero [of tok "\<lambda>c. is_comma c \<or> c = 0" c "pre @ d" post] assms(2,4) by simp
  moreover have "rd ?buf (length (pre @ d @ tok)) = Some c" by (simp add: nth_append)
  ultimately show ?thesis by (simp add: strtok_def nth_append list_update_append)
qed

lemma strtok_cases:
  assumes "0 \<notin> set s"
  obtains (none) "comma_tokens s = []" "strtok (pre @ s @ 0 # post) (length pre) = Some None"
  | (token) d tok z r where
      "comma_tokens s = tok # comma_tokens r"
      "strtok (pre @ s @ 0 # post) (length pre) =
         Some (Some (length (pre @ d), length (pre @ d @ tok @ z), pre @ d @ tok @ z @ r @ 0 # post))"
      "0 \<notin> set tok" "0 \<notin> set r" "z = [0] \<or> z = [] \<and> r = []"
      "length s = length d + length tok + length z + length r"
proof (cases "dropWhile is_comma s = []")
  case True
  then have all: "\<forall>c\<in>set s. is_comma c" by (simp add: dropWhile_eq_Nil_conv)
  have "scan (\<lambda>c. \<not> is_comma c) (pre @ s @ 0 # post) (length pre) = Some (length pre + length s)"
    by (rule scan_append_zero) (use all in auto)
  then have "strtok (pre @ s @ 0 # post) (length pre) = Some None"
    by (simp add: strtok_def nth_append)
  moreover have "comma_tokens s = []" using True by (simp add: comma_tokens.simps [of s])
  ultimately show ?thesis by (rule none [rotated])
next
  case False
  then obtain d tok rest where s: "s = d @ tok @ rest" "tok \<noteq> []" "\<forall>c\<in>set d. is_comma c"
    "\<forall>c\<in>set tok. \<not> is_comma c" "rest = [] \<or> is_comma (hd rest)" "comma_tokens s = tok # comma_tokens rest"
    by (rule comma_split)
  have nz: "0 \<notin> set tok" "0 \<notin> set rest" using assms s(1) by auto
  then have tok: "\<forall>c\<in>set tok. \<not> is_comma c \<and> c \<noteq> 0" using s(4) by auto
  show ?thesis
  proof (cases rest)
    case Nil
    then show ?thesis
      using strtok_token [OF s(3) tok s(2), of 0 pre post] s nz by (intro token [of tok "[]" d "[]"]) simp_all
  next
    case (Cons c r)
    with s(5) nz have "is_comma c" "c \<noteq> 0" by auto
    then show ?thesis
      using strtok_token [OF s(3) tok s(2), of c pre "r @ 0 # post"] s nz Cons
      by (intro token [of tok r d "[0]"]) (simp_all add: comma_tokens_Cons_comma)
  qed
qed

end
