(* ===== verification/Handshake.thy ===== *)
theory Handshake
  imports Client Strtok
begin

text \<open>
  The HTTP side of \<open>websocket.c\<close>: \<open>ws_handle_new\<close> (the request line), \<open>ws_handle_http\<close> (a
  header line) and \<open>ws_upgrade_http\<close> (the end of the header). A line is the NUL-terminated
  string at the start of the read buffer; the handlers cut it up in place.
\<close>

section \<open>The request line\<close>

definition ws_handle_new :: "websocket \<Rightarrow> (int \<times> websocket) option" where
  "ws_handle_new ws =
     do { get \<leftarrow> strncmp_eq (read_buffer ws) 0 (bytes ''GET '');
          if \<not> get then Some (1, ws)
          else do {
            u \<leftarrow> scan (\<lambda>c. c = 0 \<or> isspace c) (read_buffer ws) 4;
            buf \<leftarrow> wr (read_buffer ws) u 0;
            let ws1 = ws\<lparr>read_buffer := buf\<rparr>;
            http \<leftarrow> strncmp_eq buf (u + 1) (bytes ''HTTP/'');
            if \<not> http then Some (1, ws1)
            else do { path \<leftarrow> cstr buf 4;
                      Some (0, ws1\<lparr>state := ws_http, request_path := Some path\<rparr>) } } }"

section \<open>Upgrading the connection\<close>

definition RFC6455_MAGIC_KEY :: cstring where
  "RFC6455_MAGIC_KEY = bytes ''258EAFA5-E914-47DA-95CA-C5AB0DC85B11''"

text \<open>A chain \<open>network_send_str(fd, s1) || network_send_str(fd, s2) || ...\<close>.\<close>

fun send_strs :: "env \<Rightarrow> int \<Rightarrow> cstring list \<Rightarrow> trace \<Rightarrow> (int \<times> trace) option" where
  "send_strs E fd [] tr = Some (0, tr)"
| "send_strs E fd (s # ss) tr =
     do { (r, tr1) \<leftarrow> network_send_str E fd s tr;
          if r \<noteq> 0 then Some (1, tr1) else send_strs E fd ss tr1 }"

text \<open>\<open>ws_close(ws, ws_close_http, reason); return 0;\<close>\<close>

definition ws_abort_http ::
  "env \<Rightarrow> websocket \<Rightarrow> cstring option \<Rightarrow> trace \<Rightarrow> (int \<times> websocket \<times> trace) option" where
  "ws_abort_http E ws reason tr =
     do { (_, ws1, tr1) \<leftarrow> ws_close E ws ws_close_http reason tr; Some (0, ws1, tr1) }"

definition crlf :: cstring where
  "crlf = [13, 10]"

text \<open>
  The accept key: the encoded digest, then the line end with its NUL, are written to a local array
  that has nettle's room for the encoding and three bytes more. The result is the string in it.
\<close>

definition SHA1_DIGEST_SIZE :: nat where
  "SHA1_DIGEST_SIZE = 20"

definition ws_accept_key :: "services \<Rightarrow> cstring \<Rightarrow> cstring option" where
  "ws_accept_key SV key =
     do { let ws_accept_digest = take SHA1_DIGEST_SIZE (nettle_sha1 SV (key @ RFC6455_MAGIC_KEY));
          let encoded = nettle_base64 SV ws_accept_digest;
          let buf = replicate (BASE64_ENCODE_LENGTH SV SHA1_DIGEST_SIZE + 3) 0;
          buf \<leftarrow> put buf 0 encoded;
          buf \<leftarrow> put buf (length encoded) (crlf @ [0]);
          cstr buf 0 }"

definition ws_upgrade_http ::
  "env \<Rightarrow> services \<Rightarrow> websocket \<Rightarrow> trace \<Rightarrow> (int \<times> websocket \<times> trace) option" where
  "ws_upgrade_http E SV ws tr =
     (if websocket_version ws = 13 \<and> socket_key ws \<noteq> None \<and> want_upgrade ws = 3
      then do {
        (r, ws1, tr1) \<leftarrow> client_connect E SV ws tr;
        if r \<noteq> 0 then ws_abort_http E ws1 (Some (bytes ''500 Peer connection failed'')) tr1
        else do {
          (r, tr2) \<leftarrow> send_strs E (ws_fd ws1)
                        [bytes ''HTTP/1.1 101 Upgrading'' @ crlf,
                         bytes ''Upgrade: websocket'' @ crlf,
                         bytes ''Connection: Upgrade'' @ crlf] tr1;
          if r \<noteq> 0 then ws_abort_http E ws1 None tr2
          else do {
            key \<leftarrow> socket_key ws1;
            accept \<leftarrow> ws_accept_key SV key;
            (r, tr3) \<leftarrow> send_strs E (ws_fd ws1) [bytes ''Sec-WebSocket-Accept: '', accept] tr2;
            if r \<noteq> 0 then ws_abort_http E ws1 None tr3
            else do {
              (r, tr4) \<leftarrow> (if peer_protocol (peer ws1) < length (protocol ws1)
                           then send_strs E (ws_fd ws1)
                                  [bytes ''Sec-WebSocket-Protocol: '',
                                   protocol ws1 ! peer_protocol (peer ws1), crlf] tr3
                           else Some (0, tr3));
              if r \<noteq> 0 then ws_abort_http E ws1 None tr4
              else do {
                let ws2 = ws1\<lparr>state := ws_open\<rparr>;
                (r, tr5) \<leftarrow> network_send_str E (ws_fd ws2) crlf tr4;
                if r \<noteq> 0 then ws_abort_http E ws2 None tr5
                else Some (0, ws2, tr5) } } } } }
      else if websocket_version ws \<noteq> 13
      then ws_abort_http E ws (Some (bytes ''426 Unsupported protocol version'')) tr
      else Some (1, ws, tr))"

section \<open>Header lines\<close>

lemma length_rtrim_at [mem_length]: "rtrim_at buf v p = Some buf' \<Longrightarrow> length buf' = length buf"
  by (induction p arbitrary: buf) (auto split: if_splits elim!: bind_SomeE simp: mem_simps)

text \<open>The loop over the offered subprotocols: trim each token in place, add it if it is new.\<close>

function ws_protocol_offers :: "u8 list \<Rightarrow> nat \<Rightarrow> cstring list \<Rightarrow> (u8 list \<times> cstring list) option" where
  "ws_protocol_offers buf pos protos =
     do { t \<leftarrow> strtok buf pos;
          case t of
            None \<Rightarrow> Some (buf, protos)
          | Some (s, next, buf1) \<Rightarrow>
              do { v \<leftarrow> scan (\<lambda>c. \<not> (c \<noteq> 0 \<and> isspace c)) buf1 s;
                   l \<leftarrow> strlen_at buf1 v;
                   buf2 \<leftarrow> rtrim_at buf1 v l;
                   p \<leftarrow> cstr buf2 v;
                   ws_protocol_offers buf2 next (if p \<in> set protos then protos else protos @ [p]) } }"
  by pat_completeness auto

lemma strtok_progress:
  assumes "strtok buf pos = Some (Some (s, next, buf1))"
  shows "length buf1 = length buf \<and> pos < next \<and> next \<le> length buf"
proof -
  from assms obtain c e where s: "scan (\<lambda>c. \<not> is_comma c) buf pos = Some s"
    and c: "rd buf s = Some c" "c \<noteq> 0" and e: "scan (\<lambda>c. is_comma c \<or> c = 0) buf s = Some e"
    and rest: "next = e \<and> buf1 = buf \<or> next = Suc e \<and> length buf1 = length buf"
    by (auto simp: strtok_def wr_eq_Some elim!: bind_SomeE split: if_splits)
  from scan_SomeD [OF s] scan_SomeD [OF e] c have "s \<noteq> e" by (auto simp: mem_simps)
  with scan_SomeD [OF s] scan_SomeD [OF e] rest show ?thesis by auto
qed

termination ws_protocol_offers
  by (relation "measure (\<lambda>(buf, pos, protos). length buf - pos)")
    (auto dest!: strtok_progress length_rtrim_at)

declare ws_protocol_offers.simps [simp del]

text \<open>The chain of header names; \<open>v\<close> is the position of the value in the read buffer.\<close>

definition ws_header_field :: "cstring \<Rightarrow> nat \<Rightarrow> websocket \<Rightarrow> websocket option" where
  "ws_header_field name v ws =
     do { val \<leftarrow> cstr (read_buffer ws) v;
          if name = bytes ''Sec-WebSocket-Version''
          then Some (ws\<lparr>websocket_version := ucast (strtoul 10 val)\<rparr>)
          else if name = bytes ''Sec-WebSocket-Key''
          then do { l \<leftarrow> strlen_at (read_buffer ws) v;
                    buf \<leftarrow> rtrim_at (read_buffer ws) v l;
                    key \<leftarrow> cstr buf v;
                    Some (ws\<lparr>read_buffer := buf, socket_key := Some key\<rparr>) }
          else if name = bytes ''Upgrade'' \<and> strcasecmp_eq val (bytes ''websocket'')
          then Some (ws\<lparr>want_upgrade := want_upgrade ws OR 1\<rparr>)
          else do {
            (conn, buf) \<leftarrow>
              (if name = bytes ''Connection''
               then do { buf \<leftarrow> xstr_lower (read_buffer ws) v;
                         low \<leftarrow> cstr buf v;
                         Some (strstr low (bytes ''upgrade''), buf) }
               else Some (False, read_buffer ws));
            let ws1 = ws\<lparr>read_buffer := buf\<rparr>;
            if conn then Some (ws1\<lparr>want_upgrade := want_upgrade ws1 OR 2\<rparr>)
            else if name = bytes ''Sec-WebSocket-Protocol''
            then do { (buf2, protos) \<leftarrow> ws_protocol_offers buf v (protocol ws1);
                      Some (ws1\<lparr>read_buffer := buf2, protocol := protos\<rparr>) }
            else if length (header ws1) < WS_HEADER_LIMIT
            then do { val1 \<leftarrow> cstr buf v;
                      Some (ws1\<lparr>header := header ws1 @ [\<lparr>tag = name, value = val1\<rparr>]\<rparr>) }
            else Some ws1 } }"

definition ws_handle_http ::
  "env \<Rightarrow> services \<Rightarrow> websocket \<Rightarrow> trace \<Rightarrow> (int \<times> websocket \<times> trace) option" where
  "ws_handle_http E SV ws tr =
     do { b \<leftarrow> rd (read_buffer ws) 0;
          if b = 0 then ws_upgrade_http E SV ws tr
          else if isspace b then ws_abort_http E ws (Some (bytes ''500 Header folding'')) tr
          else do {
            colon \<leftarrow> scan (\<lambda>c. c = 58 \<or> c = 0) (read_buffer ws) 0;
            c \<leftarrow> rd (read_buffer ws) colon;
            if c = 0 then ws_abort_http E ws (Some (bytes ''500 Header format'')) tr
            else do {
              buf \<leftarrow> wr (read_buffer ws) colon 0;
              v \<leftarrow> scan (\<lambda>c. \<not> isspace c) buf (colon + 1);
              name \<leftarrow> cstr buf 0;
              ws1 \<leftarrow> ws_header_field name v (ws\<lparr>read_buffer := buf\<rparr>);
              Some (0, ws1, tr) } } }"

end
