(* ===== verification/Handshake_Spec.thy ===== *)
theory Handshake_Spec
  imports Handshake
begin

text \<open>
  What the handlers of \<open>Handshake\<close> compute, as functions of the line they are given, and their
  total correctness.
\<close>

section \<open>Subprotocol offers\<close>

definition add_offer :: "cstring \<Rightarrow> cstring list \<Rightarrow> cstring list" where
  "add_offer t protos = (let p = rtrim (ltrim t) in if p \<in> set protos then protos else protos @ [p])"

lemma set_rtrim: "set (rtrim s) \<subseteq> set s"
  by (auto simp: rtrim_def dest: set_dropWhileD)

lemma set_ltrim: "set (ltrim s) \<subseteq> set s"
  by (auto simp: ltrim_def dest: set_dropWhileD)

lemma distinct_add_offer: "distinct protos \<Longrightarrow> distinct (add_offer t protos)"
  by (simp add: add_offer_def Let_def)

lemma distinct_offers: "distinct protos \<Longrightarrow> distinct (fold add_offer ts protos)"
  by (induction ts arbitrary: protos) (simp_all add: distinct_add_offer)

lemma prefix_add_offer: "prefix protos (add_offer t protos)"
  by (simp add: add_offer_def Let_def)

lemma prefix_offers: "prefix protos (fold add_offer ts protos)"
proof (induction ts arbitrary: protos)
  case (Cons t ts)
  with prefix_add_offer [of protos t] show ?case by (auto intro: prefix_order.trans)
qed simp

lemma set_offers: "set (fold add_offer ts protos) = set protos \<union> (\<lambda>t. rtrim (ltrim t)) ` set ts"
  by (induction ts arbitrary: protos) (auto simp: add_offer_def Let_def)

text \<open>Trimming one token in place, the token being followed by a NUL.\<close>

lemma trim_token:
  assumes "0 \<notin> set tok" "rest = 0 # post"
  obtains J where
    "scan (\<lambda>c. \<not> (c \<noteq> 0 \<and> isspace c)) (pre @ tok @ rest) (length pre) =
       Some (length pre + (length tok - length (ltrim tok)))"
    "strlen_at (pre @ tok @ rest) (length pre + (length tok - length (ltrim tok))) =
       Some (length (ltrim tok))"
    "rtrim_at (pre @ tok @ rest) (length pre + (length tok - length (ltrim tok))) (length (ltrim tok)) =
       Some (pre @ J @ rest)"
    "cstr (pre @ J @ rest) (length pre + (length tok - length (ltrim tok))) = Some (rtrim (ltrim tok))"
    "length J = length tok"
proof -
  define sp where "sp = takeWhile isspace tok"
  define m where "m = ltrim tok"
  have tok: "tok = sp @ m" by (simp add: sp_def m_def ltrim_def)
  have v: "length pre + (length tok - length m) = length (pre @ sp)" by (simp add: tok)
  have spc: "\<forall>c\<in>set sp. c \<noteq> 0 \<and> isspace c"
    using assms(1) by (auto simp: sp_def dest: set_takeWhileD)
  have nm: "0 \<notin> set m" using assms(1) tok by simp
  obtain d ds where hd: "m @ rest = d # ds" "\<not> isspace d"
  proof (cases m)
    case Nil
    with assms(2) that show ?thesis by simp
  next
    case (Cons d ds)
    have "\<not> isspace d" using hd_dropWhile [of isspace tok] Cons
      by (simp add: m_def ltrim_def del: dropWhile_eq_Nil_conv)
    with Cons that show ?thesis by simp
  qed
  have "scan (\<lambda>c. \<not> (c \<noteq> 0 \<and> isspace c)) (pre @ sp @ d # ds) (length pre) =
      Some (length pre + length sp)"
    by (rule scan_append_zero) (use hd(2) spc in auto)
  then have 1: "scan (\<lambda>c. \<not> (c \<noteq> 0 \<and> isspace c)) (pre @ tok @ rest) (length pre) =
      Some (length (pre @ sp))"
    by (simp add: tok hd(1))
  have 2: "strlen_at (pre @ tok @ rest) (length (pre @ sp)) = Some (length m)"
    using strlen_at_append [OF nm, of "pre @ sp" post] by (simp add: tok assms(2))
  define J where "J = sp @ rtrim m @ replicate (length m - length (rtrim m)) 0"
  have 3: "rtrim_at (pre @ tok @ rest) (length (pre @ sp)) (length m) = Some (pre @ J @ rest)"
    using rtrim_at_append [of "pre @ sp" m rest] by (simp add: tok J_def)
  have nr: "0 \<notin> set (rtrim m)" using nm set_rtrim [of m] by auto
  obtain post' where "replicate (length m - length (rtrim m)) 0 @ rest = 0 # post'"
    using assms(2) by (cases "length m - length (rtrim m)") auto
  then have 4: "cstr (pre @ J @ rest) (length (pre @ sp)) = Some (rtrim m)"
    using cstr_append [OF nr, of "pre @ sp" post'] by (simp add: J_def)
  have 5: "length J = length tok"
    using length_rtrim [of m] by (simp add: J_def tok)
  show ?thesis
    by (rule that [of J]) (use 1 2 3 4 5 in \<open>simp_all only: v m_def [symmetric]\<close>)
qed

lemma ws_protocol_offers_spec:
  "0 \<notin> set s \<Longrightarrow> \<exists>J. ws_protocol_offers (pre @ s @ 0 # post) (length pre) protos =
     Some (pre @ J @ 0 # post, fold add_offer (comma_tokens s) protos) \<and> length J = length s"
proof (induction "length s" arbitrary: pre s protos rule: less_induct)
  case less
  from less.prems show ?case
  proof (cases rule: strtok_cases [of s pre post])
    case none
    then show ?thesis by (subst ws_protocol_offers.simps) simp
  next
    case (token d tok z r)
    obtain post' where post': "z @ r @ 0 # post = 0 # post'" using token(5) by auto
    have "tok \<noteq> []" using comma_tokens_nonempty [of tok s] token(1) by simp
    then have shorter: "length r < length s" using token(6) by (cases tok) auto
    obtain J where J: "length J = length tok"
      "ws_protocol_offers (pre @ s @ 0 # post) (length pre) protos =
         ws_protocol_offers ((pre @ d @ J @ z) @ r @ 0 # post) (length (pre @ d @ J @ z))
           (add_offer tok protos)"
    proof (rule trim_token [OF token(3) post', of "pre @ d"], goal_cases)
      case (1 J)
      then have "ws_protocol_offers (pre @ s @ 0 # post) (length pre) protos =
         ws_protocol_offers ((pre @ d @ J @ z) @ r @ 0 # post) (length (pre @ d @ J @ z))
           (add_offer tok protos)"
        by (subst ws_protocol_offers.simps) (simp add: token(2) add_offer_def Let_def)
      with 1 show ?case by (intro that [of J]) simp_all
    qed
    from less.hyps [OF shorter token(4), of "pre @ d @ J @ z" "add_offer tok protos"]
    obtain J' where J': "length J' = length r"
      "ws_protocol_offers ((pre @ d @ J @ z) @ r @ 0 # post) (length (pre @ d @ J @ z)) (add_offer tok protos) =
         Some ((pre @ d @ J @ z) @ J' @ 0 # post, fold add_offer (comma_tokens r) (add_offer tok protos))"
      by blast
    show ?thesis
      by (rule exI [of _ "d @ J @ z @ J'"]) (use J J' token(1,6) in simp)
  qed
qed

section \<open>One header\<close>

definition header_effect :: "cstring \<Rightarrow> cstring \<Rightarrow> websocket \<Rightarrow> websocket" where
  "header_effect name val ws =
     (if name = bytes ''Sec-WebSocket-Version'' then ws\<lparr>websocket_version := ucast (strtoul 10 val)\<rparr>
      else if name = bytes ''Sec-WebSocket-Key'' then ws\<lparr>socket_key := Some (rtrim val)\<rparr>
      else if name = bytes ''Upgrade'' \<and> strcasecmp_eq val (bytes ''websocket'')
      then ws\<lparr>want_upgrade := want_upgrade ws OR 1\<rparr>
      else if name = bytes ''Connection'' \<and> strstr (map tolower val) (bytes ''upgrade'')
      then ws\<lparr>want_upgrade := want_upgrade ws OR 2\<rparr>
      else if name = bytes ''Sec-WebSocket-Protocol''
      then ws\<lparr>protocol := fold add_offer (comma_tokens val) (protocol ws)\<rparr>
      else if length (header ws) < WS_HEADER_LIMIT
      then ws\<lparr>header := header ws @
             [\<lparr>tag = name, value = (if name = bytes ''Connection'' then map tolower val else val)\<rparr>]\<rparr>
      else ws)"

lemma bytes_eq_iff: "bytes s = bytes t \<longleftrightarrow> map (\<lambda>c. (of_nat (of_char c) :: u8)) s = map (\<lambda>c. of_nat (of_char c)) t"
  by (simp add: bytes_def)

lemma header_names_distinct [simp]:
  "bytes ''Sec-WebSocket-Key'' \<noteq> bytes ''Sec-WebSocket-Version''"
  "bytes ''Upgrade'' \<noteq> bytes ''Sec-WebSocket-Version''" "bytes ''Upgrade'' \<noteq> bytes ''Sec-WebSocket-Key''"
  "bytes ''Connection'' \<noteq> bytes ''Sec-WebSocket-Version''"
  "bytes ''Connection'' \<noteq> bytes ''Sec-WebSocket-Key''" "bytes ''Connection'' \<noteq> bytes ''Upgrade''"
  "bytes ''Sec-WebSocket-Protocol'' \<noteq> bytes ''Sec-WebSocket-Version''"
  "bytes ''Sec-WebSocket-Protocol'' \<noteq> bytes ''Sec-WebSocket-Key''"
  "bytes ''Sec-WebSocket-Protocol'' \<noteq> bytes ''Upgrade''"
  "bytes ''Sec-WebSocket-Protocol'' \<noteq> bytes ''Connection''"
  by (simp_all add: bytes_def)

declare header_names_distinct [symmetric, simp]

lemma ws_header_field_spec:
  assumes nz: "0 \<notin> set val"
  shows "\<exists>J. length J = length val \<and>
    ws_header_field name (length pre) (ws\<lparr>read_buffer := pre @ val @ 0 # post\<rparr>) =
      Some (header_effect name val (ws\<lparr>read_buffer := pre @ J @ 0 # post\<rparr>))"
proof -
  note simps = ws_header_field_def header_effect_def
  let ?f = "ws_header_field name (length pre) (ws\<lparr>read_buffer := pre @ val @ 0 # post\<rparr>)"
  have val: "cstr (pre @ val @ 0 # post) (length pre) = Some val" using nz by simp
  have len: "strlen_at (pre @ val @ 0 # post) (length pre) = Some (length val)" using nz by simp
  consider (ver) "name = bytes ''Sec-WebSocket-Version''" | (key) "name = bytes ''Sec-WebSocket-Key''"
    | (conn) "name = bytes ''Connection''" | (proto) "name = bytes ''Sec-WebSocket-Protocol''"
    | (other) "name \<noteq> bytes ''Sec-WebSocket-Version''" "name \<noteq> bytes ''Sec-WebSocket-Key''"
        "name \<noteq> bytes ''Connection''" "name \<noteq> bytes ''Sec-WebSocket-Protocol''"
    by blast
  then show ?thesis
  proof cases
    case ver
    then show ?thesis using val by (intro exI [of _ val]) (simp add: simps)
  next
    case key
    let ?J = "rtrim val @ replicate (length val - length (rtrim val)) 0"
    have "cstr (pre @ ?J @ 0 # post) (length pre) = Some (rtrim val)"
    proof -
      obtain post' where "replicate (length val - length (rtrim val)) 0 @ 0 # post = 0 # post'"
        by (cases "length val - length (rtrim val)") auto
      moreover have "0 \<notin> set (rtrim val)" using nz set_rtrim [of val] by auto
      ultimately show ?thesis using cstr_append [of "rtrim val" pre post'] by simp
    qed
    then show ?thesis using key val len rtrim_at_append [of pre val "0 # post"] length_rtrim [of val]
      by (intro exI [of _ ?J]) (simp add: simps)
  next
    case conn
    have low: "xstr_lower (pre @ val @ 0 # post) (length pre) = Some (pre @ map tolower val @ 0 # post)"
      by (rule xstr_lower_append [OF nz])
    have "0 \<notin> set (map tolower val)" using nz by (auto simp: eq_commute [of 0])
    then have "cstr (pre @ map tolower val @ 0 # post) (length pre) = Some (map tolower val)" by simp
    then show ?thesis using conn val low
      by (intro exI [of _ "map tolower val"]) (simp add: simps)
  next
    case proto
    obtain J where "length J = length val"
      "ws_protocol_offers (pre @ val @ 0 # post) (length pre) (protocol ws) =
        Some (pre @ J @ 0 # post, fold add_offer (comma_tokens val) (protocol ws))"
      using ws_protocol_offers_spec [OF nz, of pre post "protocol ws"] by blast
    then show ?thesis using proto val
      by (intro exI [of _ J]) (simp add: simps)
  next
    case other
    then show ?thesis using val by (intro exI [of _ val]) (simp add: simps)
  qed
qed

section \<open>One header line\<close>

text \<open>Name and value of a header line; no colon, no header.\<close>

definition header_line :: "cstring \<Rightarrow> (cstring \<times> cstring) option" where
  "header_line line =
     (case dropWhile (\<lambda>c. c \<noteq> 58) line of
        [] \<Rightarrow> None
      | _ # v \<Rightarrow> Some (takeWhile (\<lambda>c. c \<noteq> 58) line, ltrim v))"

lemma header_line_SomeE:
  assumes "header_line line = Some (name, val)"
  obtains sp where "line = name @ 58 # sp @ val" "58 \<notin> set name" "\<forall>c\<in>set sp. isspace c"
    "val = ltrim (sp @ val)"
proof -
  from assms obtain x v where xv: "dropWhile (\<lambda>c. c \<noteq> 58) line = x # v" "val = ltrim v"
    "name = takeWhile (\<lambda>c. c \<noteq> 58) line"
    unfolding header_line_def by (cases "dropWhile (\<lambda>c. c \<noteq> 58) line") auto
  have "x = 58" using xv(1) unfolding dropWhile_eq_Cons_conv by simp
  with xv have v: "dropWhile (\<lambda>c. c \<noteq> 58) line = 58 # v" "val = ltrim v"
    "name = takeWhile (\<lambda>c. c \<noteq> 58) line" by simp_all
  have "line = name @ 58 # v" by (metis v(1,3) takeWhile_dropWhile_id)
  moreover have "v = takeWhile isspace v @ val" by (simp add: v(2) ltrim_def)
  moreover have "58 \<notin> set name" using v(3) by (auto dest: set_takeWhileD)
  ultimately show ?thesis using that [of "takeWhile isspace v"] v(2)
    by (metis set_takeWhileD)
qed

lemma header_line_None: "header_line line = None \<longleftrightarrow> 58 \<notin> set line"
proof -
  have "header_line line = None \<longleftrightarrow> dropWhile (\<lambda>c. c \<noteq> 58) line = []"
    by (simp add: header_line_def split: list.split del: dropWhile_eq_Nil_conv)
  also have "\<dots> \<longleftrightarrow> 58 \<notin> set line" by auto
  finally show ?thesis .
qed

lemma ltrim_hd: "ltrim s = c # cs \<Longrightarrow> \<not> isspace c"
  using hd_dropWhile [of isspace s] by (auto simp: ltrim_def simp del: dropWhile_eq_Nil_conv)

lemma ws_handle_http_empty:
  "read_buffer ws = 0 # post \<Longrightarrow> ws_handle_http E SV ws tr = ws_upgrade_http E SV ws tr"
  by (simp add: ws_handle_http_def)

lemma ws_handle_http_folding:
  "read_buffer ws = c # post \<Longrightarrow> isspace c \<Longrightarrow>
     ws_handle_http E SV ws tr = ws_abort_http E ws (Some (bytes ''500 Header folding'')) tr"
  by (auto simp: ws_handle_http_def)

lemma ws_handle_http_format:
  assumes "read_buffer ws = line @ 0 # post" "0 \<notin> set line" "line = c # cs" "\<not> isspace c"
    "header_line line = None"
  shows "ws_handle_http E SV ws tr = ws_abort_http E ws (Some (bytes ''500 Header format'')) tr"
proof -
  have "scan (\<lambda>c. c = 58 \<or> c = 0) (line @ 0 # post) 0 = Some (length line)"
    using scan_append_zero [of line "\<lambda>c. c = 58 \<or> c = 0" 0 "[]" post] assms(2,5)
    by (auto simp: header_line_None)
  with assms show ?thesis by (auto simp: ws_handle_http_def nth_append)
qed

lemma ws_handle_http_header:
  assumes buf: "read_buffer ws = line @ 0 # post" and nz: "0 \<notin> set line"
    and line: "line = c # cs" "\<not> isspace c" "header_line line = Some (name, val)"
  obtains J where "length J = length line"
    "ws_handle_http E SV ws tr =
       Some (0, header_effect name val (ws\<lparr>read_buffer := J @ 0 # post\<rparr>), tr)"
proof -
  from line(3) obtain sp where l: "line = name @ 58 # sp @ val" "58 \<notin> set name"
    "\<forall>c\<in>set sp. isspace c" "val = ltrim (sp @ val)"
    by (rule header_line_SomeE)
  have z: "0 \<notin> set name" "0 \<notin> set val" using nz l(1) by auto
  let ?buf = "name @ 0 # sp @ val @ 0 # post"
  have colon: "scan (\<lambda>c. c = 58 \<or> c = 0) (line @ 0 # post) 0 = Some (length name)"
    using scan_append_zero [of name "\<lambda>c. c = 58 \<or> c = 0" 58 "[]" "sp @ val @ 0 # post"] z l by auto
  obtain d ds where d: "val @ 0 # post = d # ds" "\<not> isspace d"
    using ltrim_hd [of "sp @ val"] l(4) by (cases val) auto
  have v: "scan (\<lambda>c. \<not> isspace c) ?buf (length name + 1) = Some (length (name @ 0 # sp))"
    using scan_append_zero [of sp "\<lambda>c. \<not> isspace c" d "name @ [0]" ds] l(3) d by simp
  have n: "cstr ?buf 0 = Some name" using cstr_string [OF z(1)] .
  have r0: "rd (line @ 0 # post) 0 = Some c" "c \<noteq> 0" using line(1) nz by auto
  obtain J where J: "length J = length val"
    "ws_header_field name (length (name @ 0 # sp)) (ws\<lparr>read_buffer := (name @ 0 # sp) @ val @ 0 # post\<rparr>) =
      Some (header_effect name val (ws\<lparr>read_buffer := (name @ 0 # sp) @ J @ 0 # post\<rparr>))"
    using ws_header_field_spec [OF z(2), of name "name @ 0 # sp"] by blast
  have "ws_handle_http E SV ws tr =
       Some (0, header_effect name val (ws\<lparr>read_buffer := (name @ 0 # sp @ J) @ 0 # post\<rparr>), tr)"
    using colon v n J(2) r0 line(2)
    by (simp add: ws_handle_http_def buf l(1) nth_append list_update_append rd_def)
  with J(1) l(1) show ?thesis by (intro that [of "name @ 0 # sp @ J"]) simp_all
qed

section \<open>The request line\<close>

text \<open>The path of an acceptable request line.\<close>

definition request_line :: "cstring \<Rightarrow> cstring option" where
  "request_line line =
     (if prefix (bytes ''GET '') line
      then case dropWhile (\<lambda>c. \<not> isspace c) (drop 4 line) of
             [] \<Rightarrow> None
           | _ # proto \<Rightarrow>
               if prefix (bytes ''HTTP/'') proto
               then Some (takeWhile (\<lambda>c. \<not> isspace c) (drop 4 line)) else None
      else None)"

lemma request_rest_split:
  fixes r :: cstring
  obtains c rest where "r @ 0 # 10 # post = takeWhile (\<lambda>c. \<not> isspace c) r @ c # rest" "c = 0 \<or> isspace c"
    "strncmp_eq rest 0 (bytes ''HTTP/'') =
       Some (case dropWhile (\<lambda>c. \<not> isspace c) r of [] \<Rightarrow> False | _ # proto \<Rightarrow> prefix (bytes ''HTTP/'') proto)"
proof (cases "dropWhile (\<lambda>c. \<not> isspace c) r")
  case Nil
  have "takeWhile (\<lambda>c. \<not> isspace c) r = r"
    using takeWhile_dropWhile_id [of "\<lambda>c. \<not> isspace c" r] unfolding Nil by (simp only: append_Nil2)
  then have "r @ 0 # 10 # post = takeWhile (\<lambda>c. \<not> isspace c) r @ 0 # 10 # post" by (simp only:)
  then show ?thesis by (rule that) (simp_all add: Nil bytes_def del: dropWhile_eq_Nil_conv takeWhile_eq_all_conv)
next
  case (Cons c proto)
  have "isspace c" using Cons unfolding dropWhile_eq_Cons_conv by simp
  moreover have "r = takeWhile (\<lambda>c. \<not> isspace c) r @ c # proto"
    using takeWhile_dropWhile_id [of "\<lambda>c. \<not> isspace c" r] Cons by simp
  moreover have "0 \<notin> set (bytes ''HTTP/'')" by (simp add: bytes_def)
  ultimately show ?thesis
    using Cons strncmp_eq_string [of "bytes ''HTTP/''" proto]
    by (intro that [of c "proto @ 0 # 10 # post"]) (metis append_Cons append_assoc, simp_all)
qed

text \<open>Terminating the path leaves the line end in its place.\<close>

lemma line_end_kept:
  assumes "u \<le> length line"
  obtains J where "(line @ 0 # 10 # post)[u := 0] = J @ 0 # 10 # post" "length J = length line"
  using assms
  by (cases "u = length line")
    (auto simp: list_update_append intro: that [of line] that [of "line[u := 0]"])

lemma ws_handle_new_get:
  assumes buf: "read_buffer ws = line @ 0 # 10 # post" and nz: "0 \<notin> set line" and get: "prefix (bytes ''GET '') line"
  defines "u \<equiv> 4 + length (takeWhile (\<lambda>c. \<not> isspace c) (drop 4 line))"
  shows "ws_handle_new ws = (let ws1 = ws\<lparr>read_buffer := (line @ 0 # 10 # post)[u := 0]\<rparr> in
    Some (case request_line line of None \<Rightarrow> (1, ws1) | Some path \<Rightarrow> (0, ws1\<lparr>state := ws_http, request_path := Some path\<rparr>)))"
proof -
  define g where "g = bytes ''GET ''"
  define r where "r = drop 4 line"
  define path where "path = takeWhile (\<lambda>c. \<not> isspace c) r"
  have g: "length g = 4" "0 \<notin> set g" by (simp_all add: g_def bytes_def)
  have line: "line = g @ r" using get g(1) by (auto simp: prefix_def g_def r_def)
  have pnz: "\<forall>c\<in>set path. c \<noteq> 0 \<and> \<not> isspace c"
    using nz line by (auto simp: path_def dest: set_takeWhileD)
  obtain c rest where split: "r @ 0 # 10 # post = path @ c # rest" "c = 0 \<or> isspace c"
    and http: "strncmp_eq rest 0 (bytes ''HTTP/'') =
      Some (case dropWhile (\<lambda>c. \<not> isspace c) r of [] \<Rightarrow> False | _ # proto \<Rightarrow> prefix (bytes ''HTTP/'') proto)"
    using request_rest_split [of r post] unfolding path_def .
  define buf1 where "buf1 = g @ path @ 0 # rest"
  have "strncmp_eq (line @ 0 # 10 # post) 0 g = Some True"
    using strncmp_eq_string [OF g(2)] get by (simp add: g_def)
  moreover have "scan (\<lambda>c. c = 0 \<or> isspace c) (line @ 0 # 10 # post) 4 = Some u"
    using scan_append_zero [of path "\<lambda>c. c = 0 \<or> isspace c" c g rest] pnz split g(1)
    by (auto simp: line u_def path_def)
  moreover have upd: "(line @ 0 # 10 # post)[u := 0] = buf1" "u < length (line @ 0 # 10 # post)"
    using split(1) g(1) by (simp_all add: line u_def buf1_def list_update_append path_def [symmetric])
  moreover have "strncmp_eq buf1 (u + 1) (bytes ''HTTP/'') = strncmp_eq rest 0 (bytes ''HTTP/'')"
    using strncmp_eq_prefix [of "g @ path @ [0]" rest "bytes ''HTTP/''"]
      strncmp_eq_prefix [of "[]" rest "bytes ''HTTP/''"] g(1)
    by (simp add: buf1_def u_def path_def [symmetric] r_def [symmetric] add.commute)
  moreover have "cstr buf1 4 = Some path"
    using cstr_append [of path g rest] pnz g(1) by (auto simp: buf1_def)
  ultimately show ?thesis
    using http get
    by (simp add: ws_handle_new_def buf wr_def g_def [symmetric] request_line_def r_def [symmetric] path_def [symmetric] Let_def
        split: list.split del: dropWhile_eq_Nil_conv)
qed

text \<open>The line feed of the terminator is still behind the line, so a line without a protocol part
is compared against that and refused.\<close>

lemma ws_handle_new_spec:
  assumes buf: "read_buffer ws = line @ 0 # 10 # post" and nz: "0 \<notin> set line"
  obtains J where "length J = length line"
    "ws_handle_new ws =
       Some (case request_line line of
               None \<Rightarrow> (1, ws\<lparr>read_buffer := J @ 0 # 10 # post\<rparr>)
             | Some path \<Rightarrow>
                 (0, ws\<lparr>read_buffer := J @ 0 # 10 # post, state := ws_http, request_path := Some path\<rparr>))"
proof (cases "prefix (bytes ''GET '') line")
  case False
  have "0 \<notin> set (bytes ''GET '')" by (simp add: bytes_def)
  note get = strncmp_eq_string [OF this, of line "10 # post"]
  have "ws\<lparr>read_buffer := line @ 0 # 10 # post\<rparr> = ws" by (simp flip: buf)
  with get False have "ws_handle_new ws = Some (1, ws\<lparr>read_buffer := line @ 0 # 10 # post\<rparr>)"
    by (simp add: ws_handle_new_def buf)
  with False show ?thesis by (intro that [of line]) (simp_all add: request_line_def)
next
  case True
  let ?u = "4 + length (takeWhile (\<lambda>c. \<not> isspace c) (drop 4 line))"
  have "4 \<le> length line" using prefix_length_le [OF True] by (simp add: bytes_def)
  then have "?u \<le> length line" using length_takeWhile_le [of "\<lambda>c. \<not> isspace c" "drop 4 line"] by simp
  then obtain J where "(line @ 0 # 10 # post)[?u := 0] = J @ 0 # 10 # post" "length J = length line"
    by (rule line_end_kept)
  with ws_handle_new_get [OF buf nz True] show ?thesis by (intro that [of J]) (simp_all add: Let_def)
qed

end
