(* ===== verification/Conn.thy ===== *)
theory Conn
  imports Client
begin

text \<open>
  The invariant of a connection, and the account every handler keeps of descriptors.
\<close>

section \<open>The invariant\<close>

text \<open>A connected peer has a framing function whose law covers its present framing data.\<close>

definition peer_sound :: "websocket \<Rightarrow> bool" where
  "peer_sound ws \<longleftrightarrow>
     (0 \<le> peer_fd ws \<longrightarrow>
       (\<exists>f I. framing (peer ws) = Some f \<and> framing_law f (framing_config (peer ws)) I \<and>
              I (peer_framing_data ws)))"

text \<open>
  Buffers have their declared sizes; descriptors are valid or -1; stored headers fit their array
  and subprotocols are not repeated; a peer is connected exactly in the open state, and nothing
  is held once the client's descriptor is gone.
\<close>

definition ws_core :: "websocket \<Rightarrow> bool" where
  "ws_core ws \<longleftrightarrow>
     length (read_buffer ws) = WS_MAX_LINE \<and> length (peer_buffer ws) = PEER_BUFFER_SIZE \<and>
     peer_buffer_offset ws < PEER_BUFFER_SIZE \<and>
     -1 \<le> ws_fd ws \<and> -1 \<le> peer_fd ws \<and>
     length (header ws) \<le> WS_HEADER_LIMIT \<and> distinct (protocol ws) \<and>
     (state ws = ws_open \<longleftrightarrow> 0 \<le> peer_fd ws) \<and>
     (ws_fd ws = -1 \<longrightarrow> peer_fd ws = -1) \<and> (state ws = ws_closed \<longrightarrow> ws_fd ws = -1) \<and>
     (peer_fd ws = -1 \<longrightarrow> peer_framing_data ws = FNull) \<and> peer_sound ws \<and>
     want_upgrade ws \<le> 3"

text \<open>Between events the received but unhandled bytes also leave room for the next read.\<close>

definition ws_inv :: "websocket \<Rightarrow> bool" where
  "ws_inv ws \<longleftrightarrow> ws_core ws \<and> read_buffer_offset ws + 2 \<le> WS_MAX_LINE"

lemma WS_MAX_LINE_pos [simp]: "0 < WS_MAX_LINE" "0 < PEER_BUFFER_SIZE"
  by (simp_all add: WS_MAX_LINE_def PEER_BUFFER_SIZE_def)

lemma peer_sound_releasable: "peer_sound ws \<Longrightarrow> framing_releasable ws"
  unfolding peer_sound_def framing_releasable_def
  using framing_law.cleanup by blast

lemma peer_sound_FNull: "peer_live (peer ws) \<Longrightarrow> peer_framing_data ws = FNull \<Longrightarrow> peer_sound ws"
  unfolding peer_live_def peer_sound_def
  using framing_law.axioms(1) framing_stream_law.fresh by metis

lemma framing_releasable_FNull: "peer_framing_data ws = FNull \<Longrightarrow> framing_releasable ws"
  by (simp add: framing_releasable_def)

lemma ws_core_reset:
  assumes "length (read_buffer ws) = WS_MAX_LINE" "length (peer_buffer ws) = PEER_BUFFER_SIZE"
    "-1 \<le> ws_fd ws" "-1 \<le> peer_fd ws" "peer_fd ws = -1 \<Longrightarrow> peer_framing_data ws = FNull"
  shows "ws_core (ws_reset ws)"
  using assms by (auto simp: ws_core_def ws_reset_def peer_sound_def)

lemma ws_core_resetI: "ws_core ws \<Longrightarrow> ws_core (ws_reset ws)"
  by (rule ws_core_reset) (simp_all add: ws_core_def)

lemma ws_reset_fields [simp]:
  "read_buffer (ws_reset ws) = read_buffer ws" "read_buffer_offset (ws_reset ws) = 0"
  "state (ws_reset ws) = ws_closed" "peer_buffer_offset (ws_reset ws) = 0"
  by (simp_all add: ws_reset_def)

section \<open>Descriptors\<close>

definition held :: "websocket \<Rightarrow> int multiset" where
  "held ws = mset (fd_list (ws_fd ws) @ fd_list (peer_fd ws))"

text \<open>
  A step closes only descriptors that the connection held or that it opened itself, and ends
  holding only such that it has not closed; \<open>exact\<close>: and it loses none.
\<close>

definition accounts :: "websocket \<Rightarrow> trace \<Rightarrow> websocket \<Rightarrow> bool" where
  "accounts ws ext ws' \<longleftrightarrow> mset (closed_in ext) + held ws' \<subseteq># held ws + mset (opened_in ext)"

definition exact :: "websocket \<Rightarrow> trace \<Rightarrow> websocket \<Rightarrow> bool" where
  "exact ws ext ws' \<longleftrightarrow> mset (closed_in ext) + held ws' = held ws + mset (opened_in ext)"

lemma accounts_refl [simp]: "held ws' = held ws \<Longrightarrow> accounts ws [] ws'"
  by (simp add: accounts_def)

lemma exact_refl [simp]: "held ws' = held ws \<Longrightarrow> exact ws [] ws'"
  by (simp add: exact_def)

lemma exact_accounts: "exact ws ext ws' \<Longrightarrow> accounts ws ext ws'"
  by (simp add: exact_def accounts_def)

lemma accounts_trans:
  assumes "accounts ws e1 ws1" "accounts ws1 e2 ws2"
  shows "accounts ws (e1 @ e2) ws2"
proof -
  have "mset (closed_in e1) + (mset (closed_in e2) + held ws2) \<subseteq>#
      mset (closed_in e1) + (held ws1 + mset (opened_in e2))"
    using assms(2) by (simp add: accounts_def)
  also have "\<dots> \<subseteq># (held ws + mset (opened_in e1)) + mset (opened_in e2)"
    using assms(1) by (simp add: accounts_def ac_simps)
  finally show ?thesis by (simp add: accounts_def ac_simps)
qed

lemma exact_trans:
  assumes "exact ws e1 ws1" "exact ws1 e2 ws2"
  shows "exact ws (e1 @ e2) ws2"
proof -
  have "mset (closed_in e1) + (mset (closed_in e2) + held ws2) =
      (mset (closed_in e1) + held ws1) + mset (opened_in e2)"
    using assms(2) by (simp add: exact_def add.assoc)
  also have "\<dots> = (held ws + mset (opened_in e1)) + mset (opened_in e2)"
    using assms(1) by (simp add: exact_def)
  finally show ?thesis by (simp add: exact_def add.assoc)
qed

lemma held_reset [simp]: "held (ws_reset ws) = {#}"
  by (simp add: held_def ws_reset_def fd_list_def)

lemma exact_close: "close_trace ws ext \<Longrightarrow> exact ws ext (ws_reset ws)"
  by (simp add: close_trace_def exact_def held_def [of ws])

lemma exact_sends: "only_sends fd ext \<Longrightarrow> held ws' = held ws \<Longrightarrow> exact ws ext ws'"
  by (simp add: exact_def only_sends_closed only_sends_opened)

end
