(* ===== verification/Upgrade.thy ===== *)
theory Upgrade
  imports Handshake_Spec Conn
begin

text \<open>
  Total correctness of the end of the handshake and of a header line, on any connection that
  satisfies the invariant.
\<close>

section \<open>The response\<close>

definition accept_encoded :: "services \<Rightarrow> cstring \<Rightarrow> u8 list" where
  "accept_encoded SV key = nettle_base64 SV (take SHA1_DIGEST_SIZE (nettle_sha1 SV (key @ RFC6455_MAGIC_KEY)))"

definition accept_value :: "services \<Rightarrow> cstring \<Rightarrow> cstring" where
  "accept_value SV key = takeWhile (\<lambda>c. c \<noteq> 0) (accept_encoded SV key @ crlf)"

text \<open>The array of the accept key has room for what is written to it: for one key, and for all.\<close>

definition key_fits :: "services \<Rightarrow> cstring \<Rightarrow> bool" where
  "key_fits SV key \<longleftrightarrow> length (accept_encoded SV key) \<le> BASE64_ENCODE_LENGTH SV SHA1_DIGEST_SIZE"

definition accept_room :: "services \<Rightarrow> bool" where
  "accept_room SV \<longleftrightarrow> (\<forall>key. key_fits SV key)"

text \<open>What nettle documents of its sizes.\<close>

definition nettle_sizes :: "services \<Rightarrow> bool" where
  "nettle_sizes SV \<longleftrightarrow>
     (\<forall>m. length (nettle_sha1 SV m) = SHA1_DIGEST_SIZE) \<and>
     (\<forall>d. length (nettle_base64 SV d) = (length d + 2) div 3 * 4) \<and>
     (\<forall>n. BASE64_ENCODE_LENGTH SV n = (n * 8 + 4) div 6)"

text \<open>Services with which nothing is missing: every question is answered, every key fits.\<close>

definition services_ok :: "services \<Rightarrow> bool" where
  "services_ok SV \<longleftrightarrow> services_total SV \<and> accept_room SV"

lemma services_ok_answers: "services_ok SV \<Longrightarrow> backend_answers SV ws"
  by (simp add: services_ok_def services_total_answers)

lemma services_ok_fits: "services_ok SV \<Longrightarrow> key_fits SV key"
  by (simp add: services_ok_def accept_room_def)

text \<open>The response to an upgrade request: RFC 6455, section 4.2.2.\<close>

definition upgrade_response :: "services \<Rightarrow> cstring \<Rightarrow> cstring list \<Rightarrow> nat \<Rightarrow> cstring" where
  "upgrade_response SV key protos i =
     bytes ''HTTP/1.1 101 Upgrading'' @ crlf @ bytes ''Upgrade: websocket'' @ crlf @
     bytes ''Connection: Upgrade'' @ crlf @ bytes ''Sec-WebSocket-Accept: '' @ accept_value SV key @
     (if i < length protos then bytes ''Sec-WebSocket-Protocol: '' @ protos ! i @ crlf else []) @ crlf"

lemma bytes_eq_Nil [simp]: "bytes s = [] \<longleftrightarrow> s = []"
  by (simp add: bytes_def)

lemma crlf_nonempty [simp]: "crlf \<noteq> []"
  by (simp add: crlf_def)

lemma cstr_takeWhile: "cstr (s @ 0 # post) 0 = Some (takeWhile (\<lambda>c. c \<noteq> 0) s)"
proof (cases "dropWhile (\<lambda>c. c \<noteq> 0) s")
  case Nil
  then have "s = takeWhile (\<lambda>c. c \<noteq> 0) s" by (metis append_Nil2 takeWhile_dropWhile_id)
  moreover have "0 \<notin> set s" using Nil by auto
  ultimately show ?thesis using cstr_string [of s post] by simp
next
  case (Cons c r)
  then have s: "s = takeWhile (\<lambda>c. c \<noteq> 0) s @ 0 # r"
    unfolding dropWhile_eq_Cons_conv by metis
  have app: "s @ 0 # post = takeWhile (\<lambda>c. c \<noteq> 0) s @ 0 # r @ 0 # post"
    by (subst s) simp
  have "0 \<notin> set (takeWhile (\<lambda>c. c \<noteq> 0) s)" by (auto dest: set_takeWhileD)
  then show ?thesis
    using cstr_string [of "takeWhile (\<lambda>c. c \<noteq> 0) s" "r @ 0 # post", folded app] by simp
qed

lemma ws_accept_key_eq:
  "ws_accept_key SV key = (if key_fits SV key then Some (accept_value SV key) else None)"
proof (cases "key_fits SV key")
  case True
  let ?e = "accept_encoded SV key" and ?room = "BASE64_ENCODE_LENGTH SV SHA1_DIGEST_SIZE + 3"
  have len: "length ?e + 3 \<le> ?room" using True by (simp add: key_fits_def)
  have "put (replicate ?room 0) 0 ?e = Some (?e @ replicate (?room - length ?e) 0)"
    using len by (simp add: put_def)
  moreover have "put (?e @ replicate (?room - length ?e) 0) (length ?e) (crlf @ [0]) =
      Some ((?e @ crlf) @ 0 # replicate (?room - length ?e - 3) 0)"
    using len by (simp add: put_def crlf_def)
  ultimately show ?thesis
    using True cstr_takeWhile [of "?e @ crlf"] by (simp add: ws_accept_key_def accept_encoded_def [symmetric] accept_value_def)
next
  case False
  then show ?thesis
    by (auto simp: ws_accept_key_def key_fits_def accept_encoded_def put_def crlf_def bind_eq_None_conv Let_def)
qed

lemma runs_send_strs [runs_rules]:
  assumes "posix_send E"
    and "\<And>ext. only_sends fd ext \<Longrightarrow> sent_on fd ext = concat ss \<Longrightarrow> (concat ss \<noteq> [] \<Longrightarrow> 0 \<le> fd) \<Longrightarrow>
      Q (0, tr @ ext)"
    and "\<And>ext. only_sends fd ext \<Longrightarrow> strict_prefix (sent_on fd ext) (concat ss) \<Longrightarrow>
      send_fails E fd \<Longrightarrow> Q (1, tr @ ext)"
  shows "runs (send_strs E fd ss tr) Q"
  using assms(2,3)
proof (induction ss arbitrary: tr Q)
  case Nil
  from Nil.prems(1) [of "[]"] show ?case by simp
next
  case (Cons s ss)
  show ?case
    unfolding send_strs.simps runs_bind
  proof (rule runs_network_send_str [OF assms(1)], goal_cases)
    case (1 e1)
    have "runs (send_strs E fd ss (tr @ e1)) Q"
    proof (rule Cons.IH, goal_cases)
      case (1 e2)
      with \<open>only_sends fd e1\<close> \<open>sent_on fd e1 = s\<close> \<open>s \<noteq> [] \<Longrightarrow> 0 \<le> fd\<close> Cons.prems(1) [of "e1 @ e2"]
      show ?case by auto
    next
      case (2 e2)
      with \<open>only_sends fd e1\<close> \<open>sent_on fd e1 = s\<close> Cons.prems(2) [of "e1 @ e2"] show ?case by simp
    qed
    then show ?case by simp
  next
    case (2 e1)
    then have "strict_prefix (sent_on fd e1) (concat (s # ss))" by (auto simp: strict_prefix_def)
    with 2 Cons.prems(2) show ?case by simp
  qed
qed

lemma runs_ws_abort_http [runs_rules]:
  assumes "posix_send E" "framing_releasable ws"
    and "\<And>ext. close_trace ws ext \<Longrightarrow> Q (0, ws_reset ws, tr @ ext)"
  shows "runs (ws_abort_http E ws reason tr) Q"
  unfolding ws_abort_http_def runs_bind
  by (rule runs_ws_close [OF assms(1,2)]) (simp add: assms(3))

declare send_strs.simps [simp del]

section \<open>The order of definedness\<close>

text \<open>A computation that is defined where another one is, with the same result.\<close>

lemma option_ord_refl: "option_ord m m"
  by (simp add: flat_ord_def)

lemma option_ord_bind:
  "option_ord m m' \<Longrightarrow> (\<And>x. m = Some x \<Longrightarrow> option_ord (f x) (f' x)) \<Longrightarrow>
     option_ord (Option.bind m f) (Option.bind m' f')"
  by (cases m) (simp_all add: flat_ord_def, metis bind.bind_lunit)

lemma option_ord_if:
  "(b \<Longrightarrow> option_ord m m') \<Longrightarrow> (\<not> b \<Longrightarrow> option_ord n n') \<Longrightarrow> option_ord (if b then m else n) (if b then m' else n')"
  by simp

lemma option_ord_prod:
  "(\<And>a b. (a, b) = p \<Longrightarrow> option_ord (f a b) (f' a b)) \<Longrightarrow> option_ord (case p of (a, b) \<Rightarrow> f a b) (case p of (a, b) \<Rightarrow> f' a b)"
  by (cases p) simp

lemma option_ord_SomeD: "option_ord m m' \<Longrightarrow> m = Some x \<Longrightarrow> m' = Some x"
  by (simp add: flat_ord_def)

lemmas option_ord_rules = option_ord_refl option_ord_bind option_ord_if option_ord_prod

section \<open>Services with more answers and more room\<close>

definition services_le :: "services \<Rightarrow> services \<Rightarrow> bool" where
  "services_le SV SV' \<longleftrightarrow>
     nettle_sha1 SV' = nettle_sha1 SV \<and> nettle_base64 SV' = nettle_base64 SV \<and>
     (\<forall>path protos hdrs. option_ord (cfg_query SV path protos hdrs) (cfg_query SV' path protos hdrs)) \<and>
     (\<forall>key. key_fits SV key \<longrightarrow> key_fits SV' key)"

lemma services_le_refl: "services_le SV SV"
  by (simp add: services_le_def flat_ord_def)

lemma services_le_trans: "services_le SV1 SV2 \<Longrightarrow> services_le SV2 SV3 \<Longrightarrow> services_le SV1 SV3"
  unfolding services_le_def flat_ord_def by metis

lemma ws_accept_key_mono:
  assumes "services_le SV SV'"
  shows "option_ord (ws_accept_key SV key) (ws_accept_key SV' key)"
  using assms by (auto simp: ws_accept_key_eq services_le_def accept_value_def accept_encoded_def flat_ord_def)

lemma client_connect_mono:
  assumes "services_le SV SV'"
  shows "option_ord (client_connect E SV ws tr) (client_connect E SV' ws tr)"
  unfolding client_connect_def
  by (rule option_ord_bind) (use assms in \<open>simp_all add: services_le_def option_ord_refl\<close>)

lemma ws_upgrade_http_mono:
  assumes "services_le SV SV'"
  shows "option_ord (ws_upgrade_http E SV ws tr) (ws_upgrade_http E SV' ws tr)"
  unfolding ws_upgrade_http_def Let_def
  by (intro option_ord_rules client_connect_mono ws_accept_key_mono assms)

text \<open>The same services with room for every accept key.\<close>

definition roomy :: "services \<Rightarrow> services" where
  "roomy SV = SV\<lparr>BASE64_ENCODE_LENGTH := \<lambda>_. Max (length ` range (accept_encoded SV))\<rparr>"

lemma roomy_accept [simp]:
  "accept_encoded (roomy SV) = accept_encoded SV" "accept_value (roomy SV) = accept_value SV"
  by (simp_all add: roomy_def accept_encoded_def accept_value_def fun_eq_iff)

lemma finite_accept_encoded: "finite (range (accept_encoded SV))"
proof -
  let ?digests = "{d :: u8 list. set d \<subseteq> UNIV \<and> length d \<le> SHA1_DIGEST_SIZE}"
  have "range (accept_encoded SV) \<subseteq> nettle_base64 SV ` ?digests" by (auto simp: accept_encoded_def)
  moreover have "finite ?digests" by (rule finite_lists_length_le) simp
  ultimately show ?thesis by (meson finite_imageI finite_subset)
qed

lemma roomy_room: "accept_room (roomy SV)"
proof -
  have "length (accept_encoded SV key) \<le> Max (length ` range (accept_encoded SV))" for key
    by (rule Max_ge) (simp_all add: finite_accept_encoded)
  then show ?thesis by (simp add: accept_room_def key_fits_def) (simp add: roomy_def)
qed

lemma roomy_le: "services_le SV (roomy SV)"
  using roomy_room [of SV] by (simp add: services_le_def accept_room_def flat_ord_def) (simp add: roomy_def)

text \<open>Where there is room already, more of it makes no difference.\<close>

lemma roomy_ge: "accept_room SV \<Longrightarrow> services_le (roomy SV) SV"
  by (simp add: services_le_def accept_room_def flat_ord_def roomy_def)

lemma services_total_roomy: "services_total SV \<Longrightarrow> services_ok (roomy SV)"
  using roomy_room [of SV] by (simp add: services_ok_def services_total_def) (simp add: roomy_def)

section \<open>Upgrading\<close>

text \<open>Nothing is exchanged with anyone but the client.\<close>

definition client_only :: "websocket \<Rightarrow> trace \<Rightarrow> bool" where
  "client_only ws ext \<longleftrightarrow> (\<forall>fd. 0 \<le> fd \<longrightarrow> fd \<noteq> ws_fd ws \<longrightarrow> untouched fd ext)"

lemma client_only_append [simp]: "client_only ws (xs @ ys) \<longleftrightarrow> client_only ws xs \<and> client_only ws ys"
  by (auto simp: client_only_def)

lemma client_only_intros [intro, simp]:
  "quiet ext \<Longrightarrow> client_only ws ext" "only_sends (ws_fd ws) ext \<Longrightarrow> client_only ws ext"
  "close_trace ws ext \<Longrightarrow> client_only ws ext"
  by (simp_all add: client_only_def quiet_def only_sends_untouched close_trace_def)

text \<open>A connection given up during the upgrade, with or without a peer connected.\<close>

definition upgrade_dead :: "websocket \<Rightarrow> trace \<Rightarrow> bool" where
  "upgrade_dead ws ext \<longleftrightarrow>
     accounts ws ext (ws_reset ws) \<and> (peer_fd ws = -1 \<longrightarrow> exact ws ext (ws_reset ws)) \<and> client_only ws ext"

lemma upgrade_dead_connected:
  assumes "quiet e1" "balanced fd e1" "only_sends (ws_fd ws) e2" "-1 \<le> fd"
    and "close_trace (ws\<lparr>request_path := path, peer := p, peer_fd := fd\<rparr>) e3"
  shows "upgrade_dead ws (e1 @ e2 @ e3)"
proof -
  have e3: "closed_in e3 = fd_list (ws_fd ws) @ fd_list fd" "opened_in e3 = []"
    "\<forall>f. f \<noteq> ws_fd ws \<longrightarrow> untouched f e3"
    using assms(5) by (simp_all add: close_trace_def)
  have fd: "(if 0 \<le> fd then {#fd#} else {#}) = mset (fd_list fd)" by (simp add: fd_list_def)
  have "mset (closed_in (e1 @ e2 @ e3)) = mset (opened_in (e1 @ e2 @ e3)) + mset (fd_list (ws_fd ws))"
    using assms(2,3) e3 by (simp add: balanced_def fd only_sends_closed only_sends_opened)
  then have "accounts ws (e1 @ e2 @ e3) (ws_reset ws)" "peer_fd ws = -1 \<longrightarrow> exact ws (e1 @ e2 @ e3) (ws_reset ws)"
    by (simp_all add: accounts_def exact_def held_def [of ws] add.commute fd_list_def [of "-1"])
  moreover have "client_only ws e3" using e3(3) by (simp add: client_only_def)
  ultimately show ?thesis using assms(1,3) by (simp add: upgrade_dead_def)
qed

lemma upgrade_dead_plain:
  assumes "only_sends (ws_fd ws) e2" "close_trace (ws\<lparr>request_path := path, peer := p\<rparr>) e3"
  shows "upgrade_dead ws (e2 @ e3)"
proof -
  have "close_trace ws e3" using assms(2) by (simp add: close_trace_def)
  then have "exact ws (e2 @ e3) (ws_reset ws)"
    by (intro exact_trans [OF exact_sends [OF assms(1) refl] exact_close])
  then show ?thesis
    using assms(1) \<open>close_trace ws e3\<close> by (simp add: upgrade_dead_def exact_accounts)
qed

lemma ws_reset_path [simp]: "ws_reset (ws\<lparr>request_path := path, peer := p\<rparr>) = ws_reset ws"
  by (cases ws) (simp add: ws_reset_def)

lemma ws_reset_peer [simp]:
  assumes "-1 \<le> fd" "-1 \<le> peer_fd ws" "peer_framing_data ws = FNull"
  shows "ws_reset (ws\<lparr>request_path := path, peer := p, peer_fd := fd\<rparr>) = ws_reset ws"
    "ws_reset (ws\<lparr>request_path := path, peer := p, peer_fd := fd, state := s\<rparr>) = ws_reset ws"
  using assms by (cases ws; auto simp: ws_reset_def)+

text \<open>Giving up after the peer was connected, before and after the state is advanced.\<close>

lemma runs_upgrade_abort:
  assumes "posix_send E" "-1 \<le> peer_fd ws" "peer_framing_data ws = FNull"
    and dead: "\<And>ext. upgrade_dead ws ext \<Longrightarrow> Q (0, ws_reset ws, tr @ ext)"
    and "quiet e1" "balanced fd e1" "only_sends (ws_fd ws) e2" "-1 \<le> fd"
  shows "runs (ws_abort_http E (ws\<lparr>request_path := path, peer := p, peer_fd := fd\<rparr>) reason (tr @ e1 @ e2)) Q"
    and "runs (ws_abort_http E (ws\<lparr>request_path := path, peer := p, peer_fd := fd, state := s\<rparr>) reason (tr @ e1 @ e2)) Q"
proof -
  note up = upgrade_dead_connected [OF assms(5-8), where path = path and p = p]
  show "runs (ws_abort_http E (ws\<lparr>request_path := path, peer := p, peer_fd := fd\<rparr>) reason (tr @ e1 @ e2)) Q"
    using assms(2,3,8) by (intro runs_ws_abort_http assms(1) framing_releasable_FNull) (simp_all add: dead up)
  have "upgrade_dead ws (e1 @ e2 @ e3)"
    if "close_trace (ws\<lparr>request_path := path, peer := p, peer_fd := fd, state := s\<rparr>) e3" for e3
    by (rule up) (use that in \<open>simp add: close_trace_def\<close>)
  then show "runs (ws_abort_http E (ws\<lparr>request_path := path, peer := p, peer_fd := fd, state := s\<rparr>) reason (tr @ e1 @ e2)) Q"
    using assms(2,3,8) by (intro runs_ws_abort_http assms(1) framing_releasable_FNull) (simp_all add: dead)
qed

lemma runs_ws_upgrade_http:
  assumes "posix_send E" "backend_answers SV ws"
    and room: "\<And>key. websocket_version ws = 13 \<Longrightarrow> socket_key ws = Some key \<Longrightarrow> want_upgrade ws = 3 \<Longrightarrow> key_fits SV key"
    and fd: "-1 \<le> peer_fd ws" and fresh: "peer_framing_data ws = FNull"
    and wait: "websocket_version ws = 13 \<Longrightarrow> socket_key ws = None \<or> want_upgrade ws \<noteq> 3 \<Longrightarrow> Q (1, ws, tr)"
    and dead: "\<And>ext. upgrade_dead ws ext \<Longrightarrow> Q (0, ws_reset ws, tr @ ext)"
    and live: "\<And>key p path fd e1 e2. websocket_version ws = 13 \<Longrightarrow> socket_key ws = Some key \<Longrightarrow>
      want_upgrade ws = 3 \<Longrightarrow> 0 \<le> fd \<Longrightarrow> 0 \<le> ws_fd ws \<Longrightarrow> peer_live (connected_peer p) \<Longrightarrow>
      cfg_query SV (request_path ws) (protocol ws) (header ws) = Some (p, path) \<Longrightarrow> host p \<noteq> None \<Longrightarrow>
      quiet e1 \<Longrightarrow> balanced fd e1 \<Longrightarrow> only_sends (ws_fd ws) e2 \<Longrightarrow>
      sent_on (ws_fd ws) e2 = upgrade_response SV key (protocol ws) (peer_protocol (connected_peer p)) \<Longrightarrow>
      Q (0, ws\<lparr>request_path := path, peer := connected_peer p, peer_fd := fd, state := ws_open\<rparr>, tr @ e1 @ e2)"
  shows "runs (ws_upgrade_http E SV ws tr) Q"
proof (cases "websocket_version ws = 13 \<and> socket_key ws \<noteq> None \<and> want_upgrade ws = 3")
  case False
  have "close_trace ws ext \<Longrightarrow> upgrade_dead ws ext" for ext
    by (simp add: upgrade_dead_def exact_close exact_accounts)
  with False show ?thesis
    by (auto simp: ws_upgrade_http_def intro!: runs_ws_abort_http assms(1) dead wait
        framing_releasable_FNull fresh)
next
  case True
  then obtain key where key: "socket_key ws = Some key" by blast
  have accept: "ws_accept_key SV key = Some (accept_value SV key)"
    using room [OF _ key] True by (simp add: ws_accept_key_eq)
  note give_up = runs_upgrade_abort [where Q = Q and tr = tr, OF assms(1) fd fresh dead]
  show ?thesis
    unfolding ws_upgrade_http_def if_P [OF True] runs_bind
  proof (rule runs_client_connect [OF assms(2)], goal_cases)
    case (1 p path)
    show ?case
      using fd upgrade_dead_plain [of ws "[]"]
      by (auto intro!: runs_ws_abort_http assms(1) framing_releasable_FNull fresh dead)
  next
    case (2 p path e1)
    then show ?case using give_up(1) [of e1 "-1" "[]"] by simp
  next
    case (3 p path fd e1)
    then have "-1 \<le> fd" by simp
    note give_up = give_up [OF _ 3(5,6) _ this]
    from True have true: "websocket_version ws = 13" "want_upgrade ws = 3" by simp_all
    show ?case
      by (auto simp: key accept Let_def upgrade_response_def true
          intro!: runs_send_strs runs_network_send_str assms(1) give_up live [OF _ key _ 3(1) _ 3(2-6)])
  qed
qed


text \<open>When no \<open>send\<close> to the client fails and the peer can be connected, the upgrade succeeds.\<close>

lemma ws_upgrade_http_reliable:
  assumes E: "posix_send E" "\<not> send_fails E (ws_fd ws)" "services_total SV" and fits: "key_fits SV key"
    and ready: "websocket_version ws = 13" "socket_key ws = Some key" "want_upgrade ws = 3"
    and conn: "client_connect E SV ws tr = Some (0, ws1, tr1)"
  obtains ext where
    "ws_upgrade_http E SV ws tr = Some (0, ws1\<lparr>state := ws_open\<rparr>, tr1 @ ext)"
    "sent_on (ws_fd ws) ext = upgrade_response SV key (protocol ws) (peer_protocol (peer ws1))"
proof -
  have "runs (client_connect E SV ws tr) (\<lambda>(r, ws1, tr1). r = 0 \<longrightarrow>
      (\<exists>p path fd. ws1 = ws\<lparr>request_path := path, peer := p, peer_fd := fd\<rparr>))"
    by (rule runs_client_connect [OF services_total_answers [OF E(3)]]) auto
  with conn obtain p path fd where ws1: "ws1 = ws\<lparr>request_path := path, peer := p, peer_fd := fd\<rparr>" by auto
  have accept: "ws_accept_key SV key = Some (accept_value SV key)"
    using fits by (simp add: ws_accept_key_eq)
  have "runs (ws_upgrade_http E SV ws tr) (\<lambda>(r, ws', tr'). \<exists>ext. r = 0 \<and> ws' = ws1\<lparr>state := ws_open\<rparr> \<and>
      tr' = tr1 @ ext \<and> sent_on (ws_fd ws) ext = upgrade_response SV key (protocol ws) (peer_protocol p))"
    using ready E(2)
    by (auto simp: ws_upgrade_http_def conn accept Let_def upgrade_response_def ws1
        intro!: runs_send_strs runs_network_send_str E(1))
  then show ?thesis using that by (auto simp: runs_def ws1)
qed

section \<open>Handling a line\<close>

text \<open>
  What handling one line of the handshake leaves: an invariant connection that has moved forward,
  with no descriptor closed twice or kept after closing, and none lost when it had no peer yet.
\<close>

definition line_step :: "websocket \<Rightarrow> trace \<Rightarrow> websocket \<Rightarrow> bool" where
  "line_step ws ext ws' \<longleftrightarrow>
     ws_core ws' \<and> peer_framing_data ws' = FNull \<and> state ws \<le> state ws' \<and>
     (read_buffer_offset ws' = read_buffer_offset ws \<or> read_buffer_offset ws' = 0) \<and>
     (ws_fd ws' = ws_fd ws \<or> ws_fd ws' = -1) \<and>
     accounts ws ext ws' \<and> (peer_fd ws = -1 \<longrightarrow> exact ws ext ws') \<and> client_only ws ext"

lemma u32_le_3_cases: "(w :: u32) \<le> 3 \<Longrightarrow> w = 0 \<or> w = 1 \<or> w = 2 \<or> w = 3"
proof -
  assume "w \<le> 3"
  then have "unat w \<le> 3" by (simp add: word_le_nat_alt)
  then have "unat w = 0 \<or> unat w = 1 \<or> unat w = 2 \<or> unat w = 3" by linarith
  then show ?thesis by (auto simp: word_unat_eq_iff)
qed

lemma header_effect_frame [simp]:
  "ws_fd (header_effect n v ws) = ws_fd ws" "peer_fd (header_effect n v ws) = peer_fd ws"
  "state (header_effect n v ws) = state ws" "peer (header_effect n v ws) = peer ws"
  "read_buffer (header_effect n v ws) = read_buffer ws"
  "peer_buffer (header_effect n v ws) = peer_buffer ws"
  "read_buffer_offset (header_effect n v ws) = read_buffer_offset ws"
  "peer_buffer_offset (header_effect n v ws) = peer_buffer_offset ws"
  "peer_framing_data (header_effect n v ws) = peer_framing_data ws"
  "request_path (header_effect n v ws) = request_path ws"
  by (simp_all add: header_effect_def)

lemma header_effect_core:
  assumes "ws_core ws"
  shows "ws_core (header_effect n v ws)"
proof -
  have "want_upgrade (header_effect n v ws) \<le> 3"
    using assms u32_le_3_cases [of "want_upgrade ws"] by (auto simp: header_effect_def ws_core_def)
  moreover have "distinct (protocol (header_effect n v ws))"
    using assms by (simp add: header_effect_def ws_core_def distinct_offers)
  moreover have "length (header (header_effect n v ws)) \<le> WS_HEADER_LIMIT"
    using assms by (simp add: header_effect_def ws_core_def)
  ultimately show ?thesis using assms by (simp add: ws_core_def peer_sound_def)
qed

lemma line_step_refl:
  "ws_core ws \<Longrightarrow> peer_framing_data ws = FNull \<Longrightarrow> line_step ws [] ws"
  by (simp add: line_step_def client_only_def)

lemma upgrade_dead_step:
  "ws_core ws \<Longrightarrow> peer_framing_data ws = FNull \<Longrightarrow> upgrade_dead ws ext \<Longrightarrow> line_step ws ext (ws_reset ws)"
  by (auto simp: line_step_def upgrade_dead_def ws_core_resetI) (auto simp: ws_reset_def ws_core_def)

lemma close_trace_dead: "close_trace ws ext \<Longrightarrow> upgrade_dead ws ext"
  by (simp add: upgrade_dead_def exact_close exact_accounts)

lemma upgrade_live_step:
  assumes core: "ws_core ws" "peer_framing_data ws = FNull" and st: "state ws \<noteq> ws_closed"
    and fd: "0 \<le> fd" "0 \<le> ws_fd ws" "peer_live p"
    and ext: "quiet e1" "balanced fd e1" "only_sends (ws_fd ws) e2"
  shows "line_step ws (e1 @ e2) (ws\<lparr>request_path := path, peer := p, peer_fd := fd, state := ws_open\<rparr>)"
proof -
  let ?ws = "ws\<lparr>request_path := path, peer := p, peer_fd := fd, state := ws_open\<rparr>"
  have "peer_sound ?ws" by (rule peer_sound_FNull) (simp_all add: core fd)
  then have "ws_core ?ws" using core fd by (simp add: ws_core_def)
  moreover have "state ws \<le> ws_open" using st by (cases "state ws") (simp_all add: less_eq_ws_state_def)
  moreover have h: "held ?ws = mset (fd_list (ws_fd ws)) + {#fd#}"
    using fd by (simp add: held_def fd_list_def)
  have "mset (closed_in (e1 @ e2)) + held ?ws = mset (fd_list (ws_fd ws)) + mset (opened_in (e1 @ e2))"
    using ext fd by (simp add: h balanced_def only_sends_closed only_sends_opened)
  then have "accounts ws (e1 @ e2) ?ws" "peer_fd ws = -1 \<longrightarrow> exact ws (e1 @ e2) ?ws"
    by (simp_all add: accounts_def exact_def held_def [of ws] fd_list_def [of "-1"])
  ultimately show ?thesis using core ext by (simp add: line_step_def)
qed

text \<open>In the closed state the upgrade cannot succeed: there is no client to answer.\<close>

lemma runs_ws_upgrade_http_step:
  assumes "posix_send E" "services_ok SV" "ws_core ws" "peer_framing_data ws = FNull"
    and Q: "\<And>r ext ws'. line_step ws ext ws' \<Longrightarrow> read_buffer ws' = read_buffer ws \<Longrightarrow> Q (r, ws', tr @ ext)"
  shows "runs (ws_upgrade_http E SV ws tr) Q"
proof (rule runs_ws_upgrade_http [OF assms(1) services_ok_answers [OF assms(2)] services_ok_fits [OF assms(2)]], goal_cases)
  case 1
  then show ?case using assms(3) by (simp add: ws_core_def)
next
  case 3
  then show ?case using Q [OF line_step_refl [OF assms(3,4)], of 1] by simp
next
  case (4 ext)
  then show ?case using Q [OF upgrade_dead_step [OF assms(3,4)]] by simp
next
  case (5 key p path fd e1 e2)
  have "state ws \<noteq> ws_closed" using 5(5) assms(3) by (auto simp: ws_core_def)
  from Q [OF upgrade_live_step [OF assms(3,4) this 5(4,5,6,9,10,11)]] show ?case by simp
qed (rule assms(4))

text \<open>The outcome of the end of the header, for a connection without a peer.\<close>

definition upgraded :: "services \<Rightarrow> websocket \<Rightarrow> trace \<Rightarrow> websocket \<Rightarrow> bool" where
  "upgraded SV ws ext ws' \<longleftrightarrow>
     websocket_version ws = 13 \<and> want_upgrade ws = 3 \<and> state ws' = ws_open \<and> 0 \<le> peer_fd ws' \<and>
     exact ws ext ws' \<and>
     (\<exists>key p. socket_key ws = Some key \<and> key_fits SV key \<and>
        cfg_query SV (request_path ws) (protocol ws) (header ws) = Some (p, request_path ws') \<and> host p \<noteq> None \<and>
        peer ws' = connected_peer p \<and> peer_live (peer ws') \<and>
        sent_on (ws_fd ws) ext = upgrade_response SV key (protocol ws) (peer_protocol p))"

lemma connected_peer_protocol [simp]: "peer_protocol (connected_peer p) = peer_protocol p"
  by (simp add: connected_peer_def completed_peer_def Let_def split: prod.splits)

lemma runs_upgraded:
  assumes "posix_send E" "backend_answers SV ws" "ws_inv ws" "peer_fd ws = -1"
    and room: "\<And>key. websocket_version ws = 13 \<Longrightarrow> socket_key ws = Some key \<Longrightarrow> want_upgrade ws = 3 \<Longrightarrow> key_fits SV key"
  shows "runs (ws_upgrade_http E SV ws tr) (\<lambda>(r, ws', tr'). \<exists>ext. tr' = tr @ ext \<and>
    (r = 0 \<and> upgraded SV ws ext ws' \<or>
     r = 0 \<and> state ws' = ws_closed \<and> exact ws ext ws' \<and> held ws' = {#} \<or>
     r = 1 \<and> ws' = ws \<and> ext = [] \<and> websocket_version ws = 13 \<and> (socket_key ws = None \<or> want_upgrade ws \<noteq> 3)))"
proof -
  have core: "ws_core ws" and fresh: "peer_framing_data ws = FNull"
    using assms(3,4) by (simp_all add: ws_inv_def ws_core_def)
  show ?thesis
  proof (rule runs_ws_upgrade_http [OF assms(1,2) _ _ fresh], goal_cases)
    case (4 ext)
    then show ?case using assms(4) by (simp add: upgrade_dead_def)
  next
    case (5 key p path fd e1 e2)
    have "state ws \<noteq> ws_closed" using 5(5) core by (auto simp: ws_core_def)
    from upgrade_live_step [OF core fresh this 5(4,5,6,9,10,11), of path] assms(4)
    have "exact ws (e1 @ e2) (ws\<lparr>request_path := path, peer := connected_peer p, peer_fd := fd, state := ws_open\<rparr>)"
      by (simp add: line_step_def)
    moreover have "sent_on (ws_fd ws) (e1 @ e2) = upgrade_response SV key (protocol ws) (peer_protocol p)"
      using 5(9,12) by (simp add: quiet_sent)
    ultimately show ?case using 5 room by (auto simp: upgraded_def)
  qed (use assms(4) room in auto)
qed

section \<open>A key that does not fit\<close>

lemma ws_abort_http_closed: "ws_abort_http E ws reason tr = Some (r, ws', tr') \<Longrightarrow> state ws' = ws_closed"
  by (auto simp: ws_abort_http_def ws_close_def Let_def elim!: bind_SomeE split: prod.splits)

lemma client_connect_key:
  "client_connect E SV ws tr = Some (r, ws', tr') \<Longrightarrow> socket_key ws' = socket_key ws \<and> ws_fd ws' = ws_fd ws"
  by (auto simp: client_connect_def Let_def elim!: bind_SomeE split: prod.splits option.splits if_splits)

text \<open>The upgrade is not completed: where it returns, it has failed before.\<close>

lemma ws_upgrade_http_unfit:
  assumes "socket_key ws = Some key" "\<not> key_fits SV key" "websocket_version ws = 13" "want_upgrade ws = 3"
    and "ws_upgrade_http E SV ws tr = Some (r, ws', tr')"
  shows "state ws' = ws_closed"
proof -
  obtain r1 ws1 tr1 where conn: "client_connect E SV ws tr = Some (r1, ws1, tr1)"
    using assms by (auto simp: ws_upgrade_http_def elim!: bind_SomeE)
  have none: "ws_accept_key SV key = None" using assms(2) by (simp add: ws_accept_key_eq)
  show ?thesis
    using assms(1,3,4,5) conn client_connect_key [OF conn] none
    by (auto simp: ws_upgrade_http_def elim!: bind_SomeE split: if_splits dest: ws_abort_http_closed)
qed

text \<open>The outcome of the end of the header, whatever the room.\<close>

lemma backend_answers_roomy: "backend_answers (roomy SV) ws = backend_answers SV ws"
  by (simp add: backend_answers_def roomy_def)

lemma ws_upgrade_http_outcome:
  assumes E: "posix_send E" "backend_answers SV ws" "ws_inv ws" "peer_fd ws = -1"
  shows "(\<exists>r ws' ext. ws_upgrade_http E SV ws tr = Some (r, ws', tr @ ext) \<and>
      (r = 0 \<and> upgraded SV ws ext ws' \<or>
       r = 0 \<and> state ws' = ws_closed \<and> exact ws ext ws' \<and> held ws' = {#} \<or>
       r = 1 \<and> ws' = ws \<and> ext = [] \<and> websocket_version ws = 13 \<and> (socket_key ws = None \<or> want_upgrade ws \<noteq> 3))) \<or>
    ws_upgrade_http E SV ws tr = None \<and> websocket_version ws = 13 \<and> want_upgrade ws = 3 \<and>
      (\<exists>key. socket_key ws = Some key \<and> \<not> key_fits SV key)"
proof (cases "websocket_version ws = 13 \<and> want_upgrade ws = 3 \<and> (\<exists>key. socket_key ws = Some key \<and> \<not> key_fits SV key)")
  case False
  have "runs (ws_upgrade_http E SV ws tr) (\<lambda>(r, ws', tr'). \<exists>ext. tr' = tr @ ext \<and>
      (r = 0 \<and> upgraded SV ws ext ws' \<or>
       r = 0 \<and> state ws' = ws_closed \<and> exact ws ext ws' \<and> held ws' = {#} \<or>
       r = 1 \<and> ws' = ws \<and> ext = [] \<and> websocket_version ws = 13 \<and> (socket_key ws = None \<or> want_upgrade ws \<noteq> 3)))"
    by (rule runs_upgraded [OF E]) (use False in blast)
  then show ?thesis by (auto simp: runs_def)
next
  case True
  then obtain key where key: "socket_key ws = Some key" "\<not> key_fits SV key" "websocket_version ws = 13" "want_upgrade ws = 3"
    by blast
  show ?thesis
  proof (cases "ws_upgrade_http E SV ws tr")
    case (Some x)
    obtain r ws' tr' where x: "x = (r, ws', tr')" by (cases x)
    have closed: "state ws' = ws_closed" using ws_upgrade_http_unfit [OF key] Some x by simp
    have "runs (ws_upgrade_http E (roomy SV) ws tr) (\<lambda>(r, ws', tr'). \<exists>ext. tr' = tr @ ext \<and>
      (r = 0 \<and> upgraded (roomy SV) ws ext ws' \<or>
       r = 0 \<and> state ws' = ws_closed \<and> exact ws ext ws' \<and> held ws' = {#} \<or>
       r = 1 \<and> ws' = ws \<and> ext = [] \<and> websocket_version ws = 13 \<and> (socket_key ws = None \<or> want_upgrade ws \<noteq> 3)))"
      using roomy_room [of SV] by (intro runs_upgraded) (simp_all add: E backend_answers_roomy accept_room_def)
    moreover have "ws_upgrade_http E (roomy SV) ws tr = Some (r, ws', tr')"
      using option_ord_SomeD [OF ws_upgrade_http_mono [OF roomy_le] Some] x by simp
    ultimately show ?thesis using key closed Some x by (auto simp: upgraded_def)
  qed (use True in simp)
qed

text \<open>And where it has nothing else to fail for, it does not return.\<close>

lemma ws_upgrade_http_overrun:
  assumes E: "posix_send E" "\<not> send_fails E (ws_fd ws)"
    and ready: "websocket_version ws = 13" "socket_key ws = Some key" "want_upgrade ws = 3"
    and conn: "client_connect E SV ws tr = Some (0, ws1, tr1)" and unfit: "\<not> key_fits SV key"
  shows "ws_upgrade_http E SV ws tr = None"
proof -
  have ws1: "ws_fd ws1 = ws_fd ws" "socket_key ws1 = Some key"
    using client_connect_key [OF conn] ready(2) by simp_all
  have "runs (send_strs E (ws_fd ws1) ss tr1) (\<lambda>(r, tr'). r = 0)" for ss
    by (rule runs_send_strs [OF E(1)]) (use E(2) ws1 in simp_all)
  then have "\<exists>tr2. send_strs E (ws_fd ws1) ss tr1 = Some (0, tr2)" for ss by (auto simp: runs_def)
  then obtain tr2 where "send_strs E (ws_fd ws1)
      [bytes ''HTTP/1.1 101 Upgrading'' @ crlf, bytes ''Upgrade: websocket'' @ crlf, bytes ''Connection: Upgrade'' @ crlf] tr1 =
      Some (0, tr2)" by blast
  moreover have "ws_accept_key SV key = None" using unfit by (simp add: ws_accept_key_eq)
  ultimately show ?thesis using ready conn ws1 by (simp add: ws_upgrade_http_def)
qed

end
