(* ===== verification/Wsdata.thy ===== *)
theory Wsdata
  imports Upgrade
begin

text \<open>
  \<open>ws_data\<close> of \<open>websocket.c\<close>: receiving from the client, splitting the handshake into lines,
  consuming frames, and the size limit.
\<close>

section \<open>The loops\<close>

text \<open>The handler of a line: \<open>ws_handle_new\<close> or \<open>ws_handle_http\<close>, whose results are ignored.\<close>

definition ws_handle_line :: "env \<Rightarrow> services \<Rightarrow> websocket \<Rightarrow> trace \<Rightarrow> (websocket \<times> trace) option" where
  "ws_handle_line E SV ws tr =
     (if state ws = ws_new
      then do { (_, ws1) \<leftarrow> ws_handle_new ws; Some (ws1, tr) }
      else do { (_, ws1, tr1) \<leftarrow> ws_handle_http E SV ws tr; Some (ws1, tr1) })"

text \<open>
  The scan for line ends among the new bytes; \<open>n\<close> is the position, \<open>got\<close> the source's
  \<open>bytes_read\<close>, which the loop counts down. The result carries its final value.
\<close>

function ws_data_lines ::
  "env \<Rightarrow> services \<Rightarrow> websocket \<Rightarrow> nat \<Rightarrow> nat \<Rightarrow> trace \<Rightarrow> (websocket \<times> nat \<times> trace) option" where
  "ws_data_lines E SV ws got n tr =
     (if n + 1 < got
      then do {
        eol \<leftarrow> strncmp_eq (read_buffer ws) (read_buffer_offset ws + n) crlf;
        if \<not> eol then ws_data_lines E SV ws got (n + 1) tr
        else do {
          buf1 \<leftarrow> wr (read_buffer ws) (read_buffer_offset ws + n) 0;
          (ws1, tr1) \<leftarrow> ws_handle_line E SV (ws\<lparr>read_buffer := buf1\<rparr>) tr;
          buf2 \<leftarrow> memmove (read_buffer ws1) 0 (read_buffer_offset ws1 + n + 2) (got - (n + 2));
          ws_data_lines E SV (ws1\<lparr>read_buffer := buf2, read_buffer_offset := 0\<rparr>) (got - (n + 2)) 0 tr1 } }
      else Some (ws, got, tr))"
  by pat_completeness auto
termination
  by (relation "measures [\<lambda>(E, SV, ws, got, n, tr). got, \<lambda>(E, SV, ws, got, n, tr). got - n]") auto

declare ws_data_lines.simps [simp del]

partial_function (option) ws_data_frames ::
  "env \<Rightarrow> websocket \<Rightarrow> trace \<Rightarrow> (websocket \<times> trace) option" where
  "ws_data_frames E ws tr =
     do { (n, ws1, tr1) \<leftarrow> ws_frame E ws tr;
          if 0 < n \<and> 0 < read_buffer_offset ws1
          then if read_buffer_offset ws1 < n then None
               else do {
                 buf \<leftarrow> memmove (read_buffer ws1) 0 n (read_buffer_offset ws1 - n);
                 ws_data_frames E
                   (ws1\<lparr>read_buffer := buf, read_buffer_offset := read_buffer_offset ws1 - n\<rparr>) tr1 }
          else Some (ws1, tr1) }"

definition ws_data :: "env \<Rightarrow> services \<Rightarrow> websocket \<Rightarrow> trace \<Rightarrow> (int \<times> websocket \<times> trace) option" where
  "ws_data E SV ws tr =
     (if length (read_buffer ws) \<le> read_buffer_offset ws then None
      else do {
        (r, buf, tr1) \<leftarrow> recv E (ws_fd ws) (read_buffer ws) (read_buffer_offset ws)
                           (length (read_buffer ws) - read_buffer_offset ws - 1) tr;
        let ws1 = ws\<lparr>read_buffer := buf\<rparr>;
        if r < 0 then do { (_, ws2, tr2) \<leftarrow> ws_close E ws1 ws_close_unexpected None tr1; Some (0, ws2, tr2) }
        else if r = 0
        then do { (_, ws2, tr2) \<leftarrow> ws_close E ws1 ws_close_unexpected None tr1; Some (0, ws2, tr2) }
        else do {
          buf1 \<leftarrow> wr buf (read_buffer_offset ws1 + nat r) 0;
          let ws2 = ws1\<lparr>read_buffer := buf1\<rparr>;
          (ws3, tr3) \<leftarrow>
            (case state ws2 of
               ws_open \<Rightarrow>
                 ws_data_frames E (ws2\<lparr>read_buffer_offset := read_buffer_offset ws2 + nat r\<rparr>) tr1
             | ws_closed \<Rightarrow> Some (ws2, tr1)
             | _ \<Rightarrow> do { (ws3, got, tr3) \<leftarrow> ws_data_lines E SV ws2 (nat r) 0 tr1;
                        Some (ws3\<lparr>read_buffer_offset := got\<rparr>, tr3) });
          if length (read_buffer ws3) - read_buffer_offset ws3 < 2
          then do { (_, ws4, tr4) \<leftarrow>
                      ws_close E ws3 ws_close_limit (Some (bytes ''Receive size limit exceeded'')) tr3;
                    Some (0, ws4, tr4) }
          else Some (0, ws3, tr3) } })"

section \<open>One line, on any connection\<close>

lemma strncmp_eq_SomeD:
  "strncmp_eq buf i lit = Some True \<Longrightarrow> k < length lit \<Longrightarrow> i + k < length buf \<and> buf ! (i + k) = lit ! k"
proof (induction lit arbitrary: i k)
  case (Cons c lit)
  then have "i < length buf" "buf ! i = c" "strncmp_eq buf (Suc i) lit = Some True"
    by (auto elim!: bind_SomeE simp: rd_eq_Some split: if_splits)
  with Cons.IH [of "Suc i" "k - 1"] Cons.prems(2) show ?case by (cases k) auto
qed simp

lemma runs_ws_handle_new:
  assumes z: "z + 1 < length (read_buffer ws)" "read_buffer ws ! z = 0" "read_buffer ws ! (z + 1) = 10"
    and refused: "\<And>buf. length buf = length (read_buffer ws) \<Longrightarrow>
      drop (z + 1) buf = drop (z + 1) (read_buffer ws) \<Longrightarrow> Q (1, ws\<lparr>read_buffer := buf\<rparr>)"
    and ok: "\<And>buf path. length buf = length (read_buffer ws) \<Longrightarrow>
      drop (z + 1) buf = drop (z + 1) (read_buffer ws) \<Longrightarrow>
      Q (0, ws\<lparr>read_buffer := buf, state := ws_http, request_path := Some path\<rparr>)"
  shows "runs (ws_handle_new ws) Q"
proof -
  let ?buf = "read_buffer ws"
  have lit: "0 \<notin> set (bytes ''GET '')" "0 \<notin> set (bytes ''HTTP/'')" "10 \<notin> set (bytes ''HTTP/'')"
    by (simp_all add: bytes_def)
  obtain get where get: "strncmp_eq ?buf 0 (bytes ''GET '') = Some get"
    using strncmp_eq_total [of 0 z ?buf "bytes ''GET ''"] z lit by auto
  show ?thesis
  proof (cases get)
    case False
    with get refused [of ?buf] show ?thesis by (simp add: ws_handle_new_def)
  next
    case True
    have "4 \<le> z"
    proof (rule ccontr)
      assume "\<not> 4 \<le> z"
      then have "?buf ! z \<in> set (bytes ''GET '')"
        using strncmp_eq_SomeD [of ?buf 0 _ z] get True by (auto intro: nth_mem)
      with z(2) lit show False by simp
    qed
    then obtain u where u: "scan (\<lambda>c. c = 0 \<or> isspace c) ?buf 4 = Some u" "4 \<le> u" "u \<le> z"
      using scan_obtain [of 4 z ?buf "\<lambda>c. c = 0 \<or> isspace c"] z by auto
    let ?b = "?buf[u := 0]"
    have b: "length ?b = length ?buf" "drop (z + 1) ?b = drop (z + 1) ?buf"
      using u(3) by (simp_all add: drop_update_cancel)
    obtain http where http: "strncmp_eq ?b (u + 1) (bytes ''HTTP/'') = Some http"
    proof (cases "u = z")
      case True
      then have "?b ! (z + 1) \<notin> set (bytes ''HTTP/'')" using z lit by simp
      with strncmp_eq_total [of "u + 1" "z + 1" ?b] True z that show ?thesis by auto
    next
      case False
      then have "?b ! z \<notin> set (bytes ''HTTP/'')" using z lit by simp
      with strncmp_eq_total [of "u + 1" z ?b] False u z that show ?thesis by auto
    qed
    obtain path where "cstr ?b 4 = Some path"
      using cstr_total [of 4 u ?b] u z by auto
    with get True u http z ok [OF b] refused [OF b] show ?thesis
      by (auto simp: ws_handle_new_def Let_def)
  qed
qed

lemma ws_core_buffer:
  "ws_core ws \<Longrightarrow> length buf = length (read_buffer ws) \<Longrightarrow> ws_core (ws\<lparr>read_buffer := buf\<rparr>)"
  by (simp add: ws_core_def peer_sound_def)

lemma line_step_buffer:
  "line_step (ws\<lparr>read_buffer := buf\<rparr>) ext ws' \<Longrightarrow> line_step ws ext ws'"
  by (simp add: line_step_def accounts_def exact_def held_def client_only_def)

lemma runs_ws_handle_http:
  assumes E: "posix_send E" "services_ok SV" and core: "ws_core ws" "peer_framing_data ws = FNull"
    and z: "z < length (read_buffer ws)" "read_buffer ws ! z = 0"
    and Q: "\<And>r ext ws'. line_step ws ext ws' \<Longrightarrow> length (read_buffer ws') = length (read_buffer ws) \<Longrightarrow>
      drop (z + 1) (read_buffer ws') = drop (z + 1) (read_buffer ws) \<Longrightarrow> Q (r, ws', tr @ ext)"
  shows "runs (ws_handle_http E SV ws tr) Q"
proof -
  obtain line where line: "cstr (read_buffer ws) 0 = Some line" and le: "length line \<le> z"
    using cstr_total [of 0 z "read_buffer ws"] z by auto
  obtain post where buf: "read_buffer ws = line @ 0 # post" "0 \<notin> set line"
    using cstr_split [OF line] by (metis append_Nil length_0_conv)
  have abort: "runs (ws_abort_http E ws reason tr) Q" for reason
    using E(1) core Q [OF upgrade_dead_step [OF core close_trace_dead]]
    by (auto intro!: runs_ws_abort_http framing_releasable_FNull)
  show ?thesis
  proof (cases line)
    case Nil
    then have "ws_handle_http E SV ws tr = ws_upgrade_http E SV ws tr"
      using buf by (intro ws_handle_http_empty) simp
    then show ?thesis using Q by (auto intro!: runs_ws_upgrade_http_step E core)
  next
    case (Cons c cs)
    show ?thesis
    proof (cases "isspace c")
      case True
      then show ?thesis
        using ws_handle_http_folding [of ws c "cs @ 0 # post" E SV tr] buf(1) Cons abort by simp
    next
      case sp: False
      show ?thesis
      proof (cases "header_line line")
        case None
        show ?thesis
          unfolding ws_handle_http_format [OF buf Cons sp None] by (rule abort)
      next
        case (Some nv)
        then obtain name val where nv: "header_line line = Some (name, val)" by (cases nv) auto
        obtain J where J: "length J = length line"
          "ws_handle_http E SV ws tr =
             Some (0, header_effect name val (ws\<lparr>read_buffer := J @ 0 # post\<rparr>), tr)"
          by (rule ws_handle_http_header [OF buf Cons sp nv])
        let ?ws = "ws\<lparr>read_buffer := J @ 0 # post\<rparr>"
        have "ws_core ?ws" using core(1) buf J(1) by (intro ws_core_buffer) simp_all
        then have "line_step ws [] (header_effect name val ?ws)"
          using core header_effect_core by (simp add: line_step_def held_def client_only_def)
        moreover have "drop (z + 1) (J @ 0 # post) = drop (z + 1) (read_buffer ws)"
          using le J(1) by (simp add: buf)
        ultimately show ?thesis using Q [of "[]"] J by (simp add: buf)
      qed
    qed
  qed
qed

lemma runs_ws_handle_line:
  assumes E: "posix_send E" "services_ok SV" and core: "ws_core ws" "peer_framing_data ws = FNull"
    and z: "z + 1 < length (read_buffer ws)" "read_buffer ws ! z = 0" "read_buffer ws ! (z + 1) = 10"
    and Q: "\<And>ext ws'. line_step ws ext ws' \<Longrightarrow> length (read_buffer ws') = length (read_buffer ws) \<Longrightarrow>
      drop (z + 1) (read_buffer ws') = drop (z + 1) (read_buffer ws) \<Longrightarrow> Q (ws', tr @ ext)"
  shows "runs (ws_handle_line E SV ws tr) Q"
proof (cases "state ws = ws_new")
  case False
  then show ?thesis using Q z
    by (auto simp: ws_handle_line_def intro!: runs_ws_handle_http [OF E core, of z])
next
  case True
  then have nofd: "peer_fd ws = -1" using core(1) by (auto simp: ws_core_def)
  have "runs (ws_handle_new ws) (\<lambda>x. runs (case x of (_, ws1) \<Rightarrow> Some (ws1, tr)) Q)"
  proof (rule runs_ws_handle_new [OF z], goal_cases)
    case (1 buf)
    have "ws_core (ws\<lparr>read_buffer := buf\<rparr>)" by (rule ws_core_buffer [OF core(1) 1(1)])
    then have "line_step ws [] (ws\<lparr>read_buffer := buf\<rparr>)"
      using core(2) by (simp add: line_step_def held_def client_only_def)
    with Q [of "[]"] 1 show ?case by simp
  next
    case (2 buf path)
    have "ws_core (ws\<lparr>read_buffer := buf, state := ws_http, request_path := Some path\<rparr>)"
      using core(1) 2(1) nofd by (auto simp: ws_core_def peer_sound_def)
    then have "line_step ws [] (ws\<lparr>read_buffer := buf, state := ws_http, request_path := Some path\<rparr>)"
      using core(2) True by (simp add: line_step_def held_def client_only_def)
    with Q [of "[]"] 2 show ?case by simp
  qed
  with True show ?thesis by (simp add: ws_handle_line_def)
qed

section \<open>The lines of a read\<close>

definition lines_step :: "websocket \<Rightarrow> trace \<Rightarrow> websocket \<Rightarrow> bool" where
  "lines_step ws ext ws' \<longleftrightarrow>
     ws_core ws' \<and> peer_framing_data ws' = FNull \<and> state ws \<le> state ws' \<and>
     (ws_fd ws' = ws_fd ws \<or> ws_fd ws' = -1) \<and> accounts ws ext ws' \<and> client_only ws ext"

lemma line_step_lines: "line_step ws ext ws' \<Longrightarrow> lines_step ws ext ws'"
  by (simp add: line_step_def lines_step_def)

lemma client_only_trans:
  "client_only ws1 ext \<Longrightarrow> ws_fd ws1 = ws_fd ws \<or> ws_fd ws1 = -1 \<Longrightarrow> client_only ws ext"
  by (auto simp: client_only_def)

lemma lines_step_trans:
  assumes "lines_step ws e1 ws1" "lines_step ws1 e2 ws2"
  shows "lines_step ws (e1 @ e2) ws2"
  using assms accounts_trans [of ws e1 ws1 e2 ws2] client_only_trans [of ws1 e2 ws]
  by (auto simp: lines_step_def)

lemma lines_step_setters:
  "ws_core ws \<Longrightarrow> length buf = length (read_buffer ws) \<Longrightarrow> ws_core (ws\<lparr>read_buffer := buf, read_buffer_offset := k\<rparr>)"
  by (simp add: ws_core_def peer_sound_def)

lemma lines_step_after:
  "lines_step ws ext ws' \<Longrightarrow> length buf = length (read_buffer ws') \<Longrightarrow>
     lines_step ws ext (ws'\<lparr>read_buffer := buf, read_buffer_offset := k\<rparr>)"
  by (simp add: lines_step_def lines_step_setters accounts_def held_def)

lemma length_crlf: "length crlf = 2"
  by (simp add: crlf_def)

text \<open>One line at \<open>n\<close> among the new bytes: handled, and cut off the front of the buffer.\<close>

lemma ws_data_lines_eol:
  assumes E: "posix_send E" "services_ok SV" and core: "ws_core ws" "peer_framing_data ws = FNull"
    and room: "read_buffer_offset ws + got < length (read_buffer ws)" and more: "n + 1 < got"
    and eol: "take 2 (drop (read_buffer_offset ws + n) (read_buffer ws)) = crlf"
  obtains buf1 ws1 ext buf2 where "wr (read_buffer ws) (read_buffer_offset ws + n) 0 = Some buf1"
    "ws_handle_line E SV (ws\<lparr>read_buffer := buf1\<rparr>) tr = Some (ws1, tr @ ext)"
    "memmove (read_buffer ws1) 0 (read_buffer_offset ws1 + n + 2) (got - (n + 2)) = Some buf2"
    "length buf2 = length (read_buffer ws)"
    "lines_step ws ext (ws1\<lparr>read_buffer := buf2, read_buffer_offset := 0\<rparr>)"
proof -
  let ?z = "read_buffer_offset ws + n"
  let ?buf1 = "(read_buffer ws)[?z := 0]"
  let ?ws = "ws\<lparr>read_buffer := ?buf1\<rparr>"
  have z: "?z + 1 < length (read_buffer ws)" using more room by simp
  have lf: "read_buffer ws ! (?z + 1) = 10"
    using eol z nth_take [of 1 2 "drop ?z (read_buffer ws)"] by (simp add: crlf_def)
  have wcore: "ws_core ?ws" "peer_framing_data ?ws = FNull" using core by (auto intro: ws_core_buffer)
  have "runs (ws_handle_line E SV ?ws tr) (\<lambda>(ws1, tr1). \<exists>ext. tr1 = tr @ ext \<and>
      line_step ?ws ext ws1 \<and> length (read_buffer ws1) = length (read_buffer ws))"
    by (rule runs_ws_handle_line [OF E wcore, of ?z]) (use z lf in auto)
  then obtain ws1 ext where ws1: "ws_handle_line E SV ?ws tr = Some (ws1, tr @ ext)"
    "line_step ?ws ext ws1" and len1: "length (read_buffer ws1) = length (read_buffer ws)"
    by (auto simp: runs_def)
  let ?src = "read_buffer_offset ws1 + n + 2" and ?k = "got - (n + 2)"
  have "?src + ?k \<le> length (read_buffer ws1)" using ws1(2) room more len1 by (auto simp: line_step_def)
  then obtain buf2 where mm: "memmove (read_buffer ws1) 0 ?src ?k = Some buf2" by (simp add: memmove_front)
  have len2: "length buf2 = length (read_buffer ws1)" by (rule length_memmove [OF mm])
  have "lines_step ws ext (ws1\<lparr>read_buffer := buf2, read_buffer_offset := 0\<rparr>)"
    by (rule lines_step_after [OF line_step_lines [OF line_step_buffer [OF ws1(2)]] len2])
  with that [of ?buf1 ws1 ext buf2] z ws1(1) mm len1 len2 show ?thesis by simp
qed

lemma runs_ws_data_lines:
  "posix_send E \<Longrightarrow> services_ok SV \<Longrightarrow> ws_core ws \<Longrightarrow> peer_framing_data ws = FNull \<Longrightarrow>
    read_buffer_offset ws + got < length (read_buffer ws) \<Longrightarrow>
    (\<And>ws' got' ext. lines_step ws ext ws' \<Longrightarrow> length (read_buffer ws') = length (read_buffer ws) \<Longrightarrow>
       got' \<le> got \<Longrightarrow> (got' = got \<and> ws' = ws \<or> read_buffer_offset ws' = 0) \<Longrightarrow> Q (ws', got', tr @ ext)) \<Longrightarrow>
    runs (ws_data_lines E SV ws got n tr) Q"
proof (induction E SV ws got n tr rule: ws_data_lines.induct)
  case (1 E SV ws got n tr)
  note E = "1.prems"(1,2) and core = "1.prems"(3,4) and room = "1.prems"(5) and Q = "1.prems"(6)
  have start: "lines_step ws [] ws" using line_step_lines [OF line_step_refl [OF core]] .
  note step = ws_data_lines.simps [of E SV ws got n tr]
  show ?case
  proof (cases "n + 1 < got")
    case False
    then show ?thesis using Q [OF start] by (simp add: step)
  next
    case more: True
    let ?z = "read_buffer_offset ws + n" and ?k = "got - (n + 2)"
    have cmp: "strncmp_eq (read_buffer ws) ?z crlf = Some (take 2 (drop ?z (read_buffer ws)) = crlf)"
      using strncmp_eq_in [of ?z crlf "read_buffer ws", unfolded length_crlf] more room by simp
    show ?thesis
    proof (cases "take 2 (drop ?z (read_buffer ws)) = crlf")
      case False
      then show ?thesis
        using "1.IH"(1) [OF more cmp _ E core room Q] more cmp by (simp add: step)
    next
      case eol: True
      obtain buf1 ws1 ext buf2 where w: "wr (read_buffer ws) ?z 0 = Some buf1"
        and h: "ws_handle_line E SV (ws\<lparr>read_buffer := buf1\<rparr>) tr = Some (ws1, tr @ ext)"
        and mm: "memmove (read_buffer ws1) 0 (read_buffer_offset ws1 + n + 2) ?k = Some buf2"
        and len2: "length buf2 = length (read_buffer ws)"
        and after: "lines_step ws ext (ws1\<lparr>read_buffer := buf2, read_buffer_offset := 0\<rparr>)"
        by (rule ws_data_lines_eol [OF E core room more eol])
      let ?ws2 = "ws1\<lparr>read_buffer := buf2, read_buffer_offset := 0\<rparr>"
      have "runs (ws_data_lines E SV ?ws2 ?k 0 (tr @ ext)) Q"
      proof (rule "1.IH"(2) [OF more cmp _ w h refl mm E], goal_cases)
        case (5 ws' got' ext')
        then show ?case using Q [OF lines_step_trans [OF after], of ext' ws' got'] len2 by auto
      qed (use after eol len2 room more in \<open>auto simp: lines_step_def\<close>)
      then show ?thesis using more cmp eol w h mm by (simp add: step)
    qed
  qed
qed

text \<open>A read without a line end is left as it is.\<close>

lemma ws_data_lines_none:
  "\<forall>i. n \<le> i \<longrightarrow> i + 1 < got \<longrightarrow> take 2 (drop (read_buffer_offset ws + i) (read_buffer ws)) \<noteq> crlf \<Longrightarrow>
     read_buffer_offset ws + got \<le> length (read_buffer ws) \<Longrightarrow>
     ws_data_lines E SV ws got n tr = Some (ws, got, tr)"
proof (induction "got - n" arbitrary: n)
  case 0
  then show ?case by (simp add: ws_data_lines.simps)
next
  case (Suc k)
  show ?case
  proof (cases "n + 1 < got")
    case False
    then show ?thesis by (simp add: ws_data_lines.simps)
  next
    case True
    let ?z = "read_buffer_offset ws + n"
    have "strncmp_eq (read_buffer ws) ?z crlf = Some (take 2 (drop ?z (read_buffer ws)) = crlf)"
      using strncmp_eq_in [of ?z crlf "read_buffer ws", unfolded length_crlf] True Suc.prems(2) by simp
    moreover have "take 2 (drop ?z (read_buffer ws)) \<noteq> crlf" using Suc.prems(1) True by simp
    ultimately have "ws_data_lines E SV ws got n tr = ws_data_lines E SV ws got (n + 1) tr"
      using True by (simp add: ws_data_lines.simps [of E SV ws got n tr])
    also have "\<dots> = Some (ws, got, tr)" using Suc.hyps Suc.prems by (intro Suc.hyps) auto
    finally show ?thesis .
  qed
qed

section \<open>The frames of a read\<close>

text \<open>
  No frame header that could be read out of the buffered bytes has a length close to 2^64 (the
  case where the check of \<open>ws_frame\<close> wraps).
\<close>

definition tame :: "u8 list \<Rightarrow> bool" where
  "tame xs \<longleftrightarrow> (\<forall>i\<le>length xs. frame_no_wrap (drop i xs) (length xs - i))"

lemma ws_frame_layout_prefix:
  assumes "2 \<le> off" "off \<le> length buf"
  shows "ws_frame_layout (take off buf) off = ws_frame_layout buf off"
proof -
  have r: "rd (take off buf) k = rd buf k" if "k < off" for k using that assms by (simp add: rd_def)
  have "rd (take off buf) 1 = rd buf 1" using assms by (intro r) simp
  moreover have "rd (take off buf) 2 = rd buf 2" "rd (take off buf) 3 = rd buf 3" if "\<not> off < 4"
    using that by (simp_all add: r)
  moreover have "rd (take off buf) k = rd buf k" if "\<not> off < 10" "k < 10" for k
    using that by (simp add: r)
  ultimately show ?thesis
    by (simp add: ws_frame_layout_def Let_def cong: if_cong)
qed

lemma tame_no_wrap:
  assumes "tame (take off buf)" "2 \<le> off" "off \<le> length buf"
  shows "frame_no_wrap buf off"
proof -
  have "frame_no_wrap (drop 0 (take off buf)) (length (take off buf) - 0)"
    using assms(1) unfolding tame_def by blast
  then show ?thesis
    using assms(2,3) ws_frame_layout_prefix [of off buf] by (simp add: frame_no_wrap_def)
qed

lemma tame_drop: "tame xs \<Longrightarrow> tame (drop n xs)"
  unfolding tame_def
proof (intro allI impI)
  fix i assume xs: "\<forall>i\<le>length xs. frame_no_wrap (drop i xs) (length xs - i)" and i: "i \<le> length (drop n xs)"
  show "frame_no_wrap (drop i (drop n xs)) (length (drop n xs) - i)"
  proof (cases "n \<le> length xs")
    case True
    then have "frame_no_wrap (drop (i + n) xs) (length xs - (i + n))" using xs i by simp
    then show ?thesis by (simp add: add.commute)
  next
    case False
    with xs [rule_format, of "length xs"] i show ?thesis by simp
  qed
qed

text \<open>What handling the data of an open connection may do.\<close>

definition conn_only :: "websocket \<Rightarrow> trace \<Rightarrow> bool" where
  "conn_only ws ext \<longleftrightarrow> (\<forall>fd. 0 \<le> fd \<longrightarrow> fd \<noteq> ws_fd ws \<longrightarrow> fd \<noteq> peer_fd ws \<longrightarrow> untouched fd ext)"

definition data_step :: "websocket \<Rightarrow> trace \<Rightarrow> websocket \<Rightarrow> bool" where
  "data_step ws ext ws' \<longleftrightarrow>
     ws_core ws' \<and> state ws \<le> state ws' \<and> (ws_fd ws' = ws_fd ws \<or> ws_fd ws' = -1) \<and>
     (peer_fd ws' = peer_fd ws \<or> peer_fd ws' = -1) \<and> exact ws ext ws' \<and> conn_only ws ext"

lemma conn_only_append [simp]: "conn_only ws (xs @ ys) \<longleftrightarrow> conn_only ws xs \<and> conn_only ws ys"
  by (auto simp: conn_only_def)

lemma data_step_trans:
  assumes "data_step ws e1 ws1" "data_step ws1 e2 ws2"
  shows "data_step ws (e1 @ e2) ws2"
proof -
  have "conn_only ws e2" using assms by (auto simp: data_step_def conn_only_def)
  then show ?thesis using assms exact_trans [of ws e1 ws1 e2 ws2] by (auto simp: data_step_def)
qed

lemma data_step_refl: "ws_core ws \<Longrightarrow> data_step ws [] ws"
  by (simp add: data_step_def conn_only_def)

lemma data_step_close: "ws_core ws \<Longrightarrow> close_trace ws ext \<Longrightarrow> data_step ws ext (ws_reset ws)"
  by (auto simp: data_step_def ws_core_resetI exact_close conn_only_def close_trace_def)
    (auto simp: ws_reset_def ws_core_def)

lemma data_step_sends:
  assumes "ws_core ws'" "state ws' = state ws" "ws_fd ws' = ws_fd ws" "peer_fd ws' = peer_fd ws"
    "closed_in ext = []" "opened_in ext = []" "conn_only ws ext"
  shows "data_step ws ext ws'"
  using assms by (simp add: data_step_def exact_def held_def)

text \<open>A frame of \<open>n\<close> bytes was handled: it is cut off the buffer, or has ended the connection.\<close>

lemma frame_consumed:
  assumes core: "ws_core ws" and room: "read_buffer_offset ws \<le> length (read_buffer ws)"
    and n: "n \<le> read_buffer_offset ws" and buf: "length buf = length (read_buffer ws)" "drop n buf = drop n (read_buffer ws)"
    and ext: "closed_in ext = []" "conn_trace ws ext"
  obtains b where "memmove buf 0 n (read_buffer_offset ws - n) = Some b" "length b = length (read_buffer ws)"
    "ws_core (ws\<lparr>read_buffer := b, read_buffer_offset := read_buffer_offset ws - n\<rparr>)"
    "data_step ws ext (ws\<lparr>read_buffer := b, read_buffer_offset := read_buffer_offset ws - n\<rparr>)"
    "tame (take (read_buffer_offset ws) (read_buffer ws)) \<Longrightarrow> tame (take (read_buffer_offset ws - n) b)"
proof -
  let ?off = "read_buffer_offset ws"
  define b where "b = take (?off - n) (drop n buf) @ drop (?off - n) buf"
  have lb: "length b = length (read_buffer ws)" using n buf(1) room by (simp add: b_def)
  have core': "ws_core (ws\<lparr>read_buffer := b, read_buffer_offset := ?off - n\<rparr>)"
    by (rule lines_step_setters [OF core lb])
  have "take (?off - n) b = drop n (take ?off (read_buffer ws))"
    using n buf room by (simp add: b_def drop_take)
  then have "tame (take ?off (read_buffer ws)) \<Longrightarrow> tame (take (?off - n) b)"
    using tame_drop [of "take ?off (read_buffer ws)" n] by simp
  moreover have "data_step ws ext (ws\<lparr>read_buffer := b, read_buffer_offset := ?off - n\<rparr>)"
    by (rule data_step_sends [OF core']) (use ext in \<open>simp_all add: conn_trace_def conn_only_def\<close>)
  moreover have "memmove buf 0 n (?off - n) = Some b"
    using n buf(1) room by (simp add: memmove_front b_def)
  ultimately show ?thesis using that lb core' by blast
qed

lemma frame_ended:
  assumes "ws_core ws" "length buf = length (read_buffer ws)"
    and "closed_in ext = fd_list (ws_fd ws) @ fd_list (peer_fd ws)" "conn_trace ws ext"
  shows "data_step ws ext (ws_reset (ws\<lparr>read_buffer := buf\<rparr>))"
  using assms(3,4) ws_core_resetI [OF ws_core_buffer [OF assms(1,2)]]
  by (auto simp: data_step_def exact_def held_def [of ws] conn_trace_def conn_only_def)
    (auto simp: ws_reset_def ws_core_def)

lemma ws_data_frames_cases:
  assumes E: "posix_send E"
  shows "ws_core ws \<Longrightarrow> read_buffer_offset ws \<le> length (read_buffer ws) \<Longrightarrow>
    (\<And>ws' ext. data_step ws ext ws' \<Longrightarrow> read_buffer_offset ws' \<le> read_buffer_offset ws \<Longrightarrow> Q (ws', tr @ ext)) \<Longrightarrow>
    (ws_data_frames E ws tr = None \<and> \<not> tame (take (read_buffer_offset ws) (read_buffer ws))) \<or>
    runs (ws_data_frames E ws tr) Q"
proof (induction "read_buffer_offset ws" arbitrary: ws tr rule: less_induct)
  case less
  note core = less.prems(1) and room = less.prems(2) and Q = less.prems(3)
  let ?off = "read_buffer_offset ws"
  let ?tame = "tame (take ?off (read_buffer ws))"
  have len: "length (read_buffer ws) = WS_MAX_LINE" using core by (simp add: ws_core_def)
  have rel: "framing_releasable ws" using core by (simp add: ws_core_def peer_sound_releasable)
  define cont where "cont = (\<lambda>(n, ws1, tr1).
    if 0 < n \<and> 0 < read_buffer_offset ws1
    then if read_buffer_offset ws1 < n then None
         else do { buf \<leftarrow> memmove (read_buffer ws1) 0 n (read_buffer_offset ws1 - n);
                   ws_data_frames E
                     (ws1\<lparr>read_buffer := buf, read_buffer_offset := read_buffer_offset ws1 - n\<rparr>) tr1 }
    else Some (ws1, tr1))"
  have unfold: "ws_data_frames E ws tr = Option.bind (ws_frame E ws tr) cont"
    by (simp add: ws_data_frames.simps [of E ws tr] cont_def)
  have "(ws_frame E ws tr = None \<and> 2 \<le> ?off \<and> \<not> frame_no_wrap (read_buffer ws) ?off) \<or>
      runs (ws_frame E ws tr) (\<lambda>x. cont x = None \<and> \<not> ?tame \<or> runs (cont x) Q)"
  proof (rule ws_frame_cases [OF E rel room], goal_cases)
    case (4 n buf ext)
    obtain b where b: "memmove buf 0 n (?off - n) = Some b" "length b = length (read_buffer ws)"
      "ws_core (ws\<lparr>read_buffer := b, read_buffer_offset := ?off - n\<rparr>)"
      "data_step ws ext (ws\<lparr>read_buffer := b, read_buffer_offset := ?off - n\<rparr>)"
      "?tame \<Longrightarrow> tame (take (?off - n) b)"
      using frame_consumed [OF core room 4(2-6)] by blast
    let ?ws = "ws\<lparr>read_buffer := b, read_buffer_offset := ?off - n\<rparr>"
    have "(ws_data_frames E ?ws (tr @ ext) = None \<and> \<not> tame (take (read_buffer_offset ?ws) (read_buffer ?ws))) \<or>
        runs (ws_data_frames E ?ws (tr @ ext)) Q"
      by (rule less.hyps [OF _ b(3)])
        (use 4(1,2) room b(2) Q [OF data_step_trans [OF b(4)]] in simp_all)
    moreover have "cont (n, ws\<lparr>read_buffer := buf\<rparr>, tr @ ext) = ws_data_frames E ?ws (tr @ ext)"
      using 4(1,2) b(1) by (simp add: cont_def)
    ultimately show ?case using b(5) by auto
  next
    case (5 n buf ext)
    from Q [OF frame_ended [OF core 5(3-5)]] show ?case by (simp add: cont_def)
  qed (use len Q [OF data_step_refl [OF core]] Q [OF data_step_close [OF core]] in \<open>auto simp: cont_def WS_MAX_LINE_def\<close>)
  moreover have "\<not> ?tame" if "2 \<le> ?off" "\<not> frame_no_wrap (read_buffer ws) ?off"
    using tame_no_wrap [OF _ that(1) room] that(2) by blast
  ultimately show ?case by (auto simp: unfold runs_def)
qed

section \<open>The event handler\<close>

text \<open>
  The outcome of an event on a connection: the invariant holds again, the connection has not gone
  back, the descriptor account is right (and loses nothing on an open connection), and data went
  only to the two ends.
\<close>

definition event_done :: "websocket \<Rightarrow> trace \<Rightarrow> websocket \<Rightarrow> bool" where
  "event_done ws ext ws' \<longleftrightarrow>
     ws_inv ws' \<and> state ws \<le> state ws' \<and> accounts ws ext ws' \<and>
     (state ws = ws_open \<longrightarrow> exact ws ext ws') \<and> conn_only ws ext"

lemma event_done_data: "data_step ws ext ws' \<Longrightarrow> read_buffer_offset ws' + 2 \<le> WS_MAX_LINE \<Longrightarrow> event_done ws ext ws'"
  by (simp add: data_step_def event_done_def ws_inv_def exact_accounts)

text \<open>A step that starts by receiving into a buffer of the connection.\<close>

lemma data_step_recv:
  assumes "data_step ws0 ext ws'" "state ws0 = state ws" "ws_fd ws0 = ws_fd ws" "peer_fd ws0 = peer_fd ws"
    and "fd = ws_fd ws \<or> fd = peer_fd ws"
  shows "data_step ws ((SysRecv fd len, r) # ext) ws'"
  using assms by (auto simp: data_step_def exact_def held_def conn_only_def)

lemma lines_step_recv:
  assumes "lines_step ws0 ext ws'" "state ws0 = state ws" "ws_fd ws0 = ws_fd ws" "peer_fd ws0 = peer_fd ws"
  shows "lines_step ws ((SysRecv (ws_fd ws) len, r) # ext) ws'"
  using assms by (simp add: lines_step_def accounts_def held_def client_only_def)

text \<open>The bytes a read may deliver behind the buffered ones make no length wrap.\<close>

definition tame_input :: "env \<Rightarrow> websocket \<Rightarrow> trace \<Rightarrow> bool" where
  "tame_input E ws tr \<longleftrightarrow>
     (let len = length (read_buffer ws) - read_buffer_offset ws - 1 in
      case rx E tr (ws_fd ws) len of
        None \<Rightarrow> True
      | Some ds \<Rightarrow> state ws = ws_open \<longrightarrow> tame (take (read_buffer_offset ws) (read_buffer ws) @ take len ds))"

lemma runs_size_limit:
  assumes E: "posix_send E" and core: "ws_core ws3"
    and ok: "read_buffer_offset ws3 + 2 \<le> WS_MAX_LINE \<Longrightarrow> Q (0, ws3, tr)"
    and over: "\<And>ext. close_trace ws3 ext \<Longrightarrow> Q (0, ws_reset ws3, tr @ ext)"
  shows "runs (if length (read_buffer ws3) - read_buffer_offset ws3 < 2
      then do { (_, ws4, tr4) \<leftarrow>
                  ws_close E ws3 ws_close_limit (Some (bytes ''Receive size limit exceeded'')) tr;
                Some (0, ws4, tr4) }
      else Some (0, ws3, tr)) Q"
proof -
  have "framing_releasable ws3" "length (read_buffer ws3) = WS_MAX_LINE"
    using core by (simp_all add: ws_core_def peer_sound_releasable)
  then show ?thesis using ok over by (auto intro!: runs_ws_close E)
qed

lemma lines_step_event:
  assumes "lines_step ws ext ws'" "state ws \<noteq> ws_open" "read_buffer_offset ws' + 2 \<le> WS_MAX_LINE"
  shows "event_done ws ext ws'"
  using assms by (auto simp: lines_step_def event_done_def ws_inv_def client_only_def conn_only_def)

lemma ws_core_offset [simp]: "ws_core (ws\<lparr>read_buffer_offset := k\<rparr>) \<longleftrightarrow> ws_core ws"
  by (simp add: ws_core_def peer_sound_def)

lemma lines_step_offset [simp]: "lines_step ws ext (ws'\<lparr>read_buffer_offset := k\<rparr>) \<longleftrightarrow> lines_step ws ext ws'"
  by (simp add: lines_step_def accounts_def held_def)

lemma lines_step_close:
  assumes "lines_step ws ext ws'" "state ws \<noteq> ws_open" "close_trace ws' e"
  shows "event_done ws (ext @ e) (ws_reset ws')"
proof -
  have core: "ws_core ws'" using assms(1) by (simp add: lines_step_def)
  have "accounts ws' e (ws_reset ws')" by (rule exact_accounts [OF exact_close [OF assms(3)]])
  then have "accounts ws (ext @ e) (ws_reset ws')"
    using assms(1) accounts_trans by (auto simp: lines_step_def)
  moreover have "conn_only ws (ext @ e)"
    using assms(1,3) by (auto simp: lines_step_def client_only_def conn_only_def close_trace_def)
  ultimately show ?thesis
    using assms(2) ws_core_resetI [OF core] by (simp add: event_done_def ws_inv_def WS_MAX_LINE_def)
qed

text \<open>A connection that is in order after an event, or would be once it is closed.\<close>

definition ready_after :: "websocket \<Rightarrow> trace \<Rightarrow> websocket \<Rightarrow> bool" where
  "ready_after ws ext ws3 \<longleftrightarrow>
     ws_core ws3 \<and> (read_buffer_offset ws3 + 2 \<le> WS_MAX_LINE \<longrightarrow> event_done ws ext ws3) \<and>
     (\<forall>e. close_trace ws3 e \<longrightarrow> event_done ws (ext @ e) (ws_reset ws3))"

lemma ready_after_data:
  assumes step: "data_step ws ext ws3"
  shows "ready_after ws ext ws3"
proof -
  have core: "ws_core ws3" using step by (simp add: data_step_def)
  moreover have "event_done ws (ext @ e) (ws_reset ws3)" if "close_trace ws3 e" for e
    using data_step_trans [OF step data_step_close [OF core that]]
    by (rule event_done_data) (simp add: WS_MAX_LINE_def)
  ultimately show ?thesis using event_done_data [OF step] by (simp add: ready_after_def)
qed

lemma ready_after_lines:
  assumes "lines_step ws ext ws3" "state ws \<noteq> ws_open"
  shows "ready_after ws ext (ws3\<lparr>read_buffer_offset := got\<rparr>)"
proof -
  have w: "lines_step ws ext (ws3\<lparr>read_buffer_offset := got\<rparr>)" using assms(1) by simp
  then have "ws_core (ws3\<lparr>read_buffer_offset := got\<rparr>)" by (simp add: lines_step_def)
  with lines_step_event [OF w assms(2)] lines_step_close [OF w assms(2)] show ?thesis
    unfolding ready_after_def by blast
qed

text \<open>The part of \<open>ws_data\<close> that depends on the state, after \<open>k\<close> bytes were received.\<close>

definition handle_received :: "env \<Rightarrow> services \<Rightarrow> websocket \<Rightarrow> nat \<Rightarrow> trace \<Rightarrow> (websocket \<times> trace) option" where
  "handle_received E SV ws k tr =
     (case state ws of
        ws_open \<Rightarrow> ws_data_frames E (ws\<lparr>read_buffer_offset := read_buffer_offset ws + k\<rparr>) tr
      | ws_closed \<Rightarrow> Some (ws, tr)
      | _ \<Rightarrow> do { (ws3, got, tr3) \<leftarrow> ws_data_lines E SV ws k 0 tr;
                 Some (ws3\<lparr>read_buffer_offset := got\<rparr>, tr3) })"

lemma handle_received_open:
  assumes E: "posix_send E" and core: "ws_core (ws\<lparr>read_buffer := buf\<rparr>)" and st: "state ws = ws_open"
    and k: "read_buffer_offset ws + k < length buf" "length buf = length (read_buffer ws)"
  shows "(handle_received E SV (ws\<lparr>read_buffer := buf\<rparr>) k (tr @ [(SysRecv (ws_fd ws) n, r)]) = None \<and>
      \<not> tame (take (read_buffer_offset ws + k) buf)) \<or>
    runs (handle_received E SV (ws\<lparr>read_buffer := buf\<rparr>) k (tr @ [(SysRecv (ws_fd ws) n, r)]))
      (\<lambda>(ws3, tr3). \<exists>ext. tr3 = tr @ ext \<and> ready_after ws ext ws3)"
proof -
  let ?W = "ws\<lparr>read_buffer := buf, read_buffer_offset := read_buffer_offset ws + k\<rparr>" and ?r = "(SysRecv (ws_fd ws) n, r)"
  have "(ws_data_frames E ?W (tr @ [?r]) = None \<and> \<not> tame (take (read_buffer_offset ?W) (read_buffer ?W))) \<or>
      runs (ws_data_frames E ?W (tr @ [?r])) (\<lambda>(ws3, tr3). \<exists>ext. tr3 = tr @ ext \<and> ready_after ws ext ws3)"
  proof (rule ws_data_frames_cases [OF E], goal_cases)
    case (3 ws3 ext)
    have "data_step ws (?r # ext) ws3" by (rule data_step_recv [OF 3(1)]) simp_all
    from ready_after_data [OF this] show ?case by auto
  qed (use core k in simp_all)
  with st show ?thesis by (simp add: handle_received_def)
qed

lemma handle_received_handshake:
  assumes E: "posix_send E" "services_ok SV" and core: "ws_core (ws\<lparr>read_buffer := buf\<rparr>)" and st: "state ws \<noteq> ws_open"
    and k: "read_buffer_offset ws + k < length buf"
  shows "runs (handle_received E SV (ws\<lparr>read_buffer := buf\<rparr>) k (tr @ [(SysRecv (ws_fd ws) n, r)]))
    (\<lambda>(ws3, tr3). \<exists>ext. tr3 = tr @ ext \<and> ready_after ws ext ws3)"
proof -
  let ?ws2 = "ws\<lparr>read_buffer := buf\<rparr>" and ?r = "(SysRecv (ws_fd ws) n, r)"
  have fresh: "peer_framing_data ?ws2 = FNull" using core st by (auto simp: ws_core_def)
  have "runs (ws_data_lines E SV ?ws2 k 0 (tr @ [?r]))
      (\<lambda>(ws3, got, tr3). \<exists>ext. tr3 = tr @ ext \<and> ready_after ws ext (ws3\<lparr>read_buffer_offset := got\<rparr>))"
  proof (rule runs_ws_data_lines [OF E core fresh], goal_cases)
    case (2 ws3 got ext)
    have "lines_step ws (?r # ext) ws3" by (rule lines_step_recv [OF 2(1)]) simp_all
    from ready_after_lines [OF this st] show ?case by auto
  qed (use k in simp)
  moreover have "ready_after ws [?r] ?ws2"
  proof -
    have "lines_step ws [?r] ?ws2"
      by (rule lines_step_recv [OF line_step_lines [OF line_step_refl [OF core fresh]]]) simp_all
    from ready_after_lines [OF this st, of "read_buffer_offset ws"] show ?thesis by simp
  qed
  ultimately show ?thesis using st by (cases "state ws") (auto simp: runs_def handle_received_def)
qed

text \<open>A failed or empty receive closes the connection.\<close>

lemma ws_data_receive_close:
  assumes E: "posix_send E" and core: "ws_core ws" and len: "length buf = length (read_buffer ws)"
  shows "\<exists>u ws' ext. ws_close E (ws\<lparr>read_buffer := buf\<rparr>) ws_close_unexpected None (tr @ [(SysRecv (ws_fd ws) n, r)]) =
    Some (u, ws', tr @ ext) \<and> event_done ws ext ws'"
proof -
  let ?ws = "ws\<lparr>read_buffer := buf\<rparr>" and ?r = "(SysRecv (ws_fd ws) n, r)"
  have "framing_releasable ?ws" using core by (simp add: ws_core_def peer_sound_def peer_sound_releasable)
  then obtain ext where c: "ws_close E ?ws ws_close_unexpected None (tr @ [?r]) = Some (0, ws_reset ?ws, tr @ ?r # ext)"
    "close_trace ?ws ext"
    using ws_close_obtain [OF E] by (metis append.assoc append_Cons append_Nil)
  have "data_step ws (?r # ext) (ws_reset ?ws)"
    by (rule data_step_recv [OF data_step_close [OF ws_core_buffer [OF core len] c(2)]]) simp_all
  then have "event_done ws (?r # ext) (ws_reset ?ws)"
    by (rule event_done_data) (simp add: WS_MAX_LINE_def)
  with c(1) show ?thesis by blast
qed

lemma ws_data_cases:
  assumes E: "posix_send E" "services_ok SV" and inv: "ws_inv ws"
    and Q: "\<And>ext ws'. event_done ws ext ws' \<Longrightarrow> Q (0, ws', tr @ ext)"
  shows "(ws_data E SV ws tr = None \<and> \<not> tame_input E ws tr) \<or> runs (ws_data E SV ws tr) Q"
proof -
  let ?off = "read_buffer_offset ws"
  have core: "ws_core ws" and off: "?off + 2 \<le> WS_MAX_LINE" and len: "length (read_buffer ws) = WS_MAX_LINE"
    using inv by (simp_all add: ws_inv_def ws_core_def)
  let ?len = "length (read_buffer ws) - ?off - 1"
  have room: "?off + ?len \<le> length (read_buffer ws)" "\<not> length (read_buffer ws) \<le> ?off" using off len by simp_all
  note close = ws_data_receive_close [OF E(1) core, of "read_buffer ws" tr ?len]
  show ?thesis
    using room(1)
  proof (cases rule: recv_total [of ?off ?len "read_buffer ws" E "ws_fd ws" tr])
    case error
    with close [of "-1"] room(2) Q show ?thesis by (auto simp: ws_data_def)
  next
    case (data ds)
    let ?k = "length ds" and ?r = "(SysRecv (ws_fd ws) ?len, int (length ds))"
    define buf1 where "buf1 = (take ?off (read_buffer ws) @ ds @ drop (?off + ?k) (read_buffer ws))[?off + ?k := 0]"
    have in_bounds: "?off + ?k < length (read_buffer ws)" using data(1) room(2) by simp
    have len1: "length buf1 = length (read_buffer ws)" using in_bounds by (simp add: buf1_def)
    have core2: "ws_core (ws\<lparr>read_buffer := buf1\<rparr>)" by (rule ws_core_buffer [OF core len1])
    let ?handle = "handle_received E SV (ws\<lparr>read_buffer := buf1\<rparr>) ?k (tr @ [?r])"
    have "(?handle = None \<and> \<not> tame_input E ws tr) \<or>
        runs ?handle (\<lambda>(ws3, tr3). \<exists>ext. tr3 = tr @ ext \<and> ready_after ws ext ws3)"
    proof (cases "state ws = ws_open")
      case True
      have "take (?off + ?k) buf1 = take ?off (read_buffer ws) @ ds"
        using in_bounds by (simp add: buf1_def list_update_append)
      then have "tame_input E ws tr \<Longrightarrow> tame (take (?off + ?k) buf1)"
        using data(2) True by (auto simp: tame_input_def Let_def)
      moreover have "?off + ?k < length buf1" using in_bounds len1 by simp
      ultimately show ?thesis
        using handle_received_open [OF E(1) core2 True _ len1, where SV = SV and tr = tr and n = ?len and r = "int ?k" and k = ?k]
        by blast
    next
      case False
      with handle_received_handshake [OF E core2] in_bounds len1 show ?thesis by simp
    qed
    moreover have "ws_data E SV ws tr = Option.bind ?handle
        (\<lambda>(ws3, tr3). if length (read_buffer ws3) - read_buffer_offset ws3 < 2
          then do { (_, ws4, tr4) \<leftarrow>
                  ws_close E ws3 ws_close_limit (Some (bytes ''Receive size limit exceeded'')) tr3;
                Some (0, ws4, tr4) }
          else Some (0, ws3, tr3))" if "ds \<noteq> []"
      using data(3) room(2) that in_bounds by (cases "state ws") (simp_all add: ws_data_def buf1_def handle_received_def)
    moreover have "runs (if length (read_buffer ws3) - read_buffer_offset ws3 < 2
          then do { (_, ws4, tr4) \<leftarrow>
                  ws_close E ws3 ws_close_limit (Some (bytes ''Receive size limit exceeded'')) (tr @ ext);
                Some (0, ws4, tr4) }
          else Some (0, ws3, tr @ ext)) Q" if "ready_after ws ext ws3" for ws3 ext
      using that Q by (intro runs_size_limit E) (auto simp: ready_after_def)
    moreover have "runs (ws_data E SV ws tr) Q" if "ds = []"
      using close [of 0] data(3) room(2) Q that by (auto simp: ws_data_def)
    ultimately show ?thesis by (cases "ds = []") (fastforce simp: runs_def)+
  qed
qed

lemma runs_ws_data [runs_rules]:
  assumes "posix_send E" "services_ok SV" "ws_inv ws" "tame_input E ws tr"
    and "\<And>ext ws'. event_done ws ext ws' \<Longrightarrow> Q (0, ws', tr @ ext)"
  shows "runs (ws_data E SV ws tr) Q"
  using ws_data_cases [where Q = Q and tr = tr, OF assms(1,2,3,5)] assms(4) by blast

text \<open>Without any assumption on the input: if the handler does not overrun the buffer, it is correct.\<close>

lemma ws_data_SomeD:
  assumes "posix_send E" "services_ok SV" "ws_inv ws" "ws_data E SV ws tr = Some (r, ws', tr')"
  obtains ext where "r = 0" "tr' = tr @ ext" "event_done ws ext ws'"
  using ws_data_cases [OF assms(1,2,3), where tr = tr and
      Q = "\<lambda>(r, ws', tr'). r = 0 \<and> (\<exists>ext. tr' = tr @ ext \<and> event_done ws ext ws')"] assms(4)
  by auto

end
