(* ===== verification/Peerdata.thy ===== *)
theory Peerdata
  imports Wsdata
begin

text \<open>
  \<open>ws_peer_data\<close> of \<open>websocksy.c\<close>: receiving from the peer, cutting the stream into frames with
  the connection's framing function, and forwarding them to the client.
\<close>

section \<open>The handler\<close>

text \<open>
  The loop around the framing function. \<open>got\<close> is the source's \<open>bytes_read\<close>; the first component
  of the result is the value returned from inside the loop, if any. The last test of the loop
  reads \<open>bytes_framed\<close> after the offset has been subtracted from it.
\<close>

partial_function (option) ws_peer_loop ::
  "env \<Rightarrow> websocket \<Rightarrow> nat \<Rightarrow> ws_operation \<Rightarrow> trace \<Rightarrow> (int option \<times> websocket \<times> nat \<times> trace) option" where
  "ws_peer_loop E ws got opcode tr =
     do { f \<leftarrow> framing (peer ws);
          (framed, op1, fd1) \<leftarrow>
            f (Some (peer_buffer ws)) (peer_buffer_offset ws + got) got (Some opcode)
              (Some (peer_framing_data ws)) (framing_config (peer ws));
          op \<leftarrow> op1;
          fdata \<leftarrow> fd1;
          let ws1 = ws\<lparr>peer_framing_data := fdata\<rparr>;
          let off = peer_buffer_offset ws;
          let n = nat framed;
          if framed > 0
          then if off + got < n
               then do { (_, ws2, tr1) \<leftarrow>
                           ws_close E ws1 ws_close_unexpected (Some (bytes ''Internal error'')) tr;
                         Some (Some 0, ws2, got, tr1) }
               else do {
                 (r, tr1) \<leftarrow> (if op \<noteq> ws_frame_discard
                             then ws_send_frame E ws1 op (take n (peer_buffer ws)) tr
                             else Some (0, tr));
                 if r \<noteq> 0 then Some (Some 1, ws1, got, tr1)
                 else do {
                   buf \<leftarrow> memmove (peer_buffer ws) 0 n (off + got - n);
                   if n < off
                   then ws_peer_loop E (ws1\<lparr>peer_buffer := buf, peer_buffer_offset := off - n\<rparr>) got op tr1
                   else
                     let ws2 = ws1\<lparr>peer_buffer := buf, peer_buffer_offset := 0\<rparr>;
                         left = n - off; got1 = got - left
                     in if left \<noteq> 0 \<and> 0 < got1
                        then ws_peer_loop E ws2 got1 op tr1
                        else Some (None, ws2, got1, tr1) } }
          else if framed < 0 \<and> 0 < off + got then ws_peer_loop E ws1 got op tr
          else Some (None, ws1, got, tr) }"

definition ws_peer_data :: "env \<Rightarrow> websocket \<Rightarrow> trace \<Rightarrow> (int \<times> websocket \<times> trace) option" where
  "ws_peer_data E ws tr =
     (if length (peer_buffer ws) \<le> peer_buffer_offset ws then None
      else do {
        (r, buf, tr1) \<leftarrow> recv E (peer_fd ws) (peer_buffer ws) (peer_buffer_offset ws)
                           (length (peer_buffer ws) - peer_buffer_offset ws - 1) tr;
        let ws1 = ws\<lparr>peer_buffer := buf\<rparr>;
        if r < 0
        then do { (_, ws2, tr2) \<leftarrow>
                    ws_close E ws1 ws_close_unexpected (Some (bytes ''Peer connection failed'')) tr1;
                  Some (0, ws2, tr2) }
        else if r = 0
        then do { (_, ws2, tr2) \<leftarrow>
                    ws_close E ws1 ws_close_normal (Some (bytes ''Peer closed connection'')) tr1;
                  Some (0, ws2, tr2) }
        else do {
          buf1 \<leftarrow> wr buf (peer_buffer_offset ws1 + nat r) 0;
          (rv, ws2, got, tr2) \<leftarrow>
            ws_peer_loop E (ws1\<lparr>peer_buffer := buf1\<rparr>) (nat r) ws_frame_binary tr1;
          case rv of
            Some v \<Rightarrow> Some (v, ws2, tr2)
          | None \<Rightarrow> Some (0, ws2\<lparr>peer_buffer_offset := peer_buffer_offset ws2 + got\<rparr>, tr2) } })"

section \<open>The stream contract\<close>

text \<open>What a list of frames puts on the wire; a discarded frame is cut off the stream but not sent.\<close>

definition wire :: "(ws_operation \<times> u8 list) list \<Rightarrow> u8 list" where
  "wire fs = concat (map (\<lambda>(op, p). if op = ws_frame_discard then [] else frame_bytes op p) fs)"

definition stream_of :: "(ws_operation \<times> u8 list) list \<Rightarrow> u8 list" where
  "stream_of fs = concat (map snd fs)"

lemma wire_simps [simp]:
  "wire [] = []" "wire ((op, p) # fs) = (if op = ws_frame_discard then [] else frame_bytes op p) @ wire fs"
  by (simp_all add: wire_def)

lemma stream_of_simps [simp]: "stream_of [] = []" "stream_of ((op, p) # fs) = p @ stream_of fs"
  by (simp_all add: stream_of_def)

text \<open>
  A pass of the loop over \<open>len\<close> bytes has forwarded the frames \<open>fs\<close>: they are a prefix of the
  stream, in order, non-empty each, and what is left of it is at the front of the buffer.
\<close>

definition peer_pass ::
  "(framing_data \<Rightarrow> bool) \<Rightarrow> (u8 list \<Rightarrow> bool) \<Rightarrow> websocket \<Rightarrow> nat \<Rightarrow> (ws_operation \<times> u8 list) list \<Rightarrow> websocket \<Rightarrow> nat \<Rightarrow> bool" where
  "peer_pass I P ws len fs ws' len' \<longleftrightarrow>
     (\<exists>fd buf off. ws' = ws\<lparr>peer_framing_data := fd, peer_buffer := buf, peer_buffer_offset := off\<rparr> \<and> I fd \<and>
        off \<le> peer_buffer_offset ws \<and>
        length buf = length (peer_buffer ws) \<and> len' \<le> len \<and>
        stream_of fs @ take len' buf = take len (peer_buffer ws) \<and> (\<forall>(op, p)\<in>set fs. p \<noteq> [] \<and> P p))"

lemma peer_pass_refl: "I fd \<Longrightarrow> peer_pass I P ws len [] (ws\<lparr>peer_framing_data := fd\<rparr>) len"
  by (auto simp: peer_pass_def intro!: exI [of _ fd] exI [of _ "peer_buffer ws"] exI [of _ "peer_buffer_offset ws"])

text \<open>The connection once the first \<open>n\<close> bytes are handled.\<close>

definition peer_shifted :: "websocket \<Rightarrow> framing_data \<Rightarrow> nat \<Rightarrow> nat \<Rightarrow> nat \<Rightarrow> websocket" where
  "peer_shifted ws fd len n off =
     ws\<lparr>peer_framing_data := fd,
        peer_buffer := take (len - n) (drop n (peer_buffer ws)) @ drop (len - n) (peer_buffer ws),
        peer_buffer_offset := off\<rparr>"

lemma peer_pass_self: "I (peer_framing_data ws) \<Longrightarrow> peer_pass I P ws len [] ws len"
  using peer_pass_refl [of I "peer_framing_data ws" P ws len] by simp

lemma peer_pass_step:
  assumes "peer_pass I P (peer_shifted ws fd len n off) (len - n) fs ws' len'"
    and "off \<le> peer_buffer_offset ws" "0 < n" "n \<le> len" "len \<le> length (peer_buffer ws)"
    and "P (take n (peer_buffer ws))"
  shows "peer_pass I P ws len ((op, take n (peer_buffer ws)) # fs) ws' len'"
proof -
  let ?buf = "peer_buffer (peer_shifted ws fd len n off)"
  from assms(1) obtain fd' buf' off' where ws': "ws' = ws\<lparr>peer_framing_data := fd', peer_buffer := buf', peer_buffer_offset := off'\<rparr>"
    "I fd'" "off' \<le> off" "length buf' = length ?buf" "len' \<le> len - n"
    "stream_of fs @ take len' buf' = take (len - n) ?buf" "\<forall>(op, p)\<in>set fs. p \<noteq> [] \<and> P p"
    by (auto simp: peer_pass_def peer_shifted_def)
  have "take (len - n) ?buf = take (len - n) (drop n (peer_buffer ws))" "length ?buf = length (peer_buffer ws)"
    using assms(4,5) by (simp_all add: peer_shifted_def)
  moreover have "take n (peer_buffer ws) @ take (len - n) (drop n (peer_buffer ws)) = take len (peer_buffer ws)"
    using assms(4) by (metis le_add_diff_inverse take_add)
  moreover have "take n (peer_buffer ws) \<noteq> []" using assms(3-5) by auto
  ultimately show ?thesis
    unfolding peer_pass_def
    using ws' assms(2,6) by (intro exI [of _ fd'] exI [of _ buf'] exI [of _ off']) auto
qed

text \<open>
  How the loop ends, with \<open>ext\<close> what it did: everything that is complete was forwarded (no return
  value yet), or a \<open>send\<close> failed within the frame behind \<open>fs\<close> and the handler returns 1.
\<close>

definition peer_loop_end ::
  "(framing_data \<Rightarrow> bool) \<Rightarrow> (u8 list \<Rightarrow> bool) \<Rightarrow> env \<Rightarrow> websocket \<Rightarrow> nat \<Rightarrow> trace \<Rightarrow>
   int option \<Rightarrow> websocket \<Rightarrow> nat \<Rightarrow> bool" where
  "peer_loop_end I P E ws len ext rv ws' got' \<longleftrightarrow>
     only_sends (ws_fd ws) ext \<and>
     (case rv of
        None \<Rightarrow> \<exists>fs. peer_pass I P ws len fs ws' (peer_buffer_offset ws' + got') \<and> sent_on (ws_fd ws) ext = wire fs
      | Some v \<Rightarrow> v = 1 \<and> send_fails E (ws_fd ws) \<and>
          (\<exists>fs op p len'. peer_pass I P ws len fs ws' len' \<and> prefix (wire fs) (sent_on (ws_fd ws) ext) \<and>
             strict_prefix (sent_on (ws_fd ws) ext) (wire (fs @ [(op, p)]))))"

text \<open>The loop from there.\<close>

definition ws_peer_next ::
  "env \<Rightarrow> websocket \<Rightarrow> framing_data \<Rightarrow> nat \<Rightarrow> nat \<Rightarrow> ws_operation \<Rightarrow> trace \<Rightarrow>
   (int option \<times> websocket \<times> nat \<times> trace) option" where
  "ws_peer_next E ws fd n got op tr =
     (let off = peer_buffer_offset ws; w = peer_shifted ws fd (off + got) n; left = n - off
      in if n < off then ws_peer_loop E (w (off - n)) got op tr
         else if left \<noteq> 0 \<and> 0 < got - left then ws_peer_loop E (w 0) (got - left) op tr
         else Some (None, w 0, got - left, tr))"

lemma ws_peer_loop_frame:
  assumes "framing (peer ws) = Some f"
    and "f (Some (peer_buffer ws)) (peer_buffer_offset ws + got) got (Some op) (Some (peer_framing_data ws))
      (framing_config (peer ws)) = Some (int n, Some op1, Some fd1)"
    and "n \<noteq> 0" "n \<le> peer_buffer_offset ws + got" "peer_buffer_offset ws + got < length (peer_buffer ws)"
  shows "ws_peer_loop E ws got op tr =
    do { (r, tr1) \<leftarrow> (if op1 \<noteq> ws_frame_discard
                     then ws_send_frame E (ws\<lparr>peer_framing_data := fd1\<rparr>) op1 (take n (peer_buffer ws)) tr
                     else Some (0, tr));
         if r \<noteq> 0 then Some (Some 1, ws\<lparr>peer_framing_data := fd1\<rparr>, got, tr1)
         else ws_peer_next E ws fd1 n got op1 tr1 }"
  using assms
  by (simp add: ws_peer_loop.simps [of E ws got op tr] ws_peer_next_def peer_shifted_def memmove_front Let_def
      case_prod_beta' cong: if_cong)

lemma peer_loop_end_stop:
  assumes "I fd" "0 < n" "n \<le> len" "len \<le> length (peer_buffer ws)" "P (take n (peer_buffer ws))"
    and "only_sends (ws_fd ws) ext" "sent_on (ws_fd ws) ext = wire [(op, take n (peer_buffer ws))]"
  shows "peer_loop_end I P E ws len ext None (peer_shifted ws fd len n 0) (len - n)"
proof -
  have "peer_pass I P ws len [(op, take n (peer_buffer ws))] (peer_shifted ws fd len n 0) (len - n)"
    by (rule peer_pass_step [OF peer_pass_self]) (use assms in \<open>simp_all add: peer_shifted_def\<close>)
  with assms(6,7) show ?thesis
    by (auto simp: peer_loop_end_def peer_shifted_def intro!: exI [of _ "[(op, take n (peer_buffer ws))]"])
qed

lemma peer_loop_end_step:
  assumes "peer_loop_end I P E (peer_shifted ws fd len n off) (len - n) e rv ws' got'" "off \<le> peer_buffer_offset ws"
    and n: "0 < n" "n \<le> len" "len \<le> length (peer_buffer ws)" "P (take n (peer_buffer ws))"
    and ext: "only_sends (ws_fd ws) ext" "sent_on (ws_fd ws) ext = wire [(op, take n (peer_buffer ws))]"
  shows "peer_loop_end I P E ws len (ext @ e) rv ws' got'"
proof -
  let ?p = "take n (peer_buffer ws)"
  have pass: "peer_pass I P ws len ((op, ?p) # fs) ws' len'"
    if "peer_pass I P (peer_shifted ws fd len n off) (len - n) fs ws' len'" for fs len'
    by (rule peer_pass_step [where P = P, OF that assms(2) n])
  have w: "ws_fd (peer_shifted ws fd len n off) = ws_fd ws" by (simp add: peer_shifted_def)
  show ?thesis
  proof (cases rv)
    case None
    with assms(1) obtain fs where "only_sends (ws_fd ws) e" "sent_on (ws_fd ws) e = wire fs"
      "peer_pass I P (peer_shifted ws fd len n off) (len - n) fs ws' (peer_buffer_offset ws' + got')"
      by (auto simp: peer_loop_end_def w)
    with None ext pass show ?thesis
      by (auto simp: peer_loop_end_def intro!: exI [of _ "(op, ?p) # fs"])
  next
    case (Some v)
    with assms(1) obtain fs op' p len' where f: "v = 1" "send_fails E (ws_fd ws)" "only_sends (ws_fd ws) e"
      "prefix (wire fs) (sent_on (ws_fd ws) e)" "strict_prefix (sent_on (ws_fd ws) e) (wire (fs @ [(op', p)]))"
      "peer_pass I P (peer_shifted ws fd len n off) (len - n) fs ws' len'"
      by (auto simp: peer_loop_end_def w)
    have "prefix (wire ((op, ?p) # fs)) (sent_on (ws_fd ws) (ext @ e))"
      "strict_prefix (sent_on (ws_fd ws) (ext @ e)) (wire (((op, ?p) # fs) @ [(op', p)]))"
      using f(4,5) ext(2) by simp_all
    with f(1-3) ext(1) pass [OF f(6)] show ?thesis
      unfolding peer_loop_end_def Some option.case
      by (intro conjI exI [of _ "(op, ?p) # fs"] exI [of _ op'] exI [of _ p] exI [of _ len']) simp_all
  qed
qed

context framing_shape_law
begin

text \<open>The loop around a lawful framing function ends, and forwards the stream unchanged.\<close>

lemma ws_peer_loop_ends:
  assumes E: "posix_send E"
  shows "framing (peer ws) = Some f \<Longrightarrow> framing_config (peer ws) = cfg \<Longrightarrow> I (peer_framing_data ws) \<Longrightarrow>
    peer_buffer_offset ws + got < length (peer_buffer ws) \<Longrightarrow>
    runs (ws_peer_loop E ws got op tr) (\<lambda>(rv, ws', got', tr'). \<exists>ext. tr' = tr @ ext \<and>
      peer_loop_end I shape E ws (peer_buffer_offset ws + got) ext rv ws' got')"
proof (induction "peer_buffer_offset ws + got" arbitrary: ws got op tr rule: less_induct)
  case less
  let ?off = "peer_buffer_offset ws" and ?len = "peer_buffer_offset ws + got"
  let ?Q = "\<lambda>(rv, ws', got', tr'). \<exists>ext. tr' = tr @ ext \<and> peer_loop_end I shape E ws ?len ext rv ws' got'"
  note fr = less.prems(1,2) and inv = less.prems(3) and room = less.prems(4)
  obtain n op1 fd1 where fcall: "f (Some (peer_buffer ws)) ?len got (Some op) (Some (peer_framing_data ws)) cfg =
      Some (int n, Some op1, Some fd1)" and n: "n \<le> ?len" and fd1: "I fd1"
    using data [OF inv room, of got op] by auto
  let ?ws1 = "ws\<lparr>peer_framing_data := fd1\<rparr>" and ?p = "take n (peer_buffer ws)"
  have same: "peer_pass I shape ws ?len [] ?ws1 ?len" by (rule peer_pass_refl [where I = I, OF fd1])
  show ?case
  proof (cases "n = 0")
    case True
    have "peer_loop_end I shape E ws ?len [] None ?ws1 got"
      using same by (auto simp: peer_loop_end_def intro!: exI [of _ "[]"])
    then show ?thesis using True by (simp add: ws_peer_loop.simps [of E ws got op tr] fr fcall Let_def)
  next
    case False
    then have pos: "0 < n" by simp
    have sh: "shape ?p" using shape [OF inv room _ fcall] False by simp
    have "runs (ws_peer_next E ws fd1 n got op1 (tr @ ext)) ?Q"
      if ext: "only_sends (ws_fd ws) ext" "sent_on (ws_fd ws) ext = wire [(op1, ?p)]" for ext
    proof -
      let ?w = "peer_shifted ws fd1 ?len n"
      have again: "runs (ws_peer_loop E (?w off) g op1 (tr @ ext)) ?Q" if off: "off + g = ?len - n" "off \<le> ?off" for off g
      proof (rule runs_weaken [OF less.hyps])
        fix r assume "case r of (rv, ws', got', tr') \<Rightarrow> \<exists>e. tr' = (tr @ ext) @ e \<and>
          peer_loop_end I shape E (?w off) (peer_buffer_offset (?w off) + g) e rv ws' got'"
        with peer_loop_end_step [where P = shape, OF _ off(2) pos n less_imp_le [OF room] sh ext] off(1) show "?Q r"
          by (fastforce simp: peer_shifted_def)
      qed (use False n off room fr fd1 in \<open>simp_all add: peer_shifted_def\<close>)
      have "peer_loop_end I shape E ws ?len ext None (?w 0) (?len - n)"
        by (rule peer_loop_end_stop [where I = I and P = shape, OF fd1 pos n less_imp_le [OF room] sh ext])
      moreover have "got - (n - ?off) = ?len - n" if "\<not> n < ?off" using that n by simp
      ultimately have "?Q (None, ?w 0, got - (n - ?off), tr @ ext)" if "\<not> n < ?off" using that by simp
      with again n show ?thesis by (auto simp: ws_peer_next_def Let_def)
    qed
    note rest = this
    have failed: "?Q (Some 1, ?ws1, got, tr @ e)" if "only_sends (ws_fd ws) e" "op1 \<noteq> ws_frame_discard"
        "strict_prefix (sent_on (ws_fd ws) e) (frame_bytes op1 ?p)" "send_fails E (ws_fd ws)" for e
      using that same by (auto simp: peer_loop_end_def intro!: exI [of _ "[]"] exI [of _ op1] exI [of _ ?p])
    have frame: "f (Some (peer_buffer ws)) ?len got (Some op) (Some (peer_framing_data ws)) (framing_config (peer ws)) =
      Some (int n, Some op1, Some fd1)" using fcall fr(2) by simp
    show ?thesis
      unfolding ws_peer_loop_frame [OF fr(1) frame False n room]
      using rest [of "[]"] rest failed by (auto intro!: runs_ws_send_frame E)
  qed
qed

lemma runs_ws_peer_loop:
  assumes E: "posix_send E"
    and f: "framing (peer ws) = Some f" "framing_config (peer ws) = cfg" "I (peer_framing_data ws)"
    and room: "peer_buffer_offset ws + got < length (peer_buffer ws)"
    and finish: "\<And>fs ws' got' ext.
      peer_pass I shape ws (peer_buffer_offset ws + got) fs ws' (peer_buffer_offset ws' + got') \<Longrightarrow>
      only_sends (ws_fd ws) ext \<Longrightarrow> sent_on (ws_fd ws) ext = wire fs \<Longrightarrow> Q (None, ws', got', tr @ ext)"
    and failed: "\<And>fs op p ws' got' len' ext. peer_pass I shape ws (peer_buffer_offset ws + got) fs ws' len' \<Longrightarrow>
      only_sends (ws_fd ws) ext \<Longrightarrow> strict_prefix (sent_on (ws_fd ws) ext) (wire (fs @ [(op, p)])) \<Longrightarrow>
      prefix (wire fs) (sent_on (ws_fd ws) ext) \<Longrightarrow> send_fails E (ws_fd ws) \<Longrightarrow> Q (Some 1, ws', got', tr @ ext)"
  shows "runs (ws_peer_loop E ws got op tr) Q"
proof (rule runs_weaken [OF ws_peer_loop_ends [OF E f room]], clarify, goal_cases)
  case (1 rv ws' got' tr' ext)
  then show ?case using finish failed by (cases rv) (auto simp: peer_loop_end_def)
qed

end

text \<open>
  A negative result of the framing function is not handled: when it repeats, the loop does not
  end. The \<open>separator\<close> function answers so on every call when its configuration is malformed.
\<close>

lemma ws_peer_loop_negative:
  assumes "ws_peer_loop E ws got op tr = Some r"
  shows "\<not> (framing (peer ws) = Some f \<and> 0 < peer_buffer_offset ws + got \<and>
    (\<forall>d len op. f (Some d) len got (Some op) (Some (peer_framing_data ws)) (framing_config (peer ws)) =
       Some (-1, Some op, Some (peer_framing_data ws))))"
proof (rule ws_peer_loop.raw_induct [OF _ assms], goal_cases)
  case (1 loop E ws got op tr r)
  show ?case
  proof
    assume neg: "framing (peer ws) = Some f \<and> 0 < peer_buffer_offset ws + got \<and>
      (\<forall>d len op. f (Some d) len got (Some op) (Some (peer_framing_data ws)) (framing_config (peer ws)) =
         Some (-1, Some op, Some (peer_framing_data ws)))"
    then have "loop E (ws\<lparr>peer_framing_data := peer_framing_data ws\<rparr>) got op tr = Some r"
      using 1(2) by simp
    from 1(1) [OF this] neg show False by simp
  qed
qed

section \<open>The event handler\<close>

definition buffered :: "websocket \<Rightarrow> u8 list" where
  "buffered ws = take (peer_buffer_offset ws) (peer_buffer ws)"

text \<open>The bytes the kernel delivers to the handler, at most the room in the buffer less one.\<close>

definition peer_delivery :: "env \<Rightarrow> websocket \<Rightarrow> trace \<Rightarrow> u8 list option" where
  "peer_delivery E ws tr =
     (let len = length (peer_buffer ws) - peer_buffer_offset ws - 1
      in map_option (take len) (rx E tr (peer_fd ws) len))"

text \<open>What follows the loop, and the handler on delivered data.\<close>

definition peer_data_end :: "int option \<times> websocket \<times> nat \<times> trace \<Rightarrow> (int \<times> websocket \<times> trace) option" where
  "peer_data_end = (\<lambda>(rv, ws2, got, tr2). case rv of
            Some v \<Rightarrow> Some (v, ws2, tr2)
          | None \<Rightarrow> Some (0, ws2\<lparr>peer_buffer_offset := peer_buffer_offset ws2 + got\<rparr>, tr2))"

lemma ws_peer_data_delivered:
  assumes "peer_buffer_offset ws < length (peer_buffer ws)" "peer_delivery E ws tr = Some ds" "ds \<noteq> []"
  obtains buf1 where "length buf1 = length (peer_buffer ws)"
    "peer_buffer_offset ws + length ds < length (peer_buffer ws)"
    "take (peer_buffer_offset ws + length ds) buf1 = buffered ws @ ds"
    "ws_peer_data E ws tr = Option.bind
       (ws_peer_loop E (ws\<lparr>peer_buffer := buf1\<rparr>) (length ds) ws_frame_binary
          (tr @ [(SysRecv (peer_fd ws) (length (peer_buffer ws) - peer_buffer_offset ws - 1), int (length ds))]))
       peer_data_end"
proof -
  let ?off = "peer_buffer_offset ws" and ?len = "length (peer_buffer ws) - peer_buffer_offset ws - 1"
  have room: "?off + ?len \<le> length (peer_buffer ws)" using assms(1) by simp
  show ?thesis
    using room
  proof (cases rule: recv_total [of ?off ?len "peer_buffer ws" E "peer_fd ws" tr])
    case error
    then have "peer_delivery E ws tr = None"
      by (auto simp: peer_delivery_def recv_def Let_def put_def split: option.splits if_splits)
    with assms(2) show ?thesis by simp
  next
    case (data ds')
    then have "ds' = ds" using assms(2) by (auto simp: peer_delivery_def Let_def)
    note data = data [unfolded this]
    let ?buf1 = "(take ?off (peer_buffer ws) @ ds @ drop (?off + length ds) (peer_buffer ws))[?off + length ds := 0]"
    have in_bounds: "?off + length ds < length (peer_buffer ws)" using data(1) assms(1) by simp
    show ?thesis
    proof (rule that [of ?buf1])
      show "take (?off + length ds) ?buf1 = buffered ws @ ds"
        using in_bounds by (simp add: buffered_def list_update_append)
      show "ws_peer_data E ws tr = Option.bind
         (ws_peer_loop E (ws\<lparr>peer_buffer := ?buf1\<rparr>) (length ds) ws_frame_binary
            (tr @ [(SysRecv (peer_fd ws) ?len, int (length ds))])) peer_data_end"
        using data(3) assms(1,3) in_bounds by (simp add: ws_peer_data_def peer_data_end_def)
    qed (use in_bounds in auto)
  qed
qed

context framing_shape_law
begin

text \<open>The frames of one delivery all have the shape, whatever else the connection is.\<close>

lemma ws_peer_data_frames:
  assumes E: "posix_send E"
    and f: "framing (peer ws) = Some f" "framing_config (peer ws) = cfg" "I (peer_framing_data ws)"
    and d: "peer_buffer_offset ws < length (peer_buffer ws)" "peer_delivery E ws tr = Some ds" "ds \<noteq> []"
  shows "\<exists>r ws' ext fs. ws_peer_data E ws tr = Some (r, ws', tr @ ext) \<and>
    (\<forall>(op, p)\<in>set fs. p \<noteq> [] \<and> shape p) \<and>
    (r = 0 \<and> sent_on (ws_fd ws) ext = wire fs \<and> stream_of fs @ buffered ws' = buffered ws @ ds \<or>
     r = 1 \<and> prefix (wire fs) (sent_on (ws_fd ws) ext) \<and> send_fails E (ws_fd ws))"
proof -
  obtain buf1 where b: "length buf1 = length (peer_buffer ws)"
    "peer_buffer_offset ws + length ds < length (peer_buffer ws)"
    "take (peer_buffer_offset ws + length ds) buf1 = buffered ws @ ds"
    and eq: "ws_peer_data E ws tr = Option.bind
       (ws_peer_loop E (ws\<lparr>peer_buffer := buf1\<rparr>) (length ds) ws_frame_binary
          (tr @ [(SysRecv (peer_fd ws) (length (peer_buffer ws) - peer_buffer_offset ws - 1), int (length ds))]))
       peer_data_end"
    by (rule ws_peer_data_delivered [OF d])
  let ?Q = "\<lambda>(r, ws', tr'). \<exists>ext fs. tr' = tr @ ext \<and> (\<forall>(op, p)\<in>set fs. p \<noteq> [] \<and> shape p) \<and>
    (r = 0 \<and> sent_on (ws_fd ws) ext = wire fs \<and> stream_of fs @ buffered ws' = buffered ws @ ds \<or>
     r = 1 \<and> prefix (wire fs) (sent_on (ws_fd ws) ext) \<and> send_fails E (ws_fd ws))"
  let ?r = "(SysRecv (peer_fd ws) (length (peer_buffer ws) - peer_buffer_offset ws - 1), int (length ds))"
  have "runs (ws_peer_loop E (ws\<lparr>peer_buffer := buf1\<rparr>) (length ds) ws_frame_binary (tr @ [?r]))
      (\<lambda>x. runs (peer_data_end x) ?Q)"
  proof (rule runs_ws_peer_loop [OF E], goal_cases)
    case (5 fs ws' got ext)
    have "\<forall>(op, p)\<in>set fs. p \<noteq> [] \<and> shape p"
      "stream_of fs @ take (peer_buffer_offset ws' + got) (peer_buffer ws') = buffered ws @ ds"
      using 5(1) b(3) by (auto simp: peer_pass_def)
    then show ?case
      using 5(2,3) by (auto simp: peer_data_end_def buffered_def intro!: exI [of _ "?r # ext"] exI [of _ fs])
  next
    case (6 fs op p ws' got' len' ext)
    then show ?case
      by (auto simp: peer_data_end_def peer_pass_def intro!: exI [of _ "?r # ext"] exI [of _ fs])
  qed (use f b in simp_all)
  then have "runs (ws_peer_data E ws tr) ?Q" by (simp add: eq)
  then show ?thesis by (auto simp: runs_def)
qed

end

lemma framing_law_any_shape: "framing_law f cfg I \<Longrightarrow> framing_shape_law f cfg I (\<lambda>_. True)"
  by (intro framing_shape_law.intro framing_law.axioms(1)) (simp_all add: framing_shape_law_axioms_def)

lemma peer_pass_core:
  assumes "ws_core ws" "framing (peer ws) = Some f" "framing_law f (framing_config (peer ws)) I"
    and "0 \<le> peer_fd ws" "length buf1 = length (peer_buffer ws)"
    and "peer_pass I P (ws\<lparr>peer_buffer := buf1\<rparr>) len fs ws' len'"
  shows "ws_core ws'" "state ws' = state ws" "ws_fd ws' = ws_fd ws" "peer_fd ws' = peer_fd ws"
    "read_buffer_offset ws' = read_buffer_offset ws"
proof -
  obtain fd buf off where ws': "ws' = ws\<lparr>peer_buffer := buf1, peer_framing_data := fd, peer_buffer := buf, peer_buffer_offset := off\<rparr>"
    "I fd" "off \<le> peer_buffer_offset ws" "length buf = length buf1"
    using assms(6) by (auto simp: peer_pass_def)
  have "peer_sound ws'" using assms(2,3) ws'(1,2) by (auto simp: peer_sound_def)
  with assms(1,4,5) ws' show "ws_core ws'" "state ws' = state ws" "ws_fd ws' = ws_fd ws" "peer_fd ws' = peer_fd ws"
    "read_buffer_offset ws' = read_buffer_offset ws"
    by (auto simp: ws_core_def)
qed

text \<open>A step of the connection behind the \<open>recv\<close> on its peer is an event.\<close>

lemma peer_recv_done:
  assumes "data_step ws0 ext ws'" "ws_fd ws0 = ws_fd ws" "peer_fd ws0 = peer_fd ws" "state ws0 = state ws"
    and "0 \<le> peer_fd ws" "read_buffer_offset ws' + 2 \<le> WS_MAX_LINE"
  shows "event_done ws ((SysRecv (peer_fd ws) len, r) # ext) ws'"
  by (rule event_done_data [OF data_step_recv [OF assms(1)]]) (use assms in simp_all)

text \<open>The peer is gone, or its descriptor has failed: the connection is closed.\<close>

lemma runs_peer_gone:
  assumes E: "posix_send E" and inv: "ws_inv ws" and fd: "0 \<le> peer_fd ws"
    and gone: "peer_delivery E ws tr = None \<or> peer_delivery E ws tr = Some []"
  shows "runs (ws_peer_data E ws tr) (\<lambda>(r, ws', tr'). \<exists>buf ext. r = 0 \<and> tr' = tr @ ext \<and>
    ws' = ws_reset (ws\<lparr>peer_buffer := buf\<rparr>) \<and> event_done ws ext ws')"
proof -
  let ?off = "peer_buffer_offset ws" and ?len = "length (peer_buffer ws) - peer_buffer_offset ws - 1"
  let ?ws = "ws\<lparr>peer_buffer := peer_buffer ws\<rparr>"
  have core: "ws_core ws" using inv by (simp add: ws_inv_def)
  have room: "?off + ?len \<le> length (peer_buffer ws)" "\<not> length (peer_buffer ws) \<le> ?off"
    using core by (simp_all add: ws_core_def)
  have close: "\<exists>u ext. ws_close E ?ws code reason (tr @ [(SysRecv (peer_fd ws) ?len, r)]) =
      Some (u, ws_reset ?ws, tr @ ext) \<and> event_done ws ext (ws_reset ?ws)" for code reason r
  proof -
    have "framing_releasable ?ws" using core by (simp add: ws_core_def peer_sound_releasable)
    then obtain ext where c: "ws_close E ?ws code reason (tr @ [(SysRecv (peer_fd ws) ?len, r)]) =
        Some (0, ws_reset ?ws, tr @ (SysRecv (peer_fd ws) ?len, r) # ext)" "close_trace ?ws ext"
      using ws_close_obtain [OF E] by (metis append.assoc append_Cons append_Nil)
    have "ws_core ?ws" using core by simp
    from peer_recv_done [OF data_step_close [OF this c(2)], of ws] fd c(1) show ?thesis
      by (fastforce simp: WS_MAX_LINE_def)
  qed
  from room(1) show ?thesis
  proof (cases rule: recv_total [of ?off ?len "peer_buffer ws" E "peer_fd ws" tr])
    case error
    with close [of ws_close_unexpected "Some (bytes ''Peer connection failed'')" "-1"] room(2)
    show ?thesis by (auto simp: ws_peer_data_def intro!: exI [of _ "peer_buffer ws"])
  next
    case (data ds)
    then have "ds = []" using gone by (auto simp: peer_delivery_def Let_def)
    with data close [of ws_close_normal "Some (bytes ''Peer closed connection'')" 0] room(2)
    show ?thesis by (auto simp: ws_peer_data_def intro!: exI [of _ "peer_buffer ws"])
  qed
qed

text \<open>How the handler ends when bytes were delivered.\<close>

definition peer_data_done :: "env \<Rightarrow> websocket \<Rightarrow> u8 list \<Rightarrow> int \<Rightarrow> trace \<Rightarrow> websocket \<Rightarrow> bool" where
  "peer_data_done E ws ds r ext ws' \<longleftrightarrow>
     event_done ws ext ws' \<and>
     (r = 0 \<and> (\<exists>fs. stream_of fs @ buffered ws' = buffered ws @ ds \<and> (\<forall>(op, p)\<in>set fs. p \<noteq> []) \<and>
        sent_on (ws_fd ws) ext = wire fs) \<or>
      r = 1 \<and> send_fails E (ws_fd ws) \<and>
        (\<exists>fs op p. prefix (stream_of fs) (buffered ws @ ds) \<and> prefix (wire fs) (sent_on (ws_fd ws) ext) \<and>
           strict_prefix (sent_on (ws_fd ws) ext) (wire (fs @ [(op, p)]))))"

lemma peer_pass_done:
  assumes inv: "ws_inv ws" and f: "framing (peer ws) = Some f" "framing_law f (framing_config (peer ws)) I"
    and fd: "0 \<le> peer_fd ws" and buf: "length buf1 = length (peer_buffer ws)"
    and pass: "peer_pass I P (ws\<lparr>peer_buffer := buf1\<rparr>) len fs ws' len'" and sends: "only_sends (ws_fd ws) ext"
    and off: "off < length (peer_buffer ws)"
  shows "event_done ws ((SysRecv (peer_fd ws) n, r) # ext) (ws'\<lparr>peer_buffer_offset := off\<rparr>)"
    "event_done ws ((SysRecv (peer_fd ws) n, r) # ext) ws'"
proof -
  have core: "ws_core ws" and len: "length (peer_buffer ws) = PEER_BUFFER_SIZE"
    using inv by (simp_all add: ws_inv_def ws_core_def)
  note same = peer_pass_core [OF core f fd buf pass]
  have core': "ws_core (ws'\<lparr>peer_buffer_offset := off\<rparr>)"
    using same(1) off len by (simp add: ws_core_def peer_sound_def)
  have "data_step ws ext w" if "ws_core w" "state w = state ws'" "ws_fd w = ws_fd ws'" "peer_fd w = peer_fd ws'"
      "read_buffer_offset w = read_buffer_offset ws'" for w
    using that sends same by (intro data_step_sends)
      (simp_all add: only_sends_closed only_sends_opened conn_only_def only_sends_untouched)
  note step = this
  have room: "read_buffer_offset ws' + 2 \<le> WS_MAX_LINE" using inv same(5) by (simp add: ws_inv_def)
  show "event_done ws ((SysRecv (peer_fd ws) n, r) # ext) (ws'\<lparr>peer_buffer_offset := off\<rparr>)"
    by (rule peer_recv_done [OF step [OF core'] refl refl refl fd]) (use room in simp_all)
  show "event_done ws ((SysRecv (peer_fd ws) n, r) # ext) ws'"
    by (rule peer_recv_done [OF step [OF same(1)] refl refl refl fd]) (use room in simp_all)
qed

lemma runs_peer_delivered:
  assumes E: "posix_send E" and inv: "ws_inv ws" and fd: "0 \<le> peer_fd ws"
    and deliv: "peer_delivery E ws tr = Some ds" "ds \<noteq> []"
  shows "runs (ws_peer_data E ws tr) (\<lambda>(r, ws', tr'). \<exists>ext. tr' = tr @ ext \<and> peer_data_done E ws ds r ext ws')"
proof -
  have core: "ws_core ws" using inv by (simp add: ws_inv_def)
  obtain f I where f: "framing (peer ws) = Some f" "framing_law f (framing_config (peer ws)) I" "I (peer_framing_data ws)"
    using core fd by (auto simp: ws_core_def peer_sound_def)
  have "peer_buffer_offset ws < length (peer_buffer ws)" using core by (simp add: ws_core_def)
  then obtain buf1 where len1: "length buf1 = length (peer_buffer ws)"
    and in_bounds: "peer_buffer_offset ws + length ds < length (peer_buffer ws)"
    and new: "take (peer_buffer_offset ws + length ds) buf1 = buffered ws @ ds"
    and eq: "ws_peer_data E ws tr = Option.bind
      (ws_peer_loop E (ws\<lparr>peer_buffer := buf1\<rparr>) (length ds) ws_frame_binary
        (tr @ [(SysRecv (peer_fd ws) (length (peer_buffer ws) - peer_buffer_offset ws - 1), int (length ds))]))
      peer_data_end"
    by (rule ws_peer_data_delivered [OF _ deliv])
  let ?r = "(SysRecv (peer_fd ws) (length (peer_buffer ws) - peer_buffer_offset ws - 1), int (length ds))"
  note event = peer_pass_done [where P = "\<lambda>_. True", OF inv f(1,2) fd len1]
  show ?thesis
    unfolding eq runs_bind
  proof (rule framing_shape_law.runs_ws_peer_loop [OF framing_law_any_shape [OF f(2)] E], goal_cases)
    case (5 fs ws' got ext)
    let ?off = "peer_buffer_offset ws' + got"
    have st: "stream_of fs @ take ?off (peer_buffer ws') = buffered ws @ ds" "\<forall>(op, p)\<in>set fs. p \<noteq> []"
      and "?off < length (peer_buffer ws)"
      using 5(1) new in_bounds by (auto simp: peer_pass_def)
    with event(1) [OF 5(1) _ this(3)] 5(2,3) show ?case
      by (auto simp: peer_data_end_def peer_data_done_def buffered_def intro!: exI [of _ "?r # ext"] exI [of _ fs])
  next
    case (6 fs op p ws' got' len' ext)
    have st: "prefix (stream_of fs) (buffered ws @ ds)"
      using 6(1) new by (auto simp: peer_pass_def) (metis prefixI)
    with event(2) [OF 6(1) _ in_bounds] 6(2-5) show ?case
      by (auto simp: peer_data_end_def peer_data_done_def intro!: exI [of _ "?r # ext"] exI [of _ fs])
  qed (use f in_bounds len1 in simp_all)
qed

lemma runs_ws_peer_data:
  assumes E: "posix_send E" and inv: "ws_inv ws" and fd: "0 \<le> peer_fd ws"
    and closed: "\<And>buf ext. peer_delivery E ws tr = None \<or> peer_delivery E ws tr = Some [] \<Longrightarrow>
      event_done ws ext (ws_reset (ws\<lparr>peer_buffer := buf\<rparr>)) \<Longrightarrow>
      Q (0, ws_reset (ws\<lparr>peer_buffer := buf\<rparr>), tr @ ext)"
    and forwarded: "\<And>ds fs ws' ext. peer_delivery E ws tr = Some ds \<Longrightarrow> ds \<noteq> [] \<Longrightarrow>
      stream_of fs @ buffered ws' = buffered ws @ ds \<Longrightarrow> (\<forall>(op, p)\<in>set fs. p \<noteq> []) \<Longrightarrow>
      sent_on (ws_fd ws) ext = wire fs \<Longrightarrow> event_done ws ext ws' \<Longrightarrow> Q (0, ws', tr @ ext)"
    and failed: "\<And>ds fs op p ws' ext. peer_delivery E ws tr = Some ds \<Longrightarrow> ds \<noteq> [] \<Longrightarrow>
      prefix (stream_of fs) (buffered ws @ ds) \<Longrightarrow> prefix (wire fs) (sent_on (ws_fd ws) ext) \<Longrightarrow>
      strict_prefix (sent_on (ws_fd ws) ext) (wire (fs @ [(op, p)])) \<Longrightarrow> send_fails E (ws_fd ws) \<Longrightarrow>
      event_done ws ext ws' \<Longrightarrow> Q (1, ws', tr @ ext)"
  shows "runs (ws_peer_data E ws tr) Q"
proof (cases "peer_delivery E ws tr = None \<or> peer_delivery E ws tr = Some []")
  case True
  from runs_peer_gone [OF E inv fd True] show ?thesis by (rule runs_weaken) (auto intro: closed [OF True])
next
  case False
  then obtain ds where ds: "peer_delivery E ws tr = Some ds" "ds \<noteq> []" by auto
  from runs_peer_delivered [OF E inv fd ds] show ?thesis
    by (rule runs_weaken) (auto simp: peer_data_done_def intro: forwarded [OF ds] failed [OF ds])
qed

end
