(* ===== verification/Core.thy ===== *)
theory Core
  imports Peerdata
begin

text \<open>
  The client registry and the core loop of \<open>websocksy.c\<close>: \<open>client_register\<close>, \<open>ws_accept\<close> (from
  \<open>websocket.c\<close>), \<open>client_cleanup\<close> and \<open>main\<close> from the first \<open>select\<close> on.
\<close>

section \<open>The registry of clients\<close>

text \<open>The search for a slot whose client is gone.\<close>

fun client_slot :: "websocket list \<Rightarrow> nat" where
  "client_slot [] = 0"
| "client_slot (ws # socks) = (if ws_fd ws = -1 then 0 else Suc (client_slot socks))"

definition client_register :: "websocket \<Rightarrow> websocket list \<Rightarrow> int \<times> websocket list" where
  "client_register ws socks =
     (let n = client_slot socks;
          socks1 = (if n = length socks then socks @ [ws] else socks)
      in (0, socks1[n := ws]))"

text \<open>A zero-initialised \<open>websocket\<close> with the fields \<open>ws_accept\<close> sets.\<close>

definition accepted_websocket :: "int \<Rightarrow> int \<Rightarrow> websocket" where
  "accepted_websocket fd now =
     \<lparr>ws_fd = fd, read_buffer = replicate WS_MAX_LINE 0, read_buffer_offset = 0, state = ws_new,
      last_event = now, header = [], request_path = None, websocket_version = 0, socket_key = None,
      want_upgrade = 0, protocol = [], peer = empty_peer, peer_fd = -1,
      peer_buffer = replicate PEER_BUFFER_SIZE 0, peer_buffer_offset = 0, peer_framing_data = FNull\<rparr>"

definition ws_accept :: "env \<Rightarrow> int \<Rightarrow> int \<Rightarrow> websocket list \<Rightarrow> trace \<Rightarrow> int \<times> websocket list \<times> trace" where
  "ws_accept E listen_fd now socks tr =
     (let (fd, tr1) = do_sys E (SysAccept listen_fd) tr;
          (r, socks1) = client_register (accepted_websocket fd now) socks
      in (r, socks1, tr1))"

fun close_all :: "env \<Rightarrow> websocket list \<Rightarrow> trace \<Rightarrow> trace option" where
  "close_all E [] tr = Some tr"
| "close_all E (ws # socks) tr =
     do { (_, _, tr1) \<leftarrow> ws_close E ws ws_close_shutdown (Some (bytes ''Shutting down'')) tr;
          close_all E socks tr1 }"

definition client_cleanup :: "env \<Rightarrow> websocket list \<Rightarrow> trace \<Rightarrow> (websocket list \<times> trace) option" where
  "client_cleanup E socks tr = do { tr1 \<leftarrow> close_all E socks tr; Some ([], tr1) }"

section \<open>One pass of the core loop\<close>

text \<open>\<open>FD_SET\<close> is undefined for descriptors from \<open>FD_SETSIZE\<close> on.\<close>

definition FD_SETSIZE :: int where
  "FD_SETSIZE = 1024"

definition fd_settable :: "int \<Rightarrow> websocket list \<Rightarrow> bool" where
  "fd_settable listen_fd socks \<longleftrightarrow>
     listen_fd < FD_SETSIZE \<and>
     (\<forall>ws\<in>set socks. 0 \<le> ws_fd ws \<longrightarrow> ws_fd ws < FD_SETSIZE \<and> peer_fd ws < FD_SETSIZE)"

text \<open>
  \<open>FD_ISSET\<close> on the set \<open>ready\<close> that \<open>select\<close> filled in.
\<close>

definition fd_isset :: "int list \<Rightarrow> int \<Rightarrow> bool option" where
  "fd_isset ready fd = (if fd < FD_SETSIZE then Some (fd \<in> set ready) else None)"

text \<open>
  What the loop does for one client: data from the client, data from the peer, the keep-alive
  ping. The first component says whether the loop over the clients is left.
\<close>

definition client_ping :: "env \<Rightarrow> int \<Rightarrow> int \<Rightarrow> websocket \<Rightarrow> trace \<Rightarrow> (websocket \<times> trace) option" where
  "client_ping E interval now ws tr =
     (if interval \<noteq> 0 \<and> now - last_event ws > interval
      then do { (r, tr1) \<leftarrow> ws_send_frame E ws ws_frame_ping (bytes ''PING'') tr;
                if r \<noteq> 0
                then do { (_, ws1, tr2) \<leftarrow> ws_close E ws ws_close_unexpected None tr1; Some (ws1, tr2) }
                else Some (ws, tr1) }
      else Some (ws, tr))"

definition client_service ::
  "env \<Rightarrow> services \<Rightarrow> int \<Rightarrow> int list \<Rightarrow> int \<Rightarrow> websocket \<Rightarrow> trace \<Rightarrow> (bool \<times> websocket \<times> trace) option" where
  "client_service E SV interval ready now ws tr =
     (if ws_fd ws < 0 then Some (False, ws, tr)
      else do {
        data \<leftarrow> fd_isset ready (ws_fd ws);
        (r, ws1, tr1) \<leftarrow> (if data then ws_data E SV (ws\<lparr>last_event := now\<rparr>) tr else Some (0, ws, tr));
        if r \<noteq> 0 then Some (True, ws1, tr1)
        else do {
          data \<leftarrow> (if 0 \<le> peer_fd ws1 then fd_isset ready (peer_fd ws1) else Some False);
          (r, ws2, tr2) \<leftarrow> (if data then ws_peer_data E ws1 tr1 else Some (0, ws1, tr1));
          if r \<noteq> 0 then Some (True, ws2, tr2)
          else do { (ws3, tr3) \<leftarrow> client_ping E interval now ws2 tr2;
                    Some (False, ws3, tr3) } } })"

fun service_all ::
  "env \<Rightarrow> services \<Rightarrow> int \<Rightarrow> int list \<Rightarrow> int \<Rightarrow> websocket list \<Rightarrow> trace \<Rightarrow> (websocket list \<times> trace) option" where
  "service_all E SV interval ready now [] tr = Some ([], tr)"
| "service_all E SV interval ready now (ws # socks) tr =
     do { (leave, ws1, tr1) \<leftarrow> client_service E SV interval ready now ws tr;
          if leave then Some (ws1 # socks, tr1)
          else do { (socks1, tr2) \<leftarrow> service_all E SV interval ready now socks tr1;
                    Some (ws1 # socks1, tr2) } }"

text \<open>One pass: building the set, then serving what \<open>select\<close> reported at time \<open>now\<close>.\<close>

definition main_pass ::
  "env \<Rightarrow> services \<Rightarrow> int \<Rightarrow> int \<Rightarrow> int list \<Rightarrow> int \<Rightarrow> websocket list \<Rightarrow> trace \<Rightarrow> (websocket list \<times> trace) option" where
  "main_pass E SV listen_fd interval ready now socks tr =
     (if \<not> fd_settable listen_fd socks then None
      else do {
        client \<leftarrow> fd_isset ready listen_fd;
        let (r, socks1, tr1) = (if client then ws_accept E listen_fd now socks tr else (0, socks, tr));
        if r \<noteq> 0 then Some (socks1, tr1)
        else service_all E SV interval ready now socks1 tr1 })"

text \<open>The end of \<open>main\<close>, as far as connections are concerned.\<close>

definition main_shutdown :: "env \<Rightarrow> int \<Rightarrow> websocket list \<Rightarrow> trace \<Rightarrow> (websocket list \<times> trace) option" where
  "main_shutdown E listen_fd socks tr =
     do { (socks1, tr1) \<leftarrow> client_cleanup E socks tr;
          Some (socks1, snd (do_sys E (SysClose listen_fd) tr1)) }"

section \<open>The events of the daemon\<close>

text \<open>
  The abstract view of the core loop: whatever \<open>select\<close> reports, the daemon only ever performs
  these events, each on one connection.
\<close>

record daemon =
  socks :: "websocket list"
  log :: trace

inductive daemon_step :: "env \<Rightarrow> services \<Rightarrow> int \<Rightarrow> daemon \<Rightarrow> daemon \<Rightarrow> bool"
  for E :: env and SV :: services and listen_fd :: int where
  accept: "ws_accept E listen_fd now ss tr = (r, ss', tr') \<Longrightarrow>
    daemon_step E SV listen_fd \<lparr>socks = ss, log = tr\<rparr> \<lparr>socks = ss', log = tr'\<rparr>"
| client: "n < length ss \<Longrightarrow> 0 \<le> ws_fd (ss ! n) \<Longrightarrow>
    ws_data E SV ((ss ! n)\<lparr>last_event := now\<rparr>) tr = Some (r, ws', tr') \<Longrightarrow>
    daemon_step E SV listen_fd \<lparr>socks = ss, log = tr\<rparr> \<lparr>socks = ss[n := ws'], log = tr'\<rparr>"
| peer: "n < length ss \<Longrightarrow> 0 \<le> peer_fd (ss ! n) \<Longrightarrow>
    ws_peer_data E (ss ! n) tr = Some (r, ws', tr') \<Longrightarrow>
    daemon_step E SV listen_fd \<lparr>socks = ss, log = tr\<rparr> \<lparr>socks = ss[n := ws'], log = tr'\<rparr>"
| ping: "n < length ss \<Longrightarrow> client_ping E interval now (ss ! n) tr = Some (ws', tr') \<Longrightarrow>
    daemon_step E SV listen_fd \<lparr>socks = ss, log = tr\<rparr> \<lparr>socks = ss[n := ws'], log = tr'\<rparr>"

inductive_cases daemon_stepE: "daemon_step E SV listen_fd d d'"

definition daemon_reach :: "env \<Rightarrow> services \<Rightarrow> int \<Rightarrow> daemon \<Rightarrow> bool" where
  "daemon_reach E SV listen_fd d \<longleftrightarrow>
     (daemon_step E SV listen_fd)\<^sup>*\<^sup>* \<lparr>socks = [], log = []\<rparr> d"

end
