(* ===== verification/Core_Inv.thy ===== *)
theory Core_Inv
  imports Core
begin

text \<open>
  The invariant of the daemon over all its events, the simulation of the core loop by them, and
  the loop's definedness.
\<close>

section \<open>The registry\<close>

lemma client_slot_le: "client_slot ss \<le> length ss"
  by (induction ss) auto

lemma client_slot_free: "client_slot ss < length ss \<Longrightarrow> ws_fd (ss ! client_slot ss) = -1"
  by (induction ss) auto

lemma client_slot_first: "n < client_slot ss \<Longrightarrow> ws_fd (ss ! n) \<noteq> -1"
proof (induction ss arbitrary: n)
  case (Cons ws ss)
  then show ?case by (cases n) (auto split: if_splits)
qed simp

lemma client_register_eq:
  "client_register ws ss =
     (0, if client_slot ss = length ss then ss @ [ws] else ss[client_slot ss := ws])"
  by (simp add: client_register_def Let_def)

section \<open>The invariant\<close>

definition total_held :: "websocket list \<Rightarrow> int multiset" where
  "total_held ss = sum_list (map held ss)"

lemma total_held_simps [simp]:
  "total_held [] = {#}" "total_held (ws # ss) = held ws + total_held ss"
  "total_held (ss @ ss') = total_held ss + total_held ss'"
  by (simp_all add: total_held_def)

lemma total_held_update:
  "n < length ss \<Longrightarrow> total_held (ss[n := ws]) + held (ss ! n) = total_held ss + held ws"
proof (induction ss arbitrary: n)
  case (Cons w ss)
  show ?case
  proof (cases n)
    case 0
    then show ?thesis by (simp add: ac_simps)
  next
    case (Suc m)
    with Cons show ?thesis by (simp add: add.assoc)
  qed
qed simp

text \<open>
  Every connection satisfies its invariant, and over the life of the daemon the descriptors closed
  and those held together are among the descriptors obtained: nothing is closed more often than
  it was opened. \<open>M\<close> are descriptors held elsewhere.
\<close>

definition daemon_inv_with :: "int multiset \<Rightarrow> daemon \<Rightarrow> bool" where
  "daemon_inv_with M d \<longleftrightarrow>
     (\<forall>ws\<in>set (socks d). ws_inv ws) \<and>
     mset (closed_in (log d)) + total_held (socks d) + M \<subseteq># mset (opened_in (log d))"

abbreviation daemon_inv :: "daemon \<Rightarrow> bool" where
  "daemon_inv \<equiv> daemon_inv_with {#}"

lemma daemon_inv_weaken: "daemon_inv_with M d \<Longrightarrow> daemon_inv d"
  by (auto simp: daemon_inv_with_def intro: subset_mset.order_trans [rotated])

text \<open>POSIX \<open>accept\<close>: a descriptor or -1.\<close>

definition posix_accept :: "env \<Rightarrow> bool" where
  "posix_accept E \<longleftrightarrow> (\<forall>tr fd. -1 \<le> sys E tr (SysAccept fd))"

lemma accepted_websocket_inv: "-1 \<le> fd \<Longrightarrow> ws_inv (accepted_websocket fd now)"
  by (simp add: ws_inv_def ws_core_def accepted_websocket_def peer_sound_def)
    (simp add: WS_MAX_LINE_def)

lemma held_accepted: "held (accepted_websocket fd now) = mset (fd_list fd)"
  by (simp add: held_def accepted_websocket_def fd_list_def [of "-1"])

lemma ws_inv_last_event [simp]: "ws_inv (ws\<lparr>last_event := now\<rparr>) \<longleftrightarrow> ws_inv ws"
  by (simp add: ws_inv_def ws_core_def peer_sound_def)

lemma held_last_event [simp]: "held (ws\<lparr>last_event := now\<rparr>) = held ws"
  by (simp add: held_def)

lemma accounts_last_event [simp]: "accounts (ws\<lparr>last_event := now\<rparr>) ext ws' \<longleftrightarrow> accounts ws ext ws'"
  by (simp add: accounts_def)

lemma daemon_inv_update:
  assumes inv: "daemon_inv_with M \<lparr>socks = ss, log = tr\<rparr>" and n: "n < length ss"
    and ws: "ws_inv ws'" "accounts (ss ! n) ext ws'"
  shows "daemon_inv_with M \<lparr>socks = ss[n := ws'], log = tr @ ext\<rparr>"
proof -
  have "\<forall>ws\<in>set (ss[n := ws']). ws_inv ws"
    using inv ws(1) set_update_subset_insert [of ss n ws'] by (auto simp: daemon_inv_with_def)
  moreover have "mset (closed_in (tr @ ext)) + total_held (ss[n := ws']) + M \<subseteq># mset (opened_in (tr @ ext))"
  proof -
    have "(mset (closed_in (tr @ ext)) + total_held (ss[n := ws']) + M) + held (ss ! n) =
        (mset (closed_in tr) + total_held ss + M) + (mset (closed_in ext) + held ws')"
      using total_held_update [OF n, of ws'] by (simp add: ac_simps)
    also have "\<dots> \<subseteq># mset (opened_in tr) + (held (ss ! n) + mset (opened_in ext))"
      using inv ws(2) by (intro subset_mset.add_mono [of "mset (closed_in tr) + total_held ss + M"
            "mset (opened_in tr)" "mset (closed_in ext) + held ws'"]) (simp_all add: daemon_inv_with_def accounts_def)
    also have "\<dots> = mset (opened_in (tr @ ext)) + held (ss ! n)" by (simp add: ac_simps)
    finally show ?thesis by simp
  qed
  ultimately show ?thesis by (simp add: daemon_inv_with_def)
qed

lemma daemon_inv_accept:
  assumes inv: "daemon_inv_with M \<lparr>socks = ss, log = tr\<rparr>" and E: "posix_accept E"
    and acc: "ws_accept E lfd now ss tr = (r, ss', tr')"
  shows "daemon_inv_with M \<lparr>socks = ss', log = tr'\<rparr>"
proof -
  let ?fd = "sys E tr (SysAccept lfd)"
  let ?ws = "accepted_websocket ?fd now"
  have fd: "-1 \<le> ?fd" using E by (simp add: posix_accept_def)
  have eq: "ss' = (if client_slot ss = length ss then ss @ [?ws] else ss[client_slot ss := ?ws])"
    "tr' = tr @ [(SysAccept lfd, ?fd)]"
    using acc by (auto simp: ws_accept_def do_sys_def client_register_eq Let_def)
  have op: "mset (opened_in tr') = mset (opened_in tr) + held ?ws" "closed_in tr' = closed_in tr"
    by (simp_all add: eq(2) held_accepted fd_list_def)
  show ?thesis
  proof (cases "client_slot ss = length ss")
    case True
    then show ?thesis
      using inv op accepted_websocket_inv [OF fd] by (auto simp: eq(1) daemon_inv_with_def add.assoc)
  next
    case False
    then have n: "client_slot ss < length ss" using client_slot_le [of ss] by simp
    have "ws_inv (ss ! client_slot ss)" using inv n by (simp add: daemon_inv_with_def)
    then have "held (ss ! client_slot ss) = {#}"
      using client_slot_free [OF n] by (simp add: held_def ws_inv_def ws_core_def fd_list_def)
    then have "accounts (ss ! client_slot ss) [(SysAccept lfd, ?fd)] ?ws"
      by (simp add: accounts_def held_accepted fd_list_def)
    from daemon_inv_update [OF inv n accepted_websocket_inv [OF fd] this] False
    show ?thesis by (simp add: eq)
  qed
qed

section \<open>Every event keeps it\<close>

lemma ws_peer_data_SomeD:
  assumes "posix_send E" "ws_inv ws" "0 \<le> peer_fd ws" "ws_peer_data E ws tr = Some (r, ws', tr')"
  obtains ext where "tr' = tr @ ext" "event_done ws ext ws'"
proof -
  have "runs (ws_peer_data E ws tr) (\<lambda>(r, ws', tr'). \<exists>ext. tr' = tr @ ext \<and> event_done ws ext ws')"
    by (rule runs_ws_peer_data [OF assms(1,2,3)]) auto
  with assms(4) that show ?thesis by auto
qed

lemma runs_client_ping:
  assumes E: "posix_send E" and inv: "ws_inv ws"
    and Q: "\<And>ext ws'. event_done ws ext ws' \<Longrightarrow> Q (ws', tr @ ext)"
  shows "runs (client_ping E interval now ws tr) Q"
proof -
  have core: "ws_core ws" using inv by (simp add: ws_inv_def)
  then have rel: "framing_releasable ws" by (simp add: ws_core_def peer_sound_releasable)
  have sent: "data_step ws ext ws" if "only_sends (ws_fd ws) ext" for ext
    using that by (intro data_step_sends [OF core])
      (simp_all add: only_sends_closed only_sends_opened conn_only_def only_sends_untouched)
  have quiet: "Q (ws, tr)" using Q [of "[]" ws] inv
    by (simp add: event_done_def conn_only_def)
  have ok: "Q (ws, tr @ ext)" if "only_sends (ws_fd ws) ext" for ext
    by (rule Q, rule event_done_data [OF sent [OF that]]) (use inv in \<open>simp add: ws_inv_def\<close>)
  have dead: "Q (ws_reset ws, tr @ ext @ e)" if "only_sends (ws_fd ws) ext" "close_trace ws e" for ext e
    by (rule Q, rule event_done_data [OF data_step_trans [OF sent [OF that(1)] data_step_close [OF core that(2)]]])
      (simp add: WS_MAX_LINE_def)
  show ?thesis
    unfolding client_ping_def
    by (auto intro!: runs_ws_send_frame runs_ws_close E rel quiet ok dead)
qed

lemma event_accounts: "event_done ws ext ws' \<Longrightarrow> ws_inv ws' \<and> accounts ws ext ws'"
  by (simp add: event_done_def)

lemma daemon_step_inv:
  assumes E: "posix_send E" "posix_accept E" "services_ok SV"
    and step: "daemon_step E SV lfd d d'" and inv: "daemon_inv_with M d"
  shows "daemon_inv_with M d'"
  using step inv
proof cases
  case (accept now ss tr r ss' tr')
  with inv daemon_inv_accept E(2) show ?thesis by blast
next
  case (client n ss now tr r ws' tr')
  have "ws_inv ((ss ! n)\<lparr>last_event := now\<rparr>)" using inv client by (simp add: daemon_inv_with_def)
  from ws_data_SomeD [OF E(1,3) this client(5)] obtain ext
    where "tr' = tr @ ext" "event_done ((ss ! n)\<lparr>last_event := now\<rparr>) ext ws'" by blast
  with daemon_inv_update [where n = n and ws' = ws' and ext = ext] inv client show ?thesis
    by (auto dest!: event_accounts)
next
  case (peer n ss tr r ws' tr')
  have "ws_inv (ss ! n)" using inv peer by (simp add: daemon_inv_with_def)
  from ws_peer_data_SomeD [OF E(1) this peer(4,5)] obtain ext
    where "tr' = tr @ ext" "event_done (ss ! n) ext ws'" by blast
  with daemon_inv_update [where n = n and ws' = ws' and ext = ext] inv peer show ?thesis
    by (auto dest!: event_accounts)
next
  case (ping n ss interval now tr ws' tr')
  have "ws_inv (ss ! n)" using inv ping by (simp add: daemon_inv_with_def)
  then have "runs (client_ping E interval now (ss ! n) tr)
      (\<lambda>(ws', tr'). \<exists>ext. tr' = tr @ ext \<and> event_done (ss ! n) ext ws')"
    by (rule runs_client_ping [OF E(1)]) auto
  then obtain ext where "tr' = tr @ ext" "event_done (ss ! n) ext ws'" using ping by auto
  with daemon_inv_update [where n = n and ws' = ws' and ext = ext] inv ping show ?thesis
    by (auto dest!: event_accounts)
qed

lemma daemon_reach_inv:
  assumes E: "posix_send E" "posix_accept E" "services_ok SV" and reach: "daemon_reach E SV lfd d"
  shows "daemon_inv d"
  using reach unfolding daemon_reach_def
proof (induction rule: rtranclp_induct)
  case base
  show ?case by (simp add: daemon_inv_with_def)
next
  case (step d d')
  with daemon_step_inv [OF E] show ?case by blast
qed

section \<open>Sequences of events\<close>

abbreviation daemon_steps :: "env \<Rightarrow> services \<Rightarrow> int \<Rightarrow> daemon \<Rightarrow> daemon \<Rightarrow> bool" where
  "daemon_steps E SV lfd \<equiv> (daemon_step E SV lfd)\<^sup>*\<^sup>*"

lemma daemon_steps_inv:
  assumes E: "posix_send E" "posix_accept E" "services_ok SV"
    and steps: "daemon_steps E SV lfd d d'" and inv: "daemon_inv_with M d"
  shows "daemon_inv_with M d'"
  using steps inv by (induction rule: rtranclp_induct) (auto intro: daemon_step_inv [OF E])

section \<open>Shutting down\<close>

lemma close_all_closes:
  assumes E: "posix_send E" and inv: "\<forall>ws\<in>set ss. ws_inv ws"
  shows "\<exists>ext. close_all E ss tr = Some (tr @ ext) \<and> opened_in ext = [] \<and> mset (closed_in ext) = total_held ss"
  using inv
proof (induction ss arbitrary: tr)
  case (Cons ws ss)
  have "framing_releasable ws"
    using Cons.prems by (simp add: ws_inv_def ws_core_def peer_sound_releasable)
  then obtain e where e: "ws_close E ws ws_close_shutdown (Some (bytes ''Shutting down'')) tr =
      Some (0, ws_reset ws, tr @ e)" "close_trace ws e"
    by (rule ws_close_obtain [OF E])
  from Cons.IH [of "tr @ e"] Cons.prems obtain ext where "close_all E ss (tr @ e) = Some ((tr @ e) @ ext)"
    "opened_in ext = []" "mset (closed_in ext) = total_held ss" by auto
  with e show ?case
    by (intro exI [of _ "e @ ext"]) (simp add: close_trace_def held_def)
qed simp

end
