(* ===== verification/Registry.thy ===== *)
theory Registry
  imports Framing
begin

text \<open>
  The library of framing functions, from \<open>plugin.c\<close>: \<open>plugin_register_framing\<close> and
  \<open>plugin_framing\<close>. The two parallel arrays of names and functions are one list of pairs.
  Attaching shared objects is in theory Plugin.
\<close>

type_synonym framing_registry = "(cstring \<times> ws_framing) list"

section \<open>The operations\<close>

text \<open>The loop shared by both functions: the index of the name, or the number of entries.\<close>

fun framing_index :: "framing_registry \<Rightarrow> cstring \<Rightarrow> nat" where
  "framing_index [] name = 0"
| "framing_index ((n, f) # reg) name = (if n = name then 0 else Suc (framing_index reg name))"

definition plugin_register_framing :: "cstring \<Rightarrow> ws_framing \<Rightarrow> framing_registry \<Rightarrow> int \<times> framing_registry" where
  "plugin_register_framing name func reg =
     (let u = framing_index reg name;
          reg1 = (if u = length reg then reg @ [(name, func)] else reg)
      in (0, reg1[u := (fst (reg1 ! u), func)]))"

text \<open>An unknown name, like a null pointer, stands for \<open>auto\<close>: the function calls itself.\<close>

partial_function (option) plugin_framing :: "framing_registry \<Rightarrow> cstring option \<Rightarrow> ws_framing option" where
  "plugin_framing reg name =
     (case name of
        None \<Rightarrow> plugin_framing reg (Some (bytes ''auto''))
      | Some n \<Rightarrow>
          let u = framing_index reg n in
          if u < length reg then Some (snd (reg ! u)) else plugin_framing reg (Some (bytes ''auto'')))"

text \<open>The functions \<open>main\<close> registers before anything else.\<close>

definition builtin_framings :: framing_registry where
  "builtin_framings =
     snd (plugin_register_framing (bytes ''newline'') framing_newline
     (snd (plugin_register_framing (bytes ''separator'') framing_separator
     (snd (plugin_register_framing (bytes ''binary'') framing_binary
     (snd (plugin_register_framing (bytes ''auto'') framing_auto [])))))))"

definition plugin_cleanup :: "framing_registry \<Rightarrow> framing_registry" where
  "plugin_cleanup reg = []"

section \<open>The contract of a library\<close>

locale name_library =
  fixes insert_fun :: "cstring \<Rightarrow> 'f \<Rightarrow> 'r \<Rightarrow> 'r"
    and find_fun :: "cstring \<Rightarrow> 'r \<Rightarrow> 'f option"
    and valid :: "'r \<Rightarrow> bool"
  assumes valid_insert: "valid r \<Longrightarrow> valid (insert_fun n f r)"
    and find_same: "valid r \<Longrightarrow> find_fun n (insert_fun n f r) = Some f"
    and find_other: "valid r \<Longrightarrow> m \<noteq> n \<Longrightarrow> find_fun m (insert_fun n f r) = find_fun m r"
begin

definition insert_all :: "(cstring \<times> 'f) list \<Rightarrow> 'r \<Rightarrow> 'r" where
  "insert_all = fold (\<lambda>(n, f). insert_fun n f)"

lemma valid_insert_all: "valid r \<Longrightarrow> valid (insert_all nfs r)"
  by (induction nfs arbitrary: r) (auto simp: insert_all_def valid_insert)

text \<open>After any sequence of registrations the last one under a name counts.\<close>

lemma find_insert_all:
  "valid r \<Longrightarrow>
     find_fun m (insert_all nfs r) = (case map_of (rev nfs) m of None \<Rightarrow> find_fun m r | Some f \<Rightarrow> Some f)"
proof (induction nfs arbitrary: r)
  case Nil
  show ?case by (simp add: insert_all_def)
next
  case (Cons nf nfs)
  obtain n f where nf: "nf = (n, f)" by (cases nf)
  have "find_fun m (insert_all (nf # nfs) r) = find_fun m (insert_all nfs (insert_fun n f r))"
    by (simp add: insert_all_def nf)
  also have "\<dots> = (case map_of (rev nfs) m of None \<Rightarrow> find_fun m (insert_fun n f r) | Some f \<Rightarrow> Some f)"
    by (rule Cons.IH) (rule valid_insert [OF Cons.prems])
  finally show ?case
    using find_same [OF Cons.prems] find_other [OF Cons.prems]
    by (cases "n = m") (auto simp: nf map_add_def split: option.splits)
qed

end

section \<open>The registry is such a library\<close>

definition registry_find :: "cstring \<Rightarrow> framing_registry \<Rightarrow> ws_framing option" where
  "registry_find name reg =
     (let u = framing_index reg name in if u < length reg then Some (snd (reg ! u)) else None)"

definition registry_insert :: "cstring \<Rightarrow> ws_framing \<Rightarrow> framing_registry \<Rightarrow> framing_registry" where
  "registry_insert name func reg = snd (plugin_register_framing name func reg)"

lemma framing_index_le: "framing_index reg name \<le> length reg"
  by (induction reg name rule: framing_index.induct) auto

lemma registry_find_map_of: "registry_find name reg = map_of reg name"
proof (induction reg name rule: framing_index.induct)
  case (2 n f reg name)
  then show ?case by (cases "n = name") (auto simp: registry_find_def Let_def split: if_splits)
qed (simp add: registry_find_def)

lemma registry_insert_Nil [simp]: "registry_insert name func [] = [(name, func)]"
  by (simp add: registry_insert_def plugin_register_framing_def)

lemma registry_insert_Cons [simp]:
  "registry_insert name func ((n, f) # reg) =
     (if n = name then (n, func) # reg else (n, f) # registry_insert name func reg)"
  by (auto simp: registry_insert_def plugin_register_framing_def Let_def nth_append)

lemma map_of_registry_insert: "map_of (registry_insert name func reg) = (map_of reg)(name \<mapsto> func)"
  by (induction reg) auto

lemma names_registry_insert:
  "map fst (registry_insert name func reg) = (if name \<in> fst ` set reg then map fst reg else map fst reg @ [name])"
  by (induction reg) (simp, fastforce)

interpretation registry: name_library registry_insert registry_find "\<lambda>reg. distinct (map fst reg)"
proof unfold_locales
  fix r :: framing_registry and n f
  assume "distinct (map fst r)"
  then show "distinct (map fst (registry_insert n f r))" by (simp add: names_registry_insert)
qed (simp_all add: registry_find_map_of map_of_registry_insert)

text \<open>Looking up: the registered function, \<open>auto\<close> for any other name, no return without \<open>auto\<close>.\<close>

lemma plugin_framing_known:
  "registry_find n reg = Some f \<Longrightarrow> plugin_framing reg (Some n) = Some f"
  by (subst plugin_framing.simps) (auto simp: registry_find_def Let_def split: if_splits)

lemma plugin_framing_unknown:
  assumes "registry_find (bytes ''auto'') reg = Some a"
    and "case name of None \<Rightarrow> True | Some n \<Rightarrow> registry_find n reg = None"
  shows "plugin_framing reg name = Some a"
proof -
  have "plugin_framing reg name = plugin_framing reg (Some (bytes ''auto''))"
    using assms(2) by (subst plugin_framing.simps)
      (auto simp: registry_find_def Let_def split: if_splits option.splits)
  with plugin_framing_known [OF assms(1)] show ?thesis by simp
qed

lemma builtin_framings_names:
  "map fst builtin_framings = [bytes ''auto'', bytes ''binary'', bytes ''separator'', bytes ''newline'']"
  by (simp add: builtin_framings_def names_registry_insert [unfolded registry_insert_def])
    (simp add: plugin_register_framing_def bytes_def)

end
