(* ===== verification/Defaultpeer.thy ===== *)
theory Defaultpeer
  imports Client Registry
begin

text \<open>
  The built-in backend of \<open>builtins.c\<close>, \<open>defaultpeer\<close>, and the contract \<open>backend_law\<close> every
  peer discovery backend has with the connection code.
\<close>

section \<open>The backend\<close>

text \<open>The static variables of the backend.\<close>

record defaultpeer =
  default_peer :: ws_peer_info
  default_peer_proto :: "cstring option"

definition defaultpeer_start :: defaultpeer where
  "defaultpeer_start = \<lparr>default_peer = empty_peer, default_peer_proto = None\<rparr>"

definition backend_defaultpeer_init :: "defaultpeer \<Rightarrow> nat \<times> defaultpeer" where
  "backend_defaultpeer_init st =
     (WEBSOCKSY_API_VERSION,
      st\<lparr>default_peer := empty_peer
          \<lparr>transport := peer_transport_detect,
           host := Some (case host (default_peer st) of Some h \<Rightarrow> h | None \<Rightarrow> bytes ''tcp://localhost''),
           port := Some (case port (default_peer st) of Some p \<Rightarrow> p | None \<Rightarrow> bytes ''5900'')\<rparr>\<rparr>)"

definition backend_defaultpeer_configure ::
  "framing_registry \<Rightarrow> cstring \<Rightarrow> cstring \<Rightarrow> defaultpeer \<Rightarrow> (nat \<times> defaultpeer) option" where
  "backend_defaultpeer_configure reg key val st =
     (if key = bytes ''host''
      then Some (0, st\<lparr>default_peer :=
             (default_peer st)\<lparr>host := Some val, transport := peer_transport_detect\<rparr>\<rparr>)
      else if key = bytes ''port''
      then Some (0, st\<lparr>default_peer := (default_peer st)\<lparr>port := Some val\<rparr>\<rparr>)
      else if key = bytes ''protocol''
      then Some (0, st\<lparr>default_peer_proto := Some val\<rparr>)
      else if key = bytes ''framing''
      then do { f \<leftarrow> plugin_framing reg (Some val);
                Some (0, st\<lparr>default_peer := (default_peer st)\<lparr>framing := Some f\<rparr>\<rparr>) }
      else if key = bytes ''framing-config''
      then Some (0, st\<lparr>default_peer := (default_peer st)\<lparr>framing_config := Some val\<rparr>\<rparr>)
      else Some (1, st))"

text \<open>The loop over the offers: the first that matches, without regard to case.\<close>

fun defaultpeer_match :: "cstring \<Rightarrow> cstring list \<Rightarrow> nat \<Rightarrow> nat option" where
  "defaultpeer_match pr [] p = None"
| "defaultpeer_match pr (o1 # os) p =
     (if strcasecmp_eq o1 pr then Some p else defaultpeer_match pr os (Suc p))"

definition backend_defaultpeer_query :: "defaultpeer \<Rightarrow> backend_query" where
  "backend_defaultpeer_query st endpoint protos hdrs =
     (let i0 = length protos;
          i = (case default_peer_proto st of
                 None \<Rightarrow> i0
               | Some pr \<Rightarrow>
                   let i1 = (case defaultpeer_match pr protos 0 of Some p \<Rightarrow> p | None \<Rightarrow> i0)
                   in if pr = bytes ''*'' then 0 else i1)
      in Some ((default_peer st)\<lparr>peer_protocol := i\<rparr>, endpoint))"

definition backend_defaultpeer_cleanup :: "defaultpeer \<Rightarrow> defaultpeer" where
  "backend_defaultpeer_cleanup st =
     \<lparr>default_peer = (default_peer st)\<lparr>host := None, port := None, framing_config := None\<rparr>,
      default_peer_proto = None\<rparr>"

section \<open>The contract of a backend\<close>

text \<open>
  The least a backend promises: in a configuration that is \<open>ready\<close> its answers are usable.
\<close>

locale sound_backend_law =
  fixes query :: "'st \<Rightarrow> backend_query" and ready :: "'st \<Rightarrow> bool"
  assumes lawful: "ready st \<Longrightarrow> query st endpoint protos hdrs = Some (p, endpoint') \<Longrightarrow> peer_lawful p"
begin

lemma sound: "ready st \<Longrightarrow> cfg_query SV = query st \<Longrightarrow> services_sound SV"
  unfolding services_sound_def using lawful by metis

end

text \<open>
  \<open>ready\<close> are the configurations a backend can be queried in, \<open>asks\<close> the questions it has an answer
  to: for these the query returns, with an address a connection can use.
\<close>

locale backend_law =
  fixes query :: "'st \<Rightarrow> backend_query" and ready :: "'st \<Rightarrow> bool"
    and asks :: "cstring option \<Rightarrow> cstring list \<Rightarrow> ws_http_header list \<Rightarrow> bool"
  assumes returns: "ready st \<Longrightarrow> asks endpoint protos hdrs \<Longrightarrow>
    runs (query st endpoint protos hdrs) (\<lambda>(p, endpoint'). peer_lawful p)"
begin

lemma answers:
  "ready st \<Longrightarrow> cfg_query SV = query st \<Longrightarrow> asks (request_path ws) (protocol ws) (header ws) \<Longrightarrow>
     backend_answers SV ws"
  by (simp add: backend_answers_def returns)

end

text \<open>A backend that answers any offers and headers, even without an endpoint.\<close>

locale total_backend_law = backend_law +
  assumes total: "asks endpoint protos hdrs"
begin

lemma services: "ready st \<Longrightarrow> cfg_query SV = query st \<Longrightarrow> services_total SV"
  by (simp add: services_total_def returns total)

end

sublocale total_backend_law \<subseteq> sound_backend_law
proof unfold_locales
  fix st endpoint protos hdrs p endpoint'
  assume "ready st" "query st endpoint protos hdrs = Some (p, endpoint')"
  with returns [OF this(1) total, of endpoint protos hdrs] show "peer_lawful p" by simp
qed

definition defaultpeer_ready :: "defaultpeer \<Rightarrow> bool" where
  "defaultpeer_ready st \<longleftrightarrow> peer_lawful (default_peer st)"

lemma backend_defaultpeer_query_peer:
  "\<exists>i. backend_defaultpeer_query st endpoint protos hdrs =
     Some ((default_peer st)\<lparr>peer_protocol := i\<rparr>, endpoint)"
  unfolding backend_defaultpeer_query_def Let_def by blast

lemma peer_lawful_protocol [simp]: "peer_lawful (p\<lparr>peer_protocol := i\<rparr>) \<longleftrightarrow> peer_lawful p"
  by (cases "framing p") (simp_all add: peer_lawful_def)

interpretation defaultpeer: total_backend_law backend_defaultpeer_query defaultpeer_ready "\<lambda>_ _ _. True"
proof unfold_locales
  fix st endpoint protos hdrs
  assume "defaultpeer_ready st"
  then show "runs (backend_defaultpeer_query st endpoint protos hdrs) (\<lambda>(p, endpoint'). peer_lawful p)"
    using backend_defaultpeer_query_peer [of st endpoint protos hdrs] by (auto simp: defaultpeer_ready_def)
qed simp

section \<open>Configurations that are ready\<close>

lemma defaultpeer_init_ready:
  "(case host (default_peer st) of None \<Rightarrow> True | Some h \<Rightarrow> 0 \<notin> set h) \<Longrightarrow>
     defaultpeer_ready (snd (backend_defaultpeer_init st))"
  by (auto simp: defaultpeer_ready_def peer_lawful_def backend_defaultpeer_init_def empty_peer_def bytes_def
      split: option.splits)

text \<open>The framings that are lawful, by configuration string.\<close>

definition framing_choice_ok :: "ws_framing option \<Rightarrow> cstring option \<Rightarrow> bool" where
  "framing_choice_ok f c \<longleftrightarrow>
     (case f of
        None \<Rightarrow> True
      | Some f \<Rightarrow>
          f = framing_auto \<or> f = framing_binary \<or>
          f = framing_newline \<and> c \<noteq> None \<or>
          f = framing_separator \<and> (\<exists>s sep. c = Some s \<and> 0 \<notin> set s \<and> unescape s = Some sep))"

lemma framing_choice_lawful:
  assumes "framing_choice_ok f c" "f = Some g"
  shows "\<exists>I. framing_law g c I"
  using assms auto_framing.framing_law_axioms [of c] binary_framing.framing_law_axioms [of c]
    newline_framing.framing_law_axioms framing_separator_law
  by (auto simp: framing_choice_ok_def)

lemma defaultpeer_readyI:
  assumes "framing_choice_ok (framing (default_peer st)) (framing_config (default_peer st))"
    and "\<And>h. host (default_peer st) = Some h \<Longrightarrow> 0 \<notin> set h"
  shows "defaultpeer_ready st"
  using assms framing_choice_lawful [OF assms(1)]
  by (auto simp: defaultpeer_ready_def peer_lawful_def split: option.splits)

section \<open>The subprotocol\<close>

lemma defaultpeer_match_spec:
  "defaultpeer_match pr os p =
     (if \<exists>q\<in>set os. strcasecmp_eq q pr
      then Some (p + length (takeWhile (\<lambda>q. \<not> strcasecmp_eq q pr) os)) else None)"
  by (induction os arbitrary: p) auto

end
