(* ===== verification/Examples.thy ===== *)
theory Examples
  imports Core_Inv Defaultpeer
begin

text \<open>
  A concrete environment, backend configuration and connections, on which the general theorems are
  instantiated.
\<close>

section \<open>An environment\<close>

text \<open>Calls succeed; \<open>send\<close> takes at most three bytes at a time; \<open>recv\<close> delivers \<open>ds\<close>.\<close>

definition demo_sys :: "trace \<Rightarrow> syscall \<Rightarrow> int" where
  "demo_sys tr c =
     (case c of
        SysSend fd bs \<Rightarrow> if 0 \<le> fd then min 3 (int (length bs)) else -1
      | SysGetaddrinfo h p t l \<Rightarrow> 1
      | SysSocket a t \<Rightarrow> 7
      | SysAccept fd \<Rightarrow> 5
      | _ \<Rightarrow> 0)"

definition demo_env :: "u8 list \<Rightarrow> env" where
  "demo_env ds = \<lparr>sys = demo_sys, rx = (\<lambda>tr fd n. Some ds)\<rparr>"

lemma demo_posix_send: "posix_send (demo_env ds)"
proof -
  have "1 \<le> int (length bs)" if "bs \<noteq> []" for bs :: "u8 list" using that by (cases bs) simp_all
  then show ?thesis by (auto simp: posix_send_def demo_env_def demo_sys_def)
qed

lemma demo_posix_accept: "posix_accept (demo_env ds)"
  by (simp add: posix_accept_def demo_env_def demo_sys_def)

section \<open>Services\<close>

text \<open>The default backend as initialised; stand-ins for the hash and the encoding.\<close>

definition demo_backend :: defaultpeer where
  "demo_backend = snd (backend_defaultpeer_init defaultpeer_start)"

definition demo_services :: services where
  "demo_services =
     \<lparr>cfg_query = backend_defaultpeer_query demo_backend,
      nettle_sha1 = take 20, nettle_base64 = map (\<lambda>b. 65 + b AND 15),
      BASE64_ENCODE_LENGTH = (\<lambda>n. (n * 8 + 4) div 6)\<rparr>"

lemma demo_backend_ready: "defaultpeer_ready demo_backend"
  unfolding demo_backend_def
  by (rule defaultpeer_init_ready) (simp add: defaultpeer_start_def empty_peer_def)

lemma demo_services_total: "services_total demo_services"
  by (rule defaultpeer.services [OF demo_backend_ready]) (simp add: demo_services_def)

lemma demo_services_ok: "services_ok demo_services"
proof -
  have "key_fits demo_services key" for key
    by (simp add: key_fits_def accept_encoded_def demo_services_def SHA1_DIGEST_SIZE_def)
  then show ?thesis by (simp add: services_ok_def demo_services_total accept_room_def)
qed

section \<open>Connections\<close>

definition new_client :: websocket where
  "new_client = accepted_websocket 5 0"

text \<open>An open connection with an \<open>auto\<close> framed peer.\<close>

definition open_client :: websocket where
  "open_client = new_client\<lparr>state := ws_open, peer_fd := 7,
     peer := empty_peer\<lparr>transport := peer_tcp_client, framing := Some framing_auto\<rparr>\<rparr>"

lemma new_client_inv: "ws_inv new_client"
  by (simp add: new_client_def accepted_websocket_inv)

lemma open_client_inv: "ws_inv open_client"
proof -
  have "peer_sound open_client"
    by (rule peer_sound_FNull)
      (auto simp: open_client_def new_client_def accepted_websocket_def peer_live_def empty_peer_def
        intro: auto_framing.framing_law_axioms)
  then show ?thesis
    by (simp add: ws_inv_def ws_core_def open_client_def new_client_def accepted_websocket_def)
      (simp add: WS_MAX_LINE_def)
qed

text \<open>A client whose header is complete but for the empty line.\<close>

definition ready_client :: websocket where
  "ready_client = new_client\<lparr>state := ws_http, websocket_version := 13, socket_key := Some (bytes ''key''),
     want_upgrade := 3\<rparr>"

lemma demo_reliable: "\<not> send_fails (demo_env ds) 5"
proof -
  have "1 \<le> int (length bs)" if "bs \<noteq> []" for bs :: "u8 list" using that by (cases bs) simp_all
  then show ?thesis by (auto simp: send_fails_def demo_env_def demo_sys_def)
qed

lemma demo_connects: "\<exists>ws1 tr1. client_connect (demo_env ds) demo_services ws tr = Some (0, ws1, tr1)"
proof -
  have "\<exists>tr1. network_socket (demo_env ds) h p ty False tr = (7, tr1)" for h p ty
    by (simp add: network_socket_def demo_env_def demo_sys_def do_sys_def set_nonblocking_def Let_def)
  then have sock: "\<exists>tr1. client_open_peer (demo_env ds) peer_tcp_client h (Some p) tr = Some (Some 7, tr1)" for h p
    by (auto simp: client_open_peer_def split: prod.split) (metis Pair_inject)
  have st: "split_transport (bytes ''tcp://localhost'') = (peer_tcp_client, bytes ''localhost'')" by code_simp
  have h0: "0 \<notin> set (bytes ''tcp://localhost'')" by (simp add: bytes_def)
  obtain tr1 where "client_open_peer (demo_env ds) peer_tcp_client (bytes ''localhost'') (Some (bytes ''5900'')) tr =
      Some (Some 7, tr1)" using sock by blast
  then show ?thesis
    by (simp add: client_connect_def demo_services_def backend_defaultpeer_query_def Let_def demo_backend_def
        backend_defaultpeer_init_def defaultpeer_start_def empty_peer_def client_complete_peer_eq [OF h0]
        completed_peer_def st)
qed

end
