(* ===== verification/Props_Net.thy ===== *)
theory Props_Net
  imports Examples
begin

text \<open>Properties of \<open>network.c\<close>: delivery and descriptor accounting.\<close>

text \<open>
  C21. \<open>network_send\<close> returns on every POSIX \<open>send\<close>, whatever parts of the data each call takes.
  It only sends on its descriptor; when it returns 0 exactly the data has been accepted, in order,
  and it returns 1, with a proper prefix
  accepted, only when a \<open>send\<close> call fails.
\<close>

theorem network_send_delivers:
  assumes "posix_send E"
  shows "\<exists>r ext. network_send E fd data tr = Some (r, tr @ ext) \<and> only_sends fd ext \<and>
    (r = 0 \<and> sent_on fd ext = data \<or> r = 1 \<and> strict_prefix (sent_on fd ext) data \<and> send_fails E fd)"
  by (cases rule: network_send_cases [OF assms, of fd data tr]) auto

theorem network_send_delivers_witness:
  "\<exists>r ext. network_send (demo_env []) 5 (bytes ''hello'') [] = Some (r, [] @ ext) \<and> only_sends 5 ext \<and>
    (r = 0 \<and> sent_on 5 ext = bytes ''hello'' \<or> r = 1 \<and> strict_prefix (sent_on 5 ext) (bytes ''hello'') \<and>
      send_fails (demo_env []) 5)"
  by (rule network_send_delivers [OF demo_posix_send])

text \<open>
  C26. \<open>network_socket\<close> and \<open>network_socket_unix\<close> send nothing and leak nothing: of all the descriptors
  they create, on every path including the failures, each is closed exactly once, except the one
  that is returned.
\<close>

theorem network_socket_balanced:
  "(case network_socket E h p ty listener tr of (fd, tr') \<Rightarrow>
     \<exists>ext. tr' = tr @ ext \<and> quiet ext \<and> -1 \<le> fd \<and> balanced fd ext) \<and>
   (case network_socket_unix E path ty listener tr of (fd, tr') \<Rightarrow>
     \<exists>ext. tr' = tr @ ext \<and> quiet ext \<and> -1 \<le> fd \<and> balanced fd ext)"
  using network_socket_spec [of E h p ty listener tr] network_socket_unix_spec [of E path ty listener tr]
  by (auto split: prod.split)

end
