(* ===== verification/Props_Framing.thy ===== *)
theory Props_Framing
  imports Examples
begin

text \<open>Properties of the built-in framing functions and of their registry.\<close>

section \<open>Encoded text\<close>

text \<open>The UTF-8 encoding of a code point, RFC 3629.\<close>

definition utf8_encode :: "nat \<Rightarrow> u8 list" where
  "utf8_encode c =
     (if c < 0x80 then [of_nat c]
      else if c < 0x800 then [0xC0 + of_nat (c div 64), 0x80 + of_nat (c mod 64)]
      else if c < 0x10000
      then [0xE0 + of_nat (c div 4096), 0x80 + of_nat (c div 64 mod 64), 0x80 + of_nat (c mod 64)]
      else [0xF0 + of_nat (c div 262144), 0x80 + of_nat (c div 4096 mod 64),
            0x80 + of_nat (c div 64 mod 64), 0x80 + of_nat (c mod 64)])"

lemma encode_bits:
  "list_all (\<lambda>k. utf8_follow (of_nat k) = Some 0) [0..<128]"
  "list_all (\<lambda>k. utf8_follow (0xC0 + of_nat k) = Some 1) [0..<32]"
  "list_all (\<lambda>k. utf8_follow (0xE0 + of_nat k) = Some 2) [0..<16]"
  "list_all (\<lambda>k. utf8_follow (0xF0 + of_nat k) = Some 3) [0..<8]"
  "list_all (\<lambda>k. utf8_byte (0x80 + of_nat k)) [0..<64]"
  by code_simp+

lemma utf8_encode_unit:
  assumes "c < 0x110000"
  shows "utf8_unit (utf8_encode c)"
proof -
  have b: "utf8_byte (0x80 + of_nat (k mod 64))" for k
    using encode_bits(5) by (auto simp: list_all_iff)
  have "utf8_follow (of_nat c) = Some 0" if "c < 0x80"
    using encode_bits(1) that by (auto simp: list_all_iff)
  moreover have "utf8_follow (0xC0 + of_nat (c div 64)) = Some 1" if "c < 0x800"
    using encode_bits(2) that by (auto simp: list_all_iff)
  moreover have "utf8_follow (0xE0 + of_nat (c div 4096)) = Some 2" if "c < 0x10000"
    using encode_bits(3) that by (auto simp: list_all_iff)
  moreover have "utf8_follow (0xF0 + of_nat (c div 262144)) = Some 3"
    using encode_bits(4) assms by (auto simp: list_all_iff)
  ultimately show ?thesis using b by (auto simp: utf8_encode_def utf8_unit_def)
qed

text \<open>
  C32. The \<open>auto\<close> framing function forwards everything there is, as a text frame exactly when the
  bytes split into units of a lead byte and the continuation bytes it announces, and with the
  opcode unchanged otherwise.
\<close>

theorem framing_auto_recognises:
  assumes "len \<le> length d"
  shows "framing_auto (Some d) len last_read (Some opcode) fd cfg =
    Some (int len,
      Some (if \<exists>us. take len d = concat us \<and> (\<forall>u\<in>set us. utf8_unit u) then ws_frame_text else opcode), fd)"
  by (subst framing_auto_eq [OF assms]) (auto simp: utf8_like_iff)

theorem framing_auto_recognises_witness:
  "framing_auto (Some [0x68, 0xC3, 0xA9, 0xFF]) 3 3 (Some ws_frame_binary) None None =
    Some (int 3,
      Some (if \<exists>us. take 3 [0x68, 0xC3, 0xA9, 0xFF] = concat us \<and> (\<forall>u\<in>set us. utf8_unit u)
            then ws_frame_text else ws_frame_binary), None)"
  by (rule framing_auto_recognises) simp

text \<open>
  Every UTF-8 encoded text, of any code points, goes out as a text frame.
\<close>

lemma framing_auto_text:
  assumes "\<forall>c\<in>set cs. c < 0x110000" "d = concat (map utf8_encode cs)"
  shows "framing_auto (Some d) (length d) last_read (Some opcode) fd cfg =
    Some (int (length d), Some ws_frame_text, fd)"
proof -
  have "utf8_like d"
    using assms utf8_encode_unit by (auto intro!: utf8_like_units)
  then show ?thesis by (simp add: framing_auto_eq)
qed

lemma framing_auto_text_witness:
  "framing_auto (Some (concat (map utf8_encode [0x68, 0x20AC, 0x1F600])))
     (length (concat (map utf8_encode [0x68, 0x20AC, 0x1F600]))) 8 (Some ws_frame_binary) None None =
   Some (int (length (concat (map utf8_encode [0x68, 0x20AC, 0x1F600]))), Some ws_frame_text, None)"
  by (rule framing_auto_text [of "[0x68, 0x20AC, 0x1F600]"]) simp_all

text \<open>
  The recognition looks at bit patterns only: there are bytes RFC 3629 forbids (an overlong
  encoding of a NUL, and a surrogate half) that are sent as text.
\<close>

lemma framing_auto_overlong:
  "framing_auto (Some [0xC0, 0x80]) 2 2 (Some ws_frame_binary) None None = Some (2, Some ws_frame_text, None) \<and>
   framing_auto (Some [0xED, 0xA0, 0x80]) 3 3 (Some ws_frame_binary) None None = Some (3, Some ws_frame_text, None)"
proof -
  have "utf8_like [0xC0, 0x80]" "utf8_like [0xED, 0xA0, 0x80]" by code_simp+
  then show ?thesis by (simp add: framing_auto_eq)
qed

section \<open>Separators\<close>

text \<open>
  C33. The in-place parser of separator configurations stays inside the string. A configuration in the
  documented form (plain bytes, the six escapes, \<open>\x<hexbyte>\<close>) is read as the bytes it stands for when no
  byte is given in hexadecimal, and it is refused where \<open>\x\<close> is not followed by two hexadecimal digits.
  A byte in hexadecimal is not read as documented, as that byte: what is read is its second digit, and the
  character behind the escape when that is a digit too.
\<close>

theorem separator_parse_correct:
  assumes "\<forall>i\<in>set items. separator_item_ok i"
  shows "(\<exists>buf s. separator_parse (separator_text items @ [0]) 0 0 = Some (Some (buf, length s)) \<and>
      take (length s) buf = s \<and> s = separator_read items \<and>
      ((\<forall>a b. Hexbyte a b \<notin> set items) \<longrightarrow> s = map separator_item_byte items)) \<and>
    (\<forall>r. 0 \<notin> set r \<and> \<not> (\<exists>a b r'. r = a # b # r' \<and> isxdigit a \<and> isxdigit b) \<longrightarrow>
      separator_parse ((separator_text items @ 92 # 120 # r) @ [0]) 0 0 = Some None)"
proof (intro conjI allI impI)
  note nul = separator_text_nul_free [OF assms]
  obtain buf where "separator_parse (separator_text items @ [0]) 0 0 = Some (Some (buf, length (separator_read items)))"
    "take (length (separator_read items)) buf = separator_read items"
    using separator_parse_unescape [OF nul, of 0 "[]" "[]" 0] unescape_text [OF assms] by (auto simp: parse_result_def)
  then show "\<exists>buf s. separator_parse (separator_text items @ [0]) 0 0 = Some (Some (buf, length s)) \<and>
      take (length s) buf = s \<and> s = separator_read items \<and>
      ((\<forall>a b. Hexbyte a b \<notin> set items) \<longrightarrow> s = map separator_item_byte items)"
    using separator_read_plain [of items] by blast
  fix r :: cstring
  assume r: "0 \<notin> set r \<and> \<not> (\<exists>a b r'. r = a # b # r' \<and> isxdigit a \<and> isxdigit b)"
  then have "unescape (separator_text items @ 92 # 120 # r) = None"
    by (intro unescape_text_None [OF assms] unescape_bad_hex) blast
  moreover have "0 \<notin> set (separator_text items @ 92 # 120 # r)" using nul r by simp
  ultimately show "separator_parse ((separator_text items @ 92 # 120 # r) @ [0]) 0 0 = Some None"
    using separator_parse_config by fastforce
qed

theorem separator_parse_correct_witness:
  "(\<exists>buf s. separator_parse (separator_text [Plain 97, Escaped 114, Escaped 110] @ [0]) 0 0 = Some (Some (buf, length s)) \<and>
      take (length s) buf = s \<and> s = [97, 13, 10])"
  using separator_parse_correct [of "[Plain 97, Escaped 114, Escaped 110]"]
  by (simp add: separator_escapes_def)

text \<open>
  The documented escape of a byte in hexadecimal is off by one character: the configuration
  that should stand for the byte 0x41 stands for the byte 0x01, and a hexadecimal digit behind
  the escape is drawn into the value.
\<close>

lemma separator_hex_misread:
  "unescape (bytes [CHR 92, CHR ''x'', CHR ''4'', CHR ''1'']) = Some [0x01] \<and>
   unescape (bytes [CHR 92, CHR ''x'', CHR ''4'', CHR ''1'', CHR ''b'']) = Some [0x1B, 98]"
  by code_simp

text \<open>
  C34. With a separator configured, a call frames the buffer up to and including the first
  occurrence of the separator that lies within the bytes of the last read, and nothing when there is
  none there. So a separator that starts in bytes of an earlier read and ends in the last one is not
  found, although the documentation says that the function waits until the separator is found in the stream.
\<close>

theorem framing_separator_first:
  assumes "0 \<notin> set c" "unescape c = Some sep" "sep \<noteq> []" "fd = FNull \<or> fd = FSeparator sep"
    and "last_read \<le> len" "len \<le> length d"
  shows "(\<exists>k. first_at sep (take last_read (drop (len - last_read) d)) k \<and>
      framing_separator (Some d) len last_read opcode (Some fd) (Some c) =
        Some (int (len - last_read + k + length sep), opcode, Some (FSeparator sep))) \<or>
    (\<forall>k. \<not> occurs_at sep (take last_read (drop (len - last_read) d)) k) \<and>
      framing_separator (Some d) len last_read opcode (Some fd) (Some c) = Some (0, opcode, Some (FSeparator sep))"
  using separator_search_spec [OF assms(5,6,3), of 0] framing_separator_data [OF assms(1,2,4)] assms(3,5)
  by (auto simp: not_less)

theorem framing_separator_first_witness:
  "(\<exists>k. first_at [59] (take 5 (drop (5 - 5) (bytes ''ab;cd''))) k \<and>
      framing_separator (Some (bytes ''ab;cd'')) 5 5 (Some ws_frame_binary) (Some FNull) (Some (bytes '';'')) =
        Some (int (5 - 5 + k + length [59 :: u8]), Some ws_frame_binary, Some (FSeparator [59]))) \<or>
    (\<forall>k. \<not> occurs_at [59] (take 5 (drop (5 - 5) (bytes ''ab;cd''))) k) \<and>
      framing_separator (Some (bytes ''ab;cd'')) 5 5 (Some ws_frame_binary) (Some FNull) (Some (bytes '';'')) =
        Some (0, Some ws_frame_binary, Some (FSeparator [59]))"
proof (rule framing_separator_first)
  show "unescape (bytes '';'') = Some [59]" by code_simp
qed (simp_all add: bytes_def)

text \<open>
  The \<open>newline\<close> framing function frames up to and including the first newline sequence its
  configuration selects, as text when those bytes are UTF-8 shaped and with the opcode unchanged
  otherwise; without a newline it frames nothing.
\<close>

lemma framing_newline_first:
  assumes "fd = FNull \<or> fd = FSeparator (newline_sequence c)" "last_read \<le> len" "len \<le> length d"
  shows "\<exists>n. framing_newline (Some d) len last_read (Some opcode) (Some fd) (Some c) =
      Some (int n, Some (if utf8_like (take n d) then ws_frame_text else opcode),
            Some (FSeparator (newline_sequence c))) \<and>
    ((\<exists>k. first_at (newline_sequence c) (take last_read (drop (len - last_read) d)) k \<and>
        n = len - last_read + k + length (newline_sequence c)) \<or>
     (\<forall>k. \<not> occurs_at (newline_sequence c) (take last_read (drop (len - last_read) d)) k) \<and> n = 0)"
proof (rule framing_newline_data [OF assms(1,3,2), of "Some opcode"], goal_cases)
  case (1 n)
  from separator_search_spec [OF assms(2,3) newline_sequence_nonempty [of c], of 0] 1(1)
  have "(\<exists>k. first_at (newline_sequence c) (take last_read (drop (len - last_read) d)) k \<and>
        n = len - last_read + k + length (newline_sequence c)) \<or>
     (\<forall>k. \<not> occurs_at (newline_sequence c) (take last_read (drop (len - last_read) d)) k) \<and> n = 0"
    by (auto simp only: option.inject of_nat_eq_iff of_nat_eq_0_iff)
  with 1(3) show ?case by (intro exI [of _ n]) simp
qed

lemma framing_newline_first_witness:
  "\<exists>n. framing_newline (Some (bytes ''hi'' @ [13, 10, 120])) 5 5 (Some ws_frame_binary) (Some FNull) (Some (bytes ''crlf'')) =
      Some (int n, Some (if utf8_like (take n (bytes ''hi'' @ [13, 10, 120])) then ws_frame_text else ws_frame_binary),
            Some (FSeparator (newline_sequence (bytes ''crlf'')))) \<and>
    ((\<exists>k. first_at (newline_sequence (bytes ''crlf'')) (take 5 (drop (5 - 5) (bytes ''hi'' @ [13, 10, 120]))) k \<and>
        n = 5 - 5 + k + length (newline_sequence (bytes ''crlf''))) \<or>
     (\<forall>k. \<not> occurs_at (newline_sequence (bytes ''crlf'')) (take 5 (drop (5 - 5) (bytes ''hi'' @ [13, 10, 120]))) k) \<and> n = 0)"
  by (rule framing_newline_first) simp_all

section \<open>The registry\<close>

text \<open>
  C35. After any sequence of registrations, \<open>plugin_framing\<close> returns the function registered last
  under a name, and the one registered last as \<open>auto\<close> for a null pointer or an unknown name.
\<close>

theorem plugin_framing_last:
  assumes "map_of (rev nfs) (bytes ''auto'') = Some a"
  shows "plugin_framing (fold (\<lambda>(n, f) reg. snd (plugin_register_framing n f reg)) nfs []) name =
    Some (case name of None \<Rightarrow> a | Some n \<Rightarrow> (case map_of (rev nfs) n of None \<Rightarrow> a | Some f \<Rightarrow> f))"
proof -
  let ?reg = "registry.insert_all nfs []"
  have "(\<lambda>(n, f) reg. snd (plugin_register_framing n f reg)) = (\<lambda>(n, f). registry_insert n f)"
    by (auto simp: registry_insert_def fun_eq_iff)
  then have reg: "fold (\<lambda>(n, f) reg. snd (plugin_register_framing n f reg)) nfs [] = ?reg"
    by (simp add: registry.insert_all_def)
  have find: "registry_find m ?reg = map_of (rev nfs) m" for m
    using registry.find_insert_all [of "[]" m nfs]
    by (simp add: registry_find_map_of split: option.splits)
  show ?thesis
    unfolding reg
    using plugin_framing_known [of _ ?reg] plugin_framing_unknown [of ?reg a name] assms
    by (auto simp: find split: option.splits)
qed

theorem plugin_framing_last_witness:
  "plugin_framing (fold (\<lambda>(n, f) reg. snd (plugin_register_framing n f reg))
      [(bytes ''auto'', framing_auto), (bytes ''binary'', framing_binary)] []) (Some (bytes ''nonsense'')) =
    Some (case Some (bytes ''nonsense'') of None \<Rightarrow> framing_auto
      | Some n \<Rightarrow> (case map_of (rev [(bytes ''auto'', framing_auto), (bytes ''binary'', framing_binary)]) n of
                   None \<Rightarrow> framing_auto | Some f \<Rightarrow> f))"
  by (rule plugin_framing_last) (simp add: bytes_def)

end
