(* ===== verification/Framing_Plugins.thy ===== *)
theory Framing_Plugins
  imports Peerdata
begin

text \<open>
  The framing functions of \<open>plugins/framing_fixedlength.c\<close> and \<open>plugins/framing_dynamic32.c\<close>, which
  cut the peer's stream into segments of a configured length, or of a length read from the stream.
\<close>

section \<open>Segments of a fixed length\<close>

text \<open>
  The \<open>size_t\<close> object behind \<open>framing_data\<close>: a null pointer to it, or its value. Framing data of
  another function, or freed, has no value.
\<close>

definition fixed_object :: "framing_data option \<Rightarrow> u64 option option" where
  "fixed_object fd =
     (case fd of
        None \<Rightarrow> Some None
      | Some FNull \<Rightarrow> Some None
      | Some (FFixed n) \<Rightarrow> Some (Some n)
      | _ \<Rightarrow> None)"

text \<open>
  In the clean-up call \<open>frame_size\<close> is freed and then read: \<open>frame_size\<close> is \<open>None\<close> from there on,
  as for a null pointer, and reading it is undefined.
\<close>

definition framing_fixedlen :: ws_framing where
  "framing_fixedlen d len last_read opcode fd cfg =
     do { obj \<leftarrow> fixed_object fd;
          (frame_size, fd1) \<leftarrow>
            (if d \<noteq> None \<and> obj = None
             then do { c \<leftarrow> cfg; _ \<leftarrow> fd;
                       Some (Some (strtoul 0 c), Some (FFixed (strtoul 0 c))) }
             else if d = None \<and> obj \<noteq> None then Some (None, Some FNull)
             else Some (obj, fd));
          n \<leftarrow> frame_size;
          if n = 0 then Some (int len, opcode, fd1)
          else if unat n \<le> len then Some (int (unat n), opcode, fd1)
          else Some (0, opcode, fd1) }"

text \<open>The call with data, with the framing data fresh or set up.\<close>

lemma framing_fixedlen_data:
  assumes "fd = FNull \<or> fd = FFixed (strtoul 0 c)"
  shows "framing_fixedlen (Some d) len last_read opcode (Some fd) (Some c) =
    Some (if strtoul 0 c = 0 then int len else if unat (strtoul 0 c) \<le> len then int (unat (strtoul 0 c)) else 0,
          opcode, Some (FFixed (strtoul 0 c)))"
  using assms by (auto simp: framing_fixedlen_def fixed_object_def)

text \<open>Every frame is a whole segment.\<close>

interpretation fixed_framing:
  framing_shape_law framing_fixedlen "Some c" "\<lambda>fd. fd = FNull \<or> fd = FFixed (strtoul 0 c)"
    "\<lambda>p. strtoul 0 c \<noteq> 0 \<longrightarrow> length p = unat (strtoul 0 c)" for c
proof unfold_locales
  fix fd len last_read op n op' fd' and buf :: "u8 list"
  assume fd: "fd = FNull \<or> fd = FFixed (strtoul 0 c)" and "len < length buf"
    and "framing_fixedlen (Some buf) len last_read (Some op) (Some fd) (Some c) = Some (int n, op', fd')" "0 < n"
  then show "strtoul 0 c \<noteq> 0 \<longrightarrow> length (take n buf) = unat (strtoul 0 c)"
    unfolding framing_fixedlen_data [OF fd] by (auto simp: uint_eq_int split: if_splits)
qed (auto simp: framing_fixedlen_data)

text \<open>
  What the loop leaves: less than a segment, unless the segments taken from the old data end exactly where
  the new data starts. There the loop ends early and leaves all the new data.
\<close>

lemma fixed_loop_left:
  assumes "strtoul 0 c = N" "N \<noteq> 0"
  shows "framing (peer ws) = Some framing_fixedlen \<Longrightarrow> framing_config (peer ws) = Some c \<Longrightarrow>
    peer_framing_data ws = FNull \<or> peer_framing_data ws = FFixed N \<Longrightarrow>
    peer_buffer_offset ws + got < length (peer_buffer ws) \<Longrightarrow>
    ws_peer_loop E ws got op tr = Some (rv, ws', got', tr') \<Longrightarrow>
    rv = Some 1 \<or> rv = None \<and> peer_buffer_offset ws' + got' =
      (if 0 < peer_buffer_offset ws \<and> unat N dvd peer_buffer_offset ws then got
       else (peer_buffer_offset ws + got) mod unat N)"
proof (induction "peer_buffer_offset ws + got" arbitrary: ws got op tr rule: less_induct)
  case less
  let ?n = "unat N" and ?off = "peer_buffer_offset ws" and ?len = "peer_buffer_offset ws + got"
  note fr = less.prems(1,2) and data = less.prems(3) and room = less.prems(4) and run = less.prems(5)
  have n: "0 < ?n" using assms(2) by (simp add: unat_gt_0)
  have call: "framing_fixedlen (Some (peer_buffer ws)) ?len got (Some op) (Some (peer_framing_data ws)) (Some c) =
      Some (if ?n \<le> ?len then int ?n else 0, Some op, Some (FFixed N))"
    using framing_fixedlen_data [of "peer_framing_data ws" c] data assms by simp
  show ?case
  proof (cases "?n \<le> ?len")
    case False
    with run have "rv = None" "peer_buffer_offset ws' + got' = ?len"
      by (auto simp: ws_peer_loop.simps [of E ws got op tr] fr call Let_def)
    moreover have "?off = 0" if "?n dvd ?off" using that False by (auto dest: dvd_imp_le)
    ultimately show ?thesis using False by auto
  next
    case True
    let ?w = "peer_shifted ws (FFixed N) ?len ?n"
    have frame: "framing_fixedlen (Some (peer_buffer ws)) ?len got (Some op) (Some (peer_framing_data ws))
        (framing_config (peer ws)) = Some (int ?n, Some op, Some (FFixed N))" using call True fr(2) by simp
    have "rv = Some 1 \<or> (\<exists>tr1. ws_peer_next E ws (FFixed N) ?n got op tr1 = Some (rv, ws', got', tr'))"
      using run n unfolding ws_peer_loop_frame [OF fr(1) frame _ True room, OF less_imp_neq [OF n, symmetric]]
      by (auto elim!: bind_SomeE split: if_splits)
    then consider "rv = Some 1" | tr1 where "ws_peer_next E ws (FFixed N) ?n got op tr1 = Some (rv, ws', got', tr')"
      by blast
    note cases' = this
    have w: "peer (?w off) = peer ws" "peer_framing_data (?w off) = FFixed N" "peer_buffer_offset (?w off) = off"
      "length (peer_buffer (?w off)) = length (peer_buffer ws)" for off
      using True room by (simp_all add: peer_shifted_def)
    have again: "rv = Some 1 \<or> rv = None \<and> peer_buffer_offset ws' + got' =
        (if 0 < off \<and> ?n dvd off then g else (off + g) mod ?n)"
      if "ws_peer_loop E (?w off) g op tr1 = Some (rv, ws', got', tr')" "off + g = ?len - ?n" for off g tr1
    proof -
      have "off + g < ?len" "off + g < length (peer_buffer ws)" using that(2) n True room by linarith+
      from less.hyps [of "?w off" g op tr1, unfolded w, OF this(1) fr _ this(2) that(1)] show ?thesis by simp
    qed
    have modn: "(?len - ?n) mod ?n = ?len mod ?n" using True by (simp add: le_mod_geq)
    show ?thesis
    proof (cases rule: cases')
      case (2 tr1)
      consider "?n < ?off" | "?off \<le> ?n" "?off \<noteq> ?n" "?n < ?len" | "?off = ?n" | "?len = ?n" "?off \<noteq> ?n"
        using True by linarith
      then show ?thesis
      proof cases
        case 1
        with 2 have more: "ws_peer_loop E (?w (?off - ?n)) got op tr1 = Some (rv, ws', got', tr')"
          by (simp add: ws_peer_next_def Let_def)
        have eq: "?off - ?n + got = ?len - ?n" using 1 by simp
        have mod': "(?off - ?n + got) mod ?n = ?len mod ?n" by (simp only: eq modn)
        from again [OF more eq] 1 n show ?thesis unfolding mod' by (auto simp: dvd_minus_self)
      next
        case mid: 2
        with 2 have "ws_peer_loop E (?w 0) (got - (?n - ?off)) op tr1 = Some (rv, ws', got', tr')"
          by (simp add: ws_peer_next_def Let_def)
        from again [OF this] mid show ?thesis using modn by (auto dest: dvd_imp_le)
      qed (use 2 n in \<open>auto simp: ws_peer_next_def Let_def peer_shifted_def dest: dvd_imp_le\<close>)
    qed simp
  qed
qed

lemma ws_peer_data_fixed_left:
  assumes "framing (peer ws) = Some framing_fixedlen" "framing_config (peer ws) = Some c"
    and "strtoul 0 c = n" "n \<noteq> 0" "peer_framing_data ws = FNull \<or> peer_framing_data ws = FFixed n"
    and d: "peer_buffer_offset ws < length (peer_buffer ws)" "peer_delivery E ws tr = Some ds" "ds \<noteq> []"
    and run: "ws_peer_data E ws tr = Some (0, ws', tr')"
  shows "peer_buffer_offset ws' =
    (if 0 < peer_buffer_offset ws \<and> unat n dvd peer_buffer_offset ws then length ds
     else (peer_buffer_offset ws + length ds) mod unat n)"
proof -
  obtain buf1 where b: "length buf1 = length (peer_buffer ws)"
    "peer_buffer_offset ws + length ds < length (peer_buffer ws)"
    and eq: "ws_peer_data E ws tr = Option.bind
       (ws_peer_loop E (ws\<lparr>peer_buffer := buf1\<rparr>) (length ds) ws_frame_binary
          (tr @ [(SysRecv (peer_fd ws) (length (peer_buffer ws) - peer_buffer_offset ws - 1), int (length ds))]))
       peer_data_end"
    by (rule ws_peer_data_delivered [OF d])
  from run [unfolded eq] obtain rv ws2 got tr2 where
    loop: "ws_peer_loop E (ws\<lparr>peer_buffer := buf1\<rparr>) (length ds) ws_frame_binary
      (tr @ [(SysRecv (peer_fd ws) (length (peer_buffer ws) - peer_buffer_offset ws - 1), int (length ds))]) =
      Some (rv, ws2, got, tr2)"
    and fin: "peer_data_end (rv, ws2, got, tr2) = Some (0, ws', tr')"
    by (auto elim!: bind_SomeE)
  from fixed_loop_left [OF assms(3,4) _ _ _ _ loop] assms(1,2,5) b fin show ?thesis
    by (auto simp: peer_data_end_def)
qed

text \<open>Releasing the framing data reads the freed object.\<close>

lemma framing_fixedlen_release: "framing_fixedlen None 0 0 None (Some (FFixed n)) cfg = None"
  by (simp add: framing_fixedlen_def fixed_object_def)

section \<open>Segments with a length field\<close>

definition dynamic32_item :: "cstring \<Rightarrow> dynamic32_config \<Rightarrow> dynamic32_config" where
  "dynamic32_item s conf =
     (if prefix (bytes ''offset='') s then conf\<lparr>dyn_offset := ucast (strtoul 0 (drop 7 s))\<rparr>
      else if prefix (bytes ''static='') s then conf\<lparr>dyn_fixed := ucast (strtoul 0 (drop 7 s))\<rparr>
      else if prefix (bytes ''endian='') s
      then conf\<lparr>dyn_endian := (if prefix (bytes ''big'') (drop 7 s) then 1 else 0)\<rparr>
      else conf)"

text \<open>The loop over the items of the configuration; \<open>s\<close> is the string at \<open>config + u\<close>.\<close>

partial_function (option) dynamic32_items :: "cstring \<Rightarrow> dynamic32_config \<Rightarrow> dynamic32_config option" where
  "dynamic32_items s conf =
     (case s of [] \<Rightarrow> Some conf
      | _ \<Rightarrow> dynamic32_items (dropWhile (\<lambda>c. c \<noteq> 44) s) (dynamic32_item s conf))"

definition dynamic32_object :: "framing_data \<Rightarrow> dynamic32_config option option" where
  "dynamic32_object fd =
     (case fd of FNull \<Rightarrow> Some None | FDynamic conf \<Rightarrow> Some (Some conf) | _ \<Rightarrow> None)"

text \<open>The \<open>uint32_t\<close> at a position, in the byte order of the machine (little endian).\<close>

definition read32 :: "u8 list \<Rightarrow> nat \<Rightarrow> u8 list option" where
  "read32 d i = (if i + 4 \<le> length d then Some (take 4 (drop i d)) else None)"

definition dynamic32_size :: "dynamic32_config \<Rightarrow> u8 list \<Rightarrow> u32" where
  "dynamic32_size conf f = of_nat (of_be (if dyn_endian conf \<noteq> 0 then f else rev f))"

text \<open>The sums are 32-bit sums, which wrap.\<close>

definition framing_dynamic32 :: ws_framing where
  "framing_dynamic32 d len last_read opcode fd cfg =
     do { fd0 \<leftarrow> fd;
          obj \<leftarrow> dynamic32_object fd0;
          (conncfg, fd1) \<leftarrow>
            (if d \<noteq> None \<and> obj = None
             then do { c \<leftarrow> cfg;
                       conf \<leftarrow> dynamic32_items c \<lparr>dyn_offset = 0, dyn_fixed = 0, dyn_endian = 0\<rparr>;
                       Some (Some conf, FDynamic conf) }
             else if d = None \<and> obj \<noteq> None then Some (None, FNull)
             else Some (obj, fd0));
          conf \<leftarrow> conncfg;
          if unat (dyn_offset conf + 4) \<le> len
          then do {
            buf \<leftarrow> d;
            f \<leftarrow> read32 buf (unat (dyn_offset conf));
            let total = dyn_offset conf + 4 + dyn_fixed conf + dynamic32_size conf f;
            if unat total \<le> len then Some (int (unat total), opcode, Some fd1)
            else Some (0, opcode, Some fd1) }
          else Some (0, opcode, Some fd1) }"

text \<open>
  The loop does not step over a comma: it ends for a configuration of one item, and never for a
  list of several.
\<close>

lemma dynamic32_items_single:
  assumes "44 \<notin> set s"
  shows "dynamic32_items s conf = Some (if s = [] then conf else dynamic32_item s conf)"
proof -
  have dw: "dropWhile (\<lambda>c. c \<noteq> 44) s = []" using assms by auto
  have "dynamic32_items s conf = dynamic32_items (dropWhile (\<lambda>c. c \<noteq> 44) s) (dynamic32_item s conf)"
    if "s \<noteq> []" using that by (subst dynamic32_items.simps) (auto split: list.split)
  then show ?thesis unfolding dw by (simp add: dynamic32_items.simps [of "[]"])
qed

lemma dynamic32_items_comma:
  assumes "44 \<in> set s"
  shows "dynamic32_items s conf = None"
proof -
  have "44 \<notin> set s" if "dynamic32_items s conf = Some r" for r
  proof (rule dynamic32_items.raw_induct [OF _ that], goal_cases)
    case (1 loop s conf r)
    show ?case
    proof (cases s)
      case (Cons c cs)
      with 1(2) have "loop (dropWhile (\<lambda>c. c \<noteq> 44) s) (dynamic32_item s conf) = Some r" by simp
      from 1(1) [OF this] have "44 \<notin> set (dropWhile (\<lambda>c. c \<noteq> 44) s)" .
      moreover have "44 \<notin> set (takeWhile (\<lambda>c. c \<noteq> 44) s)" by (auto dest: set_takeWhileD)
      ultimately have "44 \<notin> set (takeWhile (\<lambda>c. c \<noteq> 44) s @ dropWhile (\<lambda>c. c \<noteq> 44) s)"
        unfolding set_append by blast
      then show ?thesis unfolding takeWhile_dropWhile_id .
    qed simp
  qed
  with assms show ?thesis by (cases "dynamic32_items s conf") auto
qed

text \<open>The call with data once the connection is configured.\<close>

lemma framing_dynamic32_conf:
  "framing_dynamic32 (Some d) len last_read opcode (Some (FDynamic conf)) cfg =
     (if unat (dyn_offset conf + 4) \<le> len
      then do {
        f \<leftarrow> read32 d (unat (dyn_offset conf));
        let total = dyn_offset conf + 4 + dyn_fixed conf + dynamic32_size conf f;
        Some (if unat total \<le> len then int (unat total) else 0, opcode, Some (FDynamic conf)) }
      else Some (0, opcode, Some (FDynamic conf)))"
  by (cases "read32 d (unat (dyn_offset conf))") (simp_all add: framing_dynamic32_def dynamic32_object_def Let_def)

lemma framing_dynamic32_fresh:
  assumes "dynamic32_items c \<lparr>dyn_offset = 0, dyn_fixed = 0, dyn_endian = 0\<rparr> = Some conf"
  shows "framing_dynamic32 (Some d) len last_read opcode (Some FNull) (Some c) =
    framing_dynamic32 (Some d) len last_read opcode (Some (FDynamic conf)) (Some c)"
  using assms by (simp add: framing_dynamic32_def dynamic32_object_def Let_def)

text \<open>The segment a payload has to be: its length is the one its own length field announces.\<close>

definition dynamic32_segment :: "dynamic32_config \<Rightarrow> u8 list \<Rightarrow> bool" where
  "dynamic32_segment conf p \<longleftrightarrow>
     (\<forall>f. read32 p (unat (dyn_offset conf)) = Some f \<longrightarrow>
        of_nat (length p) = dyn_offset conf + 4 + dyn_fixed conf + dynamic32_size conf f)"

lemma read32_take: "i + 4 \<le> n \<Longrightarrow> n \<le> length d \<Longrightarrow> read32 (take n d) i = read32 d i"
  by (simp add: read32_def min_def drop_take)

lemma read32_in: "i + 4 \<le> length d \<Longrightarrow> \<exists>f. read32 d i = Some f"
  by (simp add: read32_def)

text \<open>
  The contract with the connection holds when the length field ends below 2^32; every frame is then
  a whole segment.
\<close>

lemma dynamic32_shape_law:
  assumes conf: "dynamic32_items c \<lparr>dyn_offset = 0, dyn_fixed = 0, dyn_endian = 0\<rparr> = Some conf"
    and off: "unat (dyn_offset conf) + 4 < 2 ^ 32"
  shows "framing_shape_law framing_dynamic32 (Some c) (\<lambda>fd. fd = FNull \<or> fd = FDynamic conf) (dynamic32_segment conf)"
proof -
  have off4: "unat (dyn_offset conf + 4) = unat (dyn_offset conf) + 4"
    using off by (simp add: unat_plus_if')
  let ?I = "\<lambda>fd. fd = FNull \<or> fd = FDynamic conf"
  have call: "framing_dynamic32 (Some d) len last_read opcode (Some fd) (Some c) =
     (if unat (dyn_offset conf) + 4 \<le> len
      then do {
        f \<leftarrow> read32 d (unat (dyn_offset conf));
        let total = dyn_offset conf + 4 + dyn_fixed conf + dynamic32_size conf f;
        Some (if unat total \<le> len then int (unat total) else 0, opcode, Some (FDynamic conf)) }
      else Some (0, opcode, Some (FDynamic conf)))" if "?I fd" for fd d len last_read opcode
    using that framing_dynamic32_fresh [OF conf] framing_dynamic32_conf off4 by (auto simp: Let_def)
  show ?thesis
  proof unfold_locales
    fix fd len last_read op and buf :: "u8 list"
    assume I: "?I fd" and len: "len < length buf"
    show "\<exists>n op' fd'. framing_dynamic32 (Some buf) len last_read (Some op) (Some fd) (Some c) =
        Some (int n, Some op', Some fd') \<and> n \<le> len \<and> ?I fd'"
    proof (cases "unat (dyn_offset conf) + 4 \<le> len")
      case True
      with len obtain f where "read32 buf (unat (dyn_offset conf)) = Some f"
        using read32_in [of "unat (dyn_offset conf)" buf] by auto
      with True call [OF I, of buf len last_read "Some op"] show ?thesis
        by (auto simp: Let_def)
    qed (use call [OF I] in auto)
  next
    fix fd len last_read op n op' fd' and buf :: "u8 list"
    assume I: "?I fd" and len: "len < length buf"
      and r: "framing_dynamic32 (Some buf) len last_read (Some op) (Some fd) (Some c) = Some (int n, op', fd')"
      and n: "0 < n"
    have in_len: "unat (dyn_offset conf) + 4 \<le> len" using r n call [OF I] by (auto split: if_splits)
    with len obtain f where f: "read32 buf (unat (dyn_offset conf)) = Some f"
      using read32_in [of "unat (dyn_offset conf)" buf] by auto
    let ?total = "dyn_offset conf + 4 + dyn_fixed conf + dynamic32_size conf f"
    have "n = unat ?total" "n \<le> len"
      using r n call [OF I, of buf len last_read "Some op"] in_len f
      by (auto simp: Let_def split: if_splits)
    then have seg: "of_nat (length (take n buf)) = ?total" using len by (simp add: min_def)
    show "dynamic32_segment conf (take n buf)"
      unfolding dynamic32_segment_def
    proof (intro allI impI)
      fix g assume g: "read32 (take n buf) (unat (dyn_offset conf)) = Some g"
      then have "unat (dyn_offset conf) + 4 \<le> n" using len \<open>n \<le> len\<close> by (auto simp: read32_def split: if_splits)
      then have "g = f" using g f read32_take [of "unat (dyn_offset conf)" n buf] len \<open>n \<le> len\<close> by simp
      with seg show "of_nat (length (take n buf)) =
          dyn_offset conf + 4 + dyn_fixed conf + dynamic32_size conf g" by simp
    qed
  qed simp
qed

text \<open>Releasing the framing data reads the freed object, here too.\<close>

lemma framing_dynamic32_release: "framing_dynamic32 None 0 0 None (Some (FDynamic conf)) cfg = None"
  by (simp add: framing_dynamic32_def dynamic32_object_def)

end
