(* ===== verification/Framing_Json.thy ===== *)
theory Framing_Json
  imports Framing
begin

text \<open>
  \<open>plugins/framing_json.c\<close>: the \<open>json\<close> framing function, which frames one JSON entity at a time.
  A \<open>char*\<close> into the buffer is the list from there to the end of the array; the length passed along
  with it may be smaller, and the code does look at the byte behind it.
\<close>

section \<open>The scanner\<close>

text \<open>\<open>for(; n < length && P(data[n]); n++);\<close>\<close>

function span_below :: "(u8 \<Rightarrow> bool) \<Rightarrow> u8 list \<Rightarrow> nat \<Rightarrow> nat \<Rightarrow> nat option" where
  "span_below P d len n =
     (if n < len then do { c \<leftarrow> rd d n; if P c then span_below P d len (Suc n) else Some n }
      else Some n)"
  by pat_completeness auto
termination
  by (relation "measure (\<lambda>(P, d, len, n). len - n)") auto

declare span_below.simps [simp del]

lemma runs_span_below:
  assumes "n \<le> z" "len \<le> z" "z < length d" "\<And>m. n \<le> m \<Longrightarrow> m \<le> z \<Longrightarrow> Q m"
  shows "runs (span_below P d len n) Q"
  using assms
proof (induction P d len n rule: span_below.induct)
  case (1 P d len n)
  have in_d: "n < length d" if "n < len" using that 1(3,4) by linarith
  have "runs (span_below P d len (Suc n)) Q" if "n < len" "P (d ! n)"
    using 1(1) [OF that(1) rd_in [OF in_d [OF that(1)]]] 1(3-5) that by simp
  then show ?case using in_d 1(2,5) by (subst span_below.simps) auto
qed

lemma span_below_obtain:
  assumes "n \<le> z" "len \<le> z" "z < length d"
  obtains m where "span_below P d len n = Some m" "n \<le> m" "m \<le> z"
  using runs_span_below [OF assms, of "\<lambda>m. n \<le> m \<and> m \<le> z"] by (auto simp: runs_def)

lemma span_below_le: "span_below P d len n = Some m \<Longrightarrow> n \<le> m"
proof (induction P d len n rule: span_below.induct)
  case (1 P d len n)
  from 1(2) show ?case
    by (subst (asm) span_below.simps) (auto split: if_splits elim!: bind_SomeE dest!: 1(1))
qed

text \<open>The end of a run of characters inside the data.\<close>

lemma span_below_run:
  assumes "list_all P w" "length pre + length w \<le> len"
    and "len = length pre + length w \<or> rest \<noteq> [] \<and> \<not> P (hd rest)"
  shows "span_below P (pre @ w @ rest) len (length pre) = Some (length pre + length w)"
  using assms
proof (induction w arbitrary: pre)
  case Nil
  then show ?case by (cases rest) (auto simp: span_below.simps nth_append)
next
  case (Cons c w)
  from Cons.IH [of "pre @ [c]"] Cons.prems show ?case
    by (subst span_below.simps) (simp add: nth_append)
qed

abbreviation json_space :: "u8 list \<Rightarrow> nat \<Rightarrow> nat \<Rightarrow> nat option" where
  "json_space \<equiv> span_below isspace"

text \<open>The loop of \<open>json_length_string\<close>: the end of the string, or where the scan stops.\<close>

function json_string_scan :: "u8 list \<Rightarrow> nat \<Rightarrow> nat \<Rightarrow> nat option" where
  "json_string_scan d len n =
     (if n < len
      then do { c \<leftarrow> rd d n; p \<leftarrow> rd d (n - 1);
                if isprint c \<and> (c \<noteq> 34 \<or> p = 92) then json_string_scan d len (Suc n) else Some n }
      else Some n)"
  by pat_completeness auto
termination
  by (relation "measure (\<lambda>(d, len, n). len - n)") auto

declare json_string_scan.simps [simp del]

definition json_length_string :: "u8 list \<Rightarrow> nat \<Rightarrow> int option" where
  "json_length_string d len =
     (if len = 0 then Some 0
      else do {
        c0 \<leftarrow> rd d 0;
        if c0 \<noteq> 34 then Some (-1)
        else do {
          n \<leftarrow> json_string_scan d len 1;
          c \<leftarrow> rd d n; p \<leftarrow> rd d (n - 1);
          if c = 34 \<and> p \<noteq> 92 then Some (int n + 1)
          else if len \<le> n then Some 0
          else Some (-1) } })"

definition json_number_char :: "u8 \<Rightarrow> bool" where
  "json_number_char c \<longleftrightarrow> isdigit c \<or> c = 43 \<or> c = 45 \<or> c = 46 \<or> tolower c = 101"

text \<open>A number: its length when it is complete, 0 when more is needed, \<open>None\<close> inside when it falls
  through to the literals.\<close>

definition json_number_value :: "u8 list \<Rightarrow> nat \<Rightarrow> int option option" where
  "json_number_value d len =
     do { n \<leftarrow> span_below json_number_char d len 1;
          c \<leftarrow> rd d n;
          if c = 44 \<or> c = 32 \<or> c = 125 \<or> c = 93 then Some (Some (int n))
          else if len \<le> n
          then do { p \<leftarrow> rd d (n - 1);
                    Some (Some (if p = 46 \<or> tolower p = 101 \<or> p = 45 \<or> p = 43 then 0 else int n)) }
          else Some None }"

text \<open>\<open>strncmp(data, s, n)\<close> for a literal \<open>s\<close> and \<open>n\<close> at most its length.\<close>

definition strncmp_lit :: "u8 list \<Rightarrow> cstring \<Rightarrow> nat \<Rightarrow> bool option" where
  "strncmp_lit d s n = strncmp_eq d 0 (take n s)"

definition json_length_value :: "u8 list \<Rightarrow> nat \<Rightarrow> int option" where
  "json_length_value d len =
     (if len = 0 then Some 0
      else do {
        c0 \<leftarrow> rd d 0;
        num \<leftarrow> (if c0 = 45 \<or> isdigit c0 then json_number_value d len else Some None);
        case num of
          Some r \<Rightarrow> Some r
        | None \<Rightarrow> do {
            null \<leftarrow> (if 4 \<le> len then strncmp_lit d (bytes ''null'') 4 else Some False);
            if null then Some 4
            else do {
            true \<leftarrow> (if 4 \<le> len then strncmp_lit d (bytes ''true'') 4 else Some False);
            if true then Some 4
            else do {
            false \<leftarrow> (if 5 \<le> len then strncmp_lit d (bytes ''false'') 5 else Some False);
            if false then Some 5
            else do {
            null \<leftarrow> (if len < 4 then strncmp_lit d (bytes ''null'') len else Some False);
            if null then Some 0
            else do {
            true \<leftarrow> (if len < 4 then strncmp_lit d (bytes ''true'') len else Some False);
            if true then Some 0
            else do {
            false \<leftarrow> (if len < 5 then strncmp_lit d (bytes ''false'') len else Some False);
            if false then Some 0
            else Some (-1) } } } } } } })"

text \<open>
  Arrays, objects and values call each other. In the two loops \<open>current_offset\<close> is \<open>Suc k\<close> (it starts
  at 1), \<open>nl\<close> is \<open>next_length\<close>. Where the remaining length is 0 the callee returns 0 at once; that
  test of the callee is made at the call. The colon test \<open>current_offset >= length - 1\<close> is on a
  positive length.
\<close>

function (sequential)
  json_length :: "u8 list \<Rightarrow> nat \<Rightarrow> int option" and
  json_length_array :: "u8 list \<Rightarrow> nat \<Rightarrow> int option" and
  json_array_loop :: "u8 list \<Rightarrow> nat \<Rightarrow> nat \<Rightarrow> int \<Rightarrow> int option" and
  json_length_object :: "u8 list \<Rightarrow> nat \<Rightarrow> int option" and
  json_object_loop :: "u8 list \<Rightarrow> nat \<Rightarrow> nat \<Rightarrow> int \<Rightarrow> int option"
where
  "json_length d len =
     (if len = 0 then Some 0
      else do {
        cur \<leftarrow> json_space d len 0;
        c \<leftarrow> rd d cur;
        rv \<leftarrow> (if c = 91 then json_length_array (drop cur d) (len - cur)
              else if c = 123 then json_length_object (drop cur d) (len - cur)
              else if c = 34 then json_length_string (drop cur d) (len - cur)
              else json_length_value (drop cur d) (len - cur));
        if rv \<le> 0 then Some rv else Some (int cur + rv) })"
| "json_length_array d len =
     (if len = 0 then Some 0
      else do { c \<leftarrow> rd d 0; if c \<noteq> 91 then Some (-1) else json_array_loop d len 0 0 })"
| "json_array_loop d len k nl =
     do { cur \<leftarrow> json_space d len (Suc k);
          c \<leftarrow> (if nl = 0 then rd d cur else Some 0);
          if nl = 0 \<and> c = 93 then Some (int cur + 1)
          else do {
            nl1 \<leftarrow> (if len - cur = 0 then Some 0 else json_length (drop cur d) (len - cur));
            if nl1 \<le> 0 then Some nl1
            else do {
              cur1 \<leftarrow> json_space d len (cur + nat nl1);
              c1 \<leftarrow> rd d cur1;
              if c1 = 93 then Some (int cur1 + 1)
              else if len \<le> cur1 then Some 0
              else if c1 \<noteq> 44 then Some (-1)
              else if cur1 + 1 < len then json_array_loop d len cur1 nl1
              else do { c2 \<leftarrow> rd d (cur1 + 1); Some (if c2 = 93 then int cur1 + 2 else -1) } } } }"
| "json_length_object d len =
     (if len = 0 then Some 0
      else do { c \<leftarrow> rd d 0; if c \<noteq> 123 then Some (-1) else json_object_loop d len 0 0 })"
| "json_object_loop d len k nl =
     do { cur \<leftarrow> json_space d len (Suc k);
          c \<leftarrow> (if nl = 0 then rd d cur else Some 0);
          if nl = 0 \<and> c = 125 then Some (int cur + 1)
          else do {
            kl \<leftarrow> json_length_string (drop cur d) (len - cur);
            if kl \<le> 0 then Some kl
            else do {
              col \<leftarrow> json_space d len (cur + nat kl);
              if len - 1 \<le> col then Some 0
              else do {
                c1 \<leftarrow> rd d col;
                if c1 \<noteq> 58 then Some (-1)
                else do {
                  nl1 \<leftarrow> json_length (drop (col + 1) d) (len - (col + 1));
                  if nl1 \<le> 0 then Some nl1
                  else do {
                    cur1 \<leftarrow> json_space d len (col + 1 + nat nl1);
                    c2 \<leftarrow> rd d cur1;
                    if c2 = 125 then Some (int cur1 + 1)
                    else if len \<le> cur1 then Some 0
                    else if c2 \<noteq> 44 then Some (-1)
                    else if cur1 + 1 < len then json_object_loop d len cur1 nl1
                    else do { c3 \<leftarrow> rd d (cur1 + 1); Some (if c3 = 125 then int cur1 + 2 else -1) } } } } } } }"
  by pat_completeness auto

termination
  by (relation "inv_image (less_than <*lex*> less_than <*lex*> less_than)
      (\<lambda>x. case x of
         Inl (Inl (d, len)) \<Rightarrow> (len, 2, 0)
       | Inl (Inr (d, len)) \<Rightarrow> (len, 1, 0)
       | Inr (Inl (d, len, k, nl)) \<Rightarrow> (len, 0, len - k)
       | Inr (Inr (Inl (d, len))) \<Rightarrow> (len, 1, 0)
       | Inr (Inr (Inr (d, len, k, nl))) \<Rightarrow> (len, 0, len - k))")
    (auto dest!: span_below_le)

declare json_length.simps [simp del] json_length_array.simps [simp del] json_array_loop.simps [simp del]
  json_length_object.simps [simp del] json_object_loop.simps [simp del]

definition framing_json :: ws_framing where
  "framing_json d len last_read opcode fd cfg =
     do { n \<leftarrow> (case d of None \<Rightarrow> if len = 0 then Some 0 else None | Some buf \<Rightarrow> json_length buf len);
          if 0 < n then do { _ \<leftarrow> opcode; Some (n, Some ws_frame_text, fd) }
          else if n = 0 then Some (0, opcode, fd)
          else Some (int len, opcode, fd) }"

section \<open>Safety\<close>

text \<open>
  The scanner looks at bytes behind the length it is given, but never behind a NUL at or after that
  length, and what it returns ends before the NUL.
\<close>

definition json_bounded :: "nat \<Rightarrow> int option \<Rightarrow> bool" where
  "json_bounded z m \<longleftrightarrow> runs m (\<lambda>r. -1 \<le> r \<and> r \<le> int z)"

lemma runs_json_string_scan:
  assumes "0 < n" "n \<le> z" "len \<le> z" "z < length d" "\<And>m. 0 < m \<Longrightarrow> m \<le> z \<Longrightarrow> Q m"
  shows "runs (json_string_scan d len n) Q"
  using assms
proof (induction d len n rule: json_string_scan.induct)
  case (1 d len n)
  have in_d: "n < length d" "n - 1 < length d" if "n < len" using that 1(4,5) by linarith+
  have "runs (json_string_scan d len (Suc n)) Q"
    if "n < len" "isprint (d ! n) \<and> (d ! n \<noteq> 34 \<or> d ! (n - 1) = 92)"
    using 1(1) [OF that(1) rd_in [OF in_d(1) [OF that(1)]] rd_in [OF in_d(2) [OF that(1)]]] 1(4-6) that by simp
  then show ?case using in_d 1(2,3,6) by (subst json_string_scan.simps) auto
qed

lemma json_bounded_simps [simp]:
  "json_bounded z (Some r) \<longleftrightarrow> -1 \<le> r \<and> r \<le> int z"
  "json_bounded z (Option.bind m f) \<longleftrightarrow> runs m (\<lambda>x. json_bounded z (f x))"
  by (simp_all add: json_bounded_def)

lemma json_string_bounded:
  assumes "len \<le> z" "z < length d" "d ! z = 0"
  shows "json_bounded z (json_length_string d len)"
proof -
  have "runs (json_string_scan d len 1) (\<lambda>n. runs (rd d n) (\<lambda>c. runs (rd d (n - 1)) (\<lambda>p.
      json_bounded z (if c = 34 \<and> p \<noteq> 92 then Some (int n + 1) else if len \<le> n then Some 0 else Some (-1)))))"
    if "len \<noteq> 0"
  proof (rule runs_json_string_scan [OF _ _ assms(1,2)], goal_cases)
    case (3 m)
    then have "m \<noteq> z" if "d ! m = 34" using assms(3) that by auto
    with 3 assms show ?case by auto
  qed (use that assms in auto)
  then show ?thesis using assms by (auto simp: json_length_string_def)
qed

lemma strncmp_lit_runs:
  assumes "n \<le> length d" "\<And>b. Q b"
  shows "runs (strncmp_lit d s n) Q"
proof -
  have "\<exists>b. strncmp_eq d 0 (take n s) = Some b"
    using strncmp_eq_in [of 0 "take n s" d] assms(1) by auto
  with assms(2) show ?thesis by (auto simp: strncmp_lit_def runs_def)
qed

lemma json_value_bounded:
  assumes "len \<le> z" "z < length d" "d ! z = 0"
  shows "json_bounded z (json_length_value d len)"
proof -
  define lits where "lits = (do {
            null \<leftarrow> (if 4 \<le> len then strncmp_lit d (bytes ''null'') 4 else Some False);
            if null then Some 4
            else do {
            true \<leftarrow> (if 4 \<le> len then strncmp_lit d (bytes ''true'') 4 else Some False);
            if true then Some 4
            else do {
            false \<leftarrow> (if 5 \<le> len then strncmp_lit d (bytes ''false'') 5 else Some False);
            if false then Some 5
            else do {
            null \<leftarrow> (if len < 4 then strncmp_lit d (bytes ''null'') len else Some False);
            if null then Some 0
            else do {
            true \<leftarrow> (if len < 4 then strncmp_lit d (bytes ''true'') len else Some False);
            if true then Some 0
            else do {
            false \<leftarrow> (if len < 5 then strncmp_lit d (bytes ''false'') len else Some False);
            if false then Some 0
            else Some (-1 :: int) } } } } } })"
  have lits: "json_bounded z lits"
    unfolding lits_def using assms by (auto intro!: strncmp_lit_runs)
  have num: "runs (json_number_value d len) (\<lambda>r. json_bounded z (case r of Some r \<Rightarrow> Some r | None \<Rightarrow> lits))"
    if "len \<noteq> 0"
    unfolding json_number_value_def runs_bind
    by (rule runs_span_below [OF _ assms(1,2)]) (use that assms lits in auto)
  show ?thesis
    using num lits assms unfolding json_length_value_def lits_def [symmetric] by auto
qed

text \<open>Continuing behind a value of bounded length that starts at \<open>c\<close>.\<close>

lemma json_bounded_then:
  assumes "json_bounded (z - c) m" "\<And>n. 0 < n \<Longrightarrow> n \<le> int (z - c) \<Longrightarrow> json_bounded z (body n)"
  shows "json_bounded z (do { n \<leftarrow> m; if n \<le> 0 then Some n else body n })"
  using assms by (auto simp: json_bounded_def runs_def)

text \<open>The end of an iteration of both loops: the closing bracket, the end of the data, or a comma.\<close>

lemma json_bounded_end:
  fixes d :: "u8 list"
  assumes "cur \<le> z" "z < length d" "d ! z = 0" "close \<noteq> 0"
    and "\<lbrakk>cur + 1 < len; d ! cur \<noteq> close; d ! cur = 44\<rbrakk> \<Longrightarrow> json_bounded z again"
  shows "json_bounded z (do { c1 \<leftarrow> rd d cur;
    if c1 = close then Some (int cur + 1)
    else if len \<le> cur then Some 0
    else if c1 \<noteq> 44 then Some (-1)
    else if cur + 1 < len then again
    else do { c2 \<leftarrow> rd d (cur + 1); Some (if c2 = close then int cur + 2 else -1) } })"
proof -
  have below: "m < z" if "m \<le> z" "d ! m \<noteq> 0" for m using that assms(3) by (cases "m = z") auto
  have "cur < z" if "d ! cur = close \<or> d ! cur = 44" using below [OF assms(1)] that assms(4) by auto
  moreover have "cur + 1 < z" if "d ! cur = 44" "d ! (cur + 1) = close"
    using below [of cur] below [of "cur + 1"] that assms(1,4) by auto
  ultimately show ?thesis using assms by auto
qed

lemma json_array_loop_bounded:
  assumes len: "len \<le> z" and z: "z < length d" "d ! z = 0"
    and val: "\<And>c. 0 < c \<Longrightarrow> c \<le> z \<Longrightarrow> c < len \<Longrightarrow> json_bounded (z - c) (json_length (drop c d) (len - c))"
  shows "Suc k \<le> z \<Longrightarrow> json_bounded z (json_array_loop d len k nl)"
proof (induction "len - k" arbitrary: k nl rule: less_induct)
  case less
  obtain cur where cur: "json_space d len (Suc k) = Some cur" "Suc k \<le> cur" "cur \<le> z"
    using less.prems by (rule span_below_obtain [OF _ len z(1)])
  have rdc: "(if nl = 0 then rd d cur else Some 0) = Some (if nl = 0 then d ! cur else 0)"
    using cur(3) z by simp
  have "json_bounded z (do {
      nl1 \<leftarrow> (if len - cur = 0 then Some 0 else json_length (drop cur d) (len - cur));
      if nl1 \<le> 0 then Some nl1
      else do {
        cur1 \<leftarrow> json_space d len (cur + nat nl1);
        c1 \<leftarrow> rd d cur1;
        if c1 = 93 then Some (int cur1 + 1)
        else if len \<le> cur1 then Some 0
        else if c1 \<noteq> 44 then Some (-1)
        else if cur1 + 1 < len then json_array_loop d len cur1 nl1
        else do { c2 \<leftarrow> rd d (cur1 + 1); Some (if c2 = 93 then int cur1 + 2 else -1) } } })"
  proof (rule json_bounded_then [where c = cur])
    show "json_bounded (z - cur) (if len - cur = 0 then Some 0 else json_length (drop cur d) (len - cur))"
      using val [of cur] cur(2,3) by auto
  next
    fix n :: int
    assume n: "0 < n" "n \<le> int (z - cur)"
    obtain cur1 where cur1: "json_space d len (cur + nat n) = Some cur1" "cur + nat n \<le> cur1" "cur1 \<le> z"
      by (rule span_below_obtain [of "cur + nat n" z len d isspace]) (use n cur len z in auto)
    show "json_bounded z (do {
        cur1 \<leftarrow> json_space d len (cur + nat n);
        c1 \<leftarrow> rd d cur1;
        if c1 = 93 then Some (int cur1 + 1)
        else if len \<le> cur1 then Some 0
        else if c1 \<noteq> 44 then Some (-1)
        else if cur1 + 1 < len then json_array_loop d len cur1 n
        else do { c2 \<leftarrow> rd d (cur1 + 1); Some (if c2 = 93 then int cur1 + 2 else -1) } })"
      unfolding cur1(1) Option.bind.simps
      by (rule json_bounded_end [OF cur1(3) z]) (use less.hyps cur1 cur n len in auto)
  qed
  moreover have "cur < z" if "d ! cur = 93" using that cur(3) z by (cases "cur = z") auto
  ultimately show ?case
    by (subst json_array_loop.simps) (auto simp: cur(1) rdc simp del: json_bounded_simps(2))
qed

text \<open>The part of a member behind its colon, at \<open>col\<close>.\<close>

lemma json_member_bounded:
  assumes len: "len \<le> z" and z: "z < length d" "d ! z = 0"
    and val: "\<And>c. 0 < c \<Longrightarrow> c \<le> z \<Longrightarrow> c < len \<Longrightarrow> json_bounded (z - c) (json_length (drop c d) (len - c))"
    and loop: "\<And>c nl. col < c \<Longrightarrow> c + 1 < len \<Longrightarrow> json_bounded z (json_object_loop d len c nl)"
    and col: "col < z" "\<not> len - 1 \<le> col"
  shows "json_bounded z (do {
      nl1 \<leftarrow> json_length (drop (col + 1) d) (len - (col + 1));
      if nl1 \<le> 0 then Some nl1
      else do {
        cur1 \<leftarrow> json_space d len (col + 1 + nat nl1);
        c2 \<leftarrow> rd d cur1;
        if c2 = 125 then Some (int cur1 + 1)
        else if len \<le> cur1 then Some 0
        else if c2 \<noteq> 44 then Some (-1)
        else if cur1 + 1 < len then json_object_loop d len cur1 nl1
        else do { c3 \<leftarrow> rd d (cur1 + 1); Some (if c3 = 125 then int cur1 + 2 else -1) } } })"
proof (rule json_bounded_then [where c = "col + 1"])
  show "json_bounded (z - (col + 1)) (json_length (drop (col + 1) d) (len - (col + 1)))"
    by (rule val) (use col in auto)
next
  fix n :: int
  assume n: "0 < n" "n \<le> int (z - (col + 1))"
  obtain cur1 where cur1: "json_space d len (col + 1 + nat n) = Some cur1" "col + 1 + nat n \<le> cur1" "cur1 \<le> z"
    by (rule span_below_obtain [of "col + 1 + nat n" z len d isspace]) (use n col len z in auto)
  show "json_bounded z (do {
      cur1 \<leftarrow> json_space d len (col + 1 + nat n);
      c2 \<leftarrow> rd d cur1;
      if c2 = 125 then Some (int cur1 + 1)
      else if len \<le> cur1 then Some 0
      else if c2 \<noteq> 44 then Some (-1)
      else if cur1 + 1 < len then json_object_loop d len cur1 n
      else do { c3 \<leftarrow> rd d (cur1 + 1); Some (if c3 = 125 then int cur1 + 2 else -1) } })"
    unfolding cur1(1) Option.bind.simps
    by (rule json_bounded_end [OF cur1(3) z]) (use loop cur1 col n len in auto)
qed

lemma json_object_loop_bounded:
  assumes len: "len \<le> z" and z: "z < length d" "d ! z = 0"
    and val: "\<And>c. 0 < c \<Longrightarrow> c \<le> z \<Longrightarrow> c < len \<Longrightarrow> json_bounded (z - c) (json_length (drop c d) (len - c))"
  shows "Suc k \<le> z \<Longrightarrow> json_bounded z (json_object_loop d len k nl)"
proof (induction "len - k" arbitrary: k nl rule: less_induct)
  case less
  obtain cur where cur: "json_space d len (Suc k) = Some cur" "Suc k \<le> cur" "cur \<le> z"
    using less.prems by (rule span_below_obtain [OF _ len z(1)])
  have rdc: "(if nl = 0 then rd d cur else Some 0) = Some (if nl = 0 then d ! cur else 0)"
    using cur(3) z by simp
  define value_part where "value_part = (\<lambda>col. do {
      nl1 \<leftarrow> json_length (drop (col + 1) d) (len - (col + 1));
      if nl1 \<le> 0 then Some nl1
      else do {
        cur1 \<leftarrow> json_space d len (col + 1 + nat nl1);
        c2 \<leftarrow> rd d cur1;
        if c2 = 125 then Some (int cur1 + 1)
        else if len \<le> cur1 then Some 0
        else if c2 \<noteq> 44 then Some (-1)
        else if cur1 + 1 < len then json_object_loop d len cur1 nl1
        else do { c3 \<leftarrow> rd d (cur1 + 1); Some (if c3 = 125 then int cur1 + 2 else -1) } } })"
  have value_ok: "json_bounded z (value_part col)" if "k < col" "col < z" "\<not> len - 1 \<le> col" for col
    unfolding value_part_def by (rule json_member_bounded [OF len z val]) (use that less.hyps len in auto)
  have "json_bounded z (do {
      kl \<leftarrow> json_length_string (drop cur d) (len - cur);
      if kl \<le> 0 then Some kl
      else do {
        col \<leftarrow> json_space d len (cur + nat kl);
        if len - 1 \<le> col then Some 0
        else do { c1 \<leftarrow> rd d col; if c1 \<noteq> 58 then Some (-1) else value_part col } } })"
  proof (rule json_bounded_then [where c = cur])
    show "json_bounded (z - cur) (json_length_string (drop cur d) (len - cur))"
      by (rule json_string_bounded) (use cur len z in auto)
  next
    fix n :: int
    assume n: "0 < n" "n \<le> int (z - cur)"
    obtain col where col: "json_space d len (cur + nat n) = Some col" "cur + nat n \<le> col" "col \<le> z"
      by (rule span_below_obtain [of "cur + nat n" z len d isspace]) (use n cur len z in auto)
    have "col < z" if "d ! col = 58" using that col(3) z by (cases "col = z") auto
    then show "json_bounded z (do {
        col \<leftarrow> json_space d len (cur + nat n);
        if len - 1 \<le> col then Some 0
        else do { c1 \<leftarrow> rd d col; if c1 \<noteq> 58 then Some (-1) else value_part col } })"
      using value_ok [of col] col cur(2) z n by (auto simp: col(1))
  qed
  moreover have "cur < z" if "d ! cur = 125" using that cur(3) z by (cases "cur = z") auto
  ultimately show ?case
    unfolding value_part_def
    by (subst json_object_loop.simps) (auto simp: cur(1) rdc simp del: json_bounded_simps(2))
qed

lemma json_compound_bounded:
  assumes "len \<le> z" "z < length d" "d ! z = 0"
    and "\<And>c. 0 < c \<Longrightarrow> c \<le> z \<Longrightarrow> c < len \<Longrightarrow> json_bounded (z - c) (json_length (drop c d) (len - c))"
  shows "json_bounded z (json_length_array d len)" "json_bounded z (json_length_object d len)"
proof -
  have r: "rd d 0 = Some (d ! 0)" using assms(2) by (cases d) auto
  have "Suc 0 \<le> z" if "d ! 0 \<noteq> 0" using assms(3) that by (cases z) auto
  then show "json_bounded z (json_length_array d len)" "json_bounded z (json_length_object d len)"
    using json_array_loop_bounded [OF assms, of 0] json_object_loop_bounded [OF assms, of 0]
    by (auto simp: json_length_array.simps json_length_object.simps r)
qed

lemma json_length_bounded:
  "len \<le> z \<Longrightarrow> z < length d \<Longrightarrow> d ! z = 0 \<Longrightarrow> json_bounded z (json_length d len)"
proof (induction len arbitrary: d z rule: less_induct)
  case (less len)
  show ?case
  proof (cases "len = 0")
    case False
    obtain cur where cur: "json_space d len 0 = Some cur" "cur \<le> z"
      by (rule span_below_obtain [OF _ less.prems(1,2)]) auto
    let ?d = "drop cur d" and ?len = "len - cur"
    have sub: "?len \<le> z - cur" "z - cur < length ?d" "?d ! (z - cur) = 0" using less.prems cur(2) by auto
    have rdc: "rd d cur = Some (d ! cur)" using cur(2) less.prems by simp
    have val: "json_bounded (z - cur - c) (json_length (drop c ?d) (?len - c))"
      if "0 < c" "c \<le> z - cur" "c < ?len" for c
      by (rule less.IH) (use that less.prems cur(2) in auto)
    define m where "m = (if d ! cur = 91 then json_length_array ?d ?len
         else if d ! cur = 123 then json_length_object ?d ?len
         else if d ! cur = 34 then json_length_string ?d ?len
         else json_length_value ?d ?len)"
    have "json_bounded (z - cur) m"
      using sub by (simp add: m_def json_string_bounded json_value_bounded json_compound_bounded [OF sub val])
    then have "json_bounded z (do { rv \<leftarrow> m; if rv \<le> 0 then Some rv else Some (int cur + rv) })"
      by (rule json_bounded_then) (use cur(2) in auto)
    then show ?thesis
      using False unfolding m_def by (subst json_length.simps) (simp add: cur(1) rdc del: json_bounded_simps)
  qed (simp add: json_length.simps)
qed

end
