(* ===== verification/Json_Spec.thy ===== *)
theory Json_Spec
  imports Framing_Json
begin

text \<open>
  The texts the \<open>json\<close> framing function recognises, as a grammar, and the proof that the scanner
  finds the end of each of them. The grammar covers RFC 8259 except for strings that end in an
  escaped backslash or hold bytes outside printable ASCII, and for numbers followed by white space
  other than a blank.
\<close>

section \<open>The grammar\<close>

definition json_number :: "cstring \<Rightarrow> bool" where
  "json_number s \<longleftrightarrow>
     (case s of [] \<Rightarrow> False | c # cs \<Rightarrow> (c = 45 \<or> isdigit c) \<and> list_all json_number_char cs)"

text \<open>The characters of a string after \<open>prev\<close>: quotes only behind a backslash, none at the end.\<close>

fun json_chars :: "u8 \<Rightarrow> cstring \<Rightarrow> bool" where
  "json_chars prev [] \<longleftrightarrow> prev \<noteq> 92"
| "json_chars prev (c # cs) \<longleftrightarrow> isprint c \<and> (c = 34 \<longrightarrow> prev = 92) \<and> json_chars c cs"

definition json_string :: "cstring \<Rightarrow> bool" where
  "json_string s \<longleftrightarrow> (\<exists>b. s = 34 # b @ [34] \<and> json_chars 34 b)"

text \<open>White space that may follow the value \<open>v\<close> inside an array or object.\<close>

definition json_follow :: "cstring \<Rightarrow> cstring \<Rightarrow> bool" where
  "json_follow v w \<longleftrightarrow> list_all isspace w \<and> (json_number v \<longrightarrow> w = [] \<or> hd w = 32)"

inductive json_text :: "cstring \<Rightarrow> bool" and json_items :: "cstring \<Rightarrow> bool" and json_members :: "cstring \<Rightarrow> bool"
where
  null: "json_text (bytes ''null'')"
| true: "json_text (bytes ''true'')"
| false: "json_text (bytes ''false'')"
| num: "json_number s \<Longrightarrow> json_text s"
| str: "json_string s \<Longrightarrow> json_text s"
| arr0: "list_all isspace w \<Longrightarrow> json_text (91 # w @ [93])"
| arr: "json_items s \<Longrightarrow> json_text (91 # s @ [93])"
| obj0: "list_all isspace w \<Longrightarrow> json_text (123 # w @ [125])"
| obj: "json_members s \<Longrightarrow> json_text (123 # s @ [125])"
| item: "list_all isspace w1 \<Longrightarrow> json_text v \<Longrightarrow> json_follow v w2 \<Longrightarrow> json_items (w1 @ v @ w2)"
| items: "list_all isspace w1 \<Longrightarrow> json_text v \<Longrightarrow> json_follow v w2 \<Longrightarrow> json_items s \<Longrightarrow>
    json_items (w1 @ v @ w2 @ 44 # s)"
| member: "list_all isspace w1 \<Longrightarrow> json_string m \<Longrightarrow> list_all isspace w2 \<Longrightarrow> list_all isspace w3 \<Longrightarrow>
    json_text v \<Longrightarrow> json_follow v w4 \<Longrightarrow> json_members (w1 @ m @ w2 @ 58 # w3 @ v @ w4)"
| members: "list_all isspace w1 \<Longrightarrow> json_string m \<Longrightarrow> list_all isspace w2 \<Longrightarrow> list_all isspace w3 \<Longrightarrow>
    json_text v \<Longrightarrow> json_follow v w4 \<Longrightarrow> json_members s \<Longrightarrow>
    json_members (w1 @ m @ w2 @ 58 # w3 @ v @ w4 @ 44 # s)"

text \<open>The first character decides which part of the scanner is used.\<close>

lemma json_text_first:
  assumes "json_text s"
  obtains c cs where "s = c # cs" "\<not> isspace c" "c \<noteq> 93" "c \<noteq> 125"
proof -
  have "isdigit c \<Longrightarrow> \<not> isspace c \<and> c \<noteq> 93 \<and> c \<noteq> 125" for c :: u8
    by (auto simp: isdigit_def isspace_def word_le_nat_alt)
  with assms that show thesis
    by cases (auto simp: json_number_def json_string_def bytes_def isspace_def split: list.splits)
qed

section \<open>Strings, numbers and literals\<close>

lemma json_string_scan_chars:
  assumes "json_chars prev b" "pre \<noteq> []" "last pre = prev" "length pre + length b < len"
  shows "json_string_scan (pre @ b @ 34 # rest) len (length pre) = Some (length pre + length b)"
  using assms
proof (induction b arbitrary: prev pre)
  case Nil
  then show ?case by (subst json_string_scan.simps) (simp add: nth_append last_conv_nth)
next
  case (Cons c b)
  from Cons.IH [of c "pre @ [c]"] Cons.prems show ?case
    by (subst json_string_scan.simps) (auto simp: nth_append last_conv_nth)
qed

lemma json_chars_last: "json_chars prev b \<Longrightarrow> last (prev # b) \<noteq> 92"
  by (induction prev b rule: json_chars.induct) auto

lemma json_length_string_spec:
  assumes "json_string s" "length s \<le> len"
  shows "json_length_string (s @ rest) len = Some (int (length s))"
proof -
  obtain b where s: "s = 34 # b @ [34]" "json_chars 34 b" using assms(1) by (auto simp: json_string_def)
  have scan: "json_string_scan (34 # b @ 34 # rest) len 1 = Some (Suc (length b))"
    using json_string_scan_chars [OF s(2), of "[34]" len rest] s(1) assms(2) by simp
  have "(34 # b) ! length b = last (34 # b)" by (simp add: last_conv_nth)
  then have "(34 # b @ 34 # rest) ! length b \<noteq> 92"
    using json_chars_last [OF s(2)] by (metis append_Cons length_Cons lessI nth_append)
  then show ?thesis
    using scan s(1) assms(2) by (simp add: json_length_string_def nth_append)
qed

text \<open>A number in an array, object or at the end of the data.\<close>

definition json_terminator :: "u8 \<Rightarrow> bool" where
  "json_terminator c \<longleftrightarrow> c = 44 \<or> c = 32 \<or> c = 125 \<or> c = 93"

lemma json_length_value_number:
  assumes "json_number s" "length s \<le> len" "json_terminator c"
  shows "json_length_value (s @ c # rest) len = Some (int (length s))"
proof -
  obtain c0 cs where s: "s = c0 # cs" "c0 = 45 \<or> isdigit c0" "list_all json_number_char cs"
    using assms(1) by (auto simp: json_number_def split: list.splits)
  have nt: "\<not> json_number_char c"
    using assms(3) by (auto simp: json_terminator_def json_number_char_def isdigit_def tolower_def)
  have "span_below json_number_char ([c0] @ cs @ c # rest) len (length [c0]) = Some (length [c0] + length cs)"
    by (rule span_below_run) (use s assms(2) nt in auto)
  then have "span_below json_number_char (s @ c # rest) len 1 = Some (length s)" using s(1) by simp
  then show ?thesis using s assms by (auto simp: json_length_value_def json_number_value_def json_terminator_def nth_append)
qed

lemma json_length_value_literals:
  "4 \<le> len \<Longrightarrow> json_length_value (bytes ''null'' @ rest) len = Some 4"
  "4 \<le> len \<Longrightarrow> json_length_value (bytes ''true'' @ rest) len = Some 4"
  "5 \<le> len \<Longrightarrow> json_length_value (bytes ''false'' @ rest) len = Some 5"
  by (simp_all add: json_length_value_def strncmp_lit_def bytes_def isdigit_def)

section \<open>The scanner on the grammar\<close>

lemma json_space_to:
  assumes "list_all isspace w" "length pre + length w < len" "x = c # xs" "\<not> isspace c"
  shows "json_space (pre @ w @ x) len (length pre) = Some (length pre + length w)"
  using span_below_run [OF assms(1), of pre len x] assms by simp

text \<open>A scanned value ends where its text does.\<close>

definition json_scanned :: "cstring \<Rightarrow> bool" where
  "json_scanned s \<longleftrightarrow>
     (\<forall>w len rest. list_all isspace w \<longrightarrow> length w + length s \<le> len \<longrightarrow>
        (json_number s \<longrightarrow> rest \<noteq> [] \<and> json_terminator (hd rest)) \<longrightarrow>
        json_length (w @ s @ rest) len = Some (int (length w + length s)))"

lemma json_lengthI:
  assumes "list_all isspace w" "s = c # cs" "\<not> isspace c" "length w + length s \<le> len"
    and "(if c = 91 then json_length_array (s @ rest) (len - length w)
          else if c = 123 then json_length_object (s @ rest) (len - length w)
          else if c = 34 then json_length_string (s @ rest) (len - length w)
          else json_length_value (s @ rest) (len - length w)) = Some (int (length s))"
  shows "json_length (w @ s @ rest) len = Some (int (length w + length s))"
proof -
  have sp: "json_space (w @ s @ rest) len 0 = Some (length w)"
    using json_space_to [of w "[]" len "s @ rest" c "cs @ rest"] assms by simp
  have r: "rd (w @ s @ rest) (length w) = Some c" using assms(2) by (simp add: nth_append)
  have d: "drop (length w) (w @ s @ rest) = s @ rest" by simp
  have pos: "(len = 0) = False" "(int (length s) \<le> 0) = False" using assms(2,4) by auto
  show ?thesis
    by (simp only: json_length.simps [of "w @ s @ rest" len] pos if_False sp r d assms(5) Option.bind.simps
        of_nat_add)
qed

lemma json_text_cases:
  assumes "json_text s" "list_all isspace w" "length w + length s \<le> len"
    and "json_number s \<longrightarrow> rest \<noteq> [] \<and> json_terminator (hd rest)"
    and "hd s = 91 \<Longrightarrow> json_length_array (s @ rest) (len - length w) = Some (int (length s))"
    and "hd s = 123 \<Longrightarrow> json_length_object (s @ rest) (len - length w) = Some (int (length s))"
  shows "json_length (w @ s @ rest) len = Some (int (length w + length s))"
proof -
  obtain c cs where s: "s = c # cs" "\<not> isspace c" using json_text_first [OF assms(1)] by metis
  have len: "length s \<le> len - length w" using assms(3) by simp
  have "(if c = 91 then json_length_array (s @ rest) (len - length w)
          else if c = 123 then json_length_object (s @ rest) (len - length w)
          else if c = 34 then json_length_string (s @ rest) (len - length w)
          else json_length_value (s @ rest) (len - length w)) = Some (int (length s))"
    using assms(1)
  proof cases
    case num
    obtain t ts where rest: "rest = t # ts" "json_terminator t" using num assms(4) by (cases rest) auto
    have "c \<noteq> 91 \<and> c \<noteq> 123 \<and> c \<noteq> 34" using num s(1) by (auto simp: json_number_def isdigit_def word_le_nat_alt)
    with json_length_value_number [OF num len rest(2)] rest(1) show ?thesis by simp
  next
    case str
    then show ?thesis using json_length_string_spec [OF str len] s by (auto simp: json_string_def)
  qed (use s(1) assms(5,6) len json_length_value_literals in \<open>auto simp: bytes_def\<close>)
  with assms(2,3) s show ?thesis by (intro json_lengthI)
qed

text \<open>Behind a value, up to the comma or bracket.\<close>

lemma json_follow_terminator:
  assumes "json_follow v w" "json_number v" "t = 44 \<or> t = 93 \<or> t = 125"
  shows "json_terminator (hd (w @ t # ts))"
  using assms by (cases w) (auto simp: json_follow_def json_terminator_def)

lemma json_value_inside:
  assumes "json_text v" "json_scanned v" "json_follow v w" "t = 44 \<or> t = 93 \<or> t = 125"
    and "length pre + length u + length v + length w < len" "list_all isspace u"
  shows "json_length (u @ v @ w @ t # ts) (len - length pre) = Some (int (length u + length v))"
  using assms(2) json_follow_terminator [OF assms(3) _ assms(4)] assms(5,6)
  by (auto simp: json_scanned_def)

lemma json_array_step:
  assumes v: "json_text v" "json_scanned v" "json_follow v w2" and w1: "list_all isspace w1"
    and t: "t = 44 \<or> t = 93" and pre: "pre \<noteq> []"
    and len: "length pre + length w1 + length v + length w2 < len"
  shows "json_array_loop (pre @ w1 @ v @ w2 @ t # ts) len (length pre - 1) nl =
    (let cur1 = length pre + length w1 + length v + length w2 in
     if t = 93 then Some (int cur1 + 1)
     else if cur1 + 1 < len
     then json_array_loop (pre @ w1 @ v @ w2 @ t # ts) len cur1 (int (length v))
     else do { c2 \<leftarrow> rd (pre @ w1 @ v @ w2 @ t # ts) (cur1 + 1);
               Some (if c2 = 93 then int cur1 + 2 else -1) })"
    (is "json_array_loop ?d _ _ _ = _")
proof -
  obtain c cs where c: "v = c # cs" "\<not> isspace c" "c \<noteq> 93" using json_text_first [OF v(1)] by metis
  let ?cur = "length pre + length w1" and ?cur1 = "length pre + length w1 + length v + length w2"
  have k: "Suc (length pre - 1) = length pre" using pre by simp
  have sp: "json_space ?d len (length pre) = Some ?cur"
    using json_space_to [OF w1, of pre len "v @ w2 @ t # ts"] c len by simp
  have r: "rd ?d ?cur = Some c" using c(1) by (simp add: nth_append)
  have drp: "drop ?cur ?d = v @ w2 @ t # ts" by simp
  have val: "json_length (v @ w2 @ t # ts) (len - ?cur) = Some (int (length v))"
    using json_value_inside [OF v, where t = t and pre = "pre @ w1" and len = len and u = "[]" and ts = ts] t len by auto
  have nt: "\<not> isspace t" using t by (auto simp: isspace_def)
  have sp1: "json_space ?d len (?cur + length v) = Some ?cur1"
    using json_space_to [of w2 "pre @ w1 @ v" len "t # ts"] v(3) nt len by (simp add: json_follow_def add.assoc)
  have r1: "rd ?d ?cur1 = Some t" by (simp add: nth_append)
  have pos: "(int (length v) \<le> 0) = False" "(len - ?cur = 0) = False" "(len \<le> ?cur1) = False"
    using c(1) len by auto
  have first: "(if nl = 0 then Some c else Some 0) = Some (if nl = 0 then c else 0)"
    "(nl = 0 \<and> (if nl = 0 then c else 0) = 93) = False" using c(3) by auto
  show ?thesis
    using t by (simp only: json_array_loop.simps [of ?d len "length pre - 1" nl] k sp r drp val r1 pos first
        sp1 nat_int if_False Option.bind.simps Let_def) auto
qed

lemma json_object_step:
  assumes m: "json_string m" "list_all isspace w2" and v: "json_text v" "json_scanned v" "json_follow v w4"
    and w: "list_all isspace w1" "list_all isspace w3"
    and t: "t = 44 \<or> t = 125" and pre: "pre \<noteq> []"
    and len: "length pre + length w1 + length m + length w2 + 1 + length w3 + length v + length w4 < len"
  shows "json_object_loop (pre @ w1 @ m @ w2 @ 58 # w3 @ v @ w4 @ t # ts) len (length pre - 1) nl =
    (let cur1 = length pre + length w1 + length m + length w2 + 1 + length w3 + length v + length w4 in
     if t = 125 then Some (int cur1 + 1)
     else if cur1 + 1 < len
     then json_object_loop (pre @ w1 @ m @ w2 @ 58 # w3 @ v @ w4 @ t # ts) len cur1 (int (length w3 + length v))
     else do { c2 \<leftarrow> rd (pre @ w1 @ m @ w2 @ 58 # w3 @ v @ w4 @ t # ts) (cur1 + 1);
               Some (if c2 = 125 then int cur1 + 2 else -1) })"
    (is "json_object_loop ?d _ _ _ = _")
proof -
  obtain b where m34: "m = 34 # b" using m(1) by (auto simp: json_string_def)
  let ?cur = "length pre + length w1" and ?col = "length pre + length w1 + length m + length w2"
    and ?cur1 = "length pre + length w1 + length m + length w2 + 1 + length w3 + length v + length w4"
  have k: "Suc (length pre - 1) = length pre" using pre by simp
  have sp: "json_space ?d len (length pre) = Some ?cur"
    using json_space_to [OF w(1), of pre len "m @ w2 @ 58 # w3 @ v @ w4 @ t # ts" 34] m34 len
    by (simp add: isspace_def)
  have r: "rd ?d ?cur = Some 34" using m34 by (simp add: nth_append)
  have drp: "drop ?cur ?d = m @ w2 @ 58 # w3 @ v @ w4 @ t # ts" by simp
  have key: "json_length_string (m @ w2 @ 58 # w3 @ v @ w4 @ t # ts) (len - ?cur) = Some (int (length m))"
    by (rule json_length_string_spec [OF m(1)]) (use len in auto)
  have sp0: "json_space ?d len (?cur + length m) = Some ?col"
    using json_space_to [OF m(2), of "pre @ w1 @ m" len "58 # w3 @ v @ w4 @ t # ts"] len by (simp add: isspace_def add.assoc)
  have r0: "rd ?d ?col = Some 58" by (simp add: nth_append)
  have drp0: "drop (?col + 1) ?d = w3 @ v @ w4 @ t # ts" by simp
  have val: "json_length (w3 @ v @ w4 @ t # ts) (len - (?col + 1)) = Some (int (length w3 + length v))"
    using json_value_inside [OF v, where t = t and pre = "pre @ w1 @ m @ w2 @ [58]" and len = len and u = w3 and ts = ts] t w(2) len by (auto simp: add.assoc)
  have nt: "\<not> isspace t" using t by (auto simp: isspace_def)
  have sp1: "json_space ?d len (?col + 1 + (length w3 + length v)) = Some ?cur1"
    using json_space_to [of w4 "pre @ w1 @ m @ w2 @ 58 # w3 @ v" len "t # ts"] v(3) nt len
    by (simp add: json_follow_def algebra_simps)
  have r1: "rd ?d ?cur1 = Some t"
    using nth_append_length [of "pre @ w1 @ m @ w2 @ 58 # w3 @ v @ w4" t ts] by (simp add: algebra_simps)
  obtain c cs where c: "v = c # cs" using json_text_first [OF v(1)] by metis
  have pos: "(int (length w3 + length v) \<le> 0) = False" "(int (length m) \<le> 0) = False"
    "(len - 1 \<le> ?col) = False" "(len \<le> ?cur1) = False" "((58 :: u8) \<noteq> 58) = False"
    using c m34 len by auto
  have first: "(if nl = 0 then Some 34 else Some 0) = Some (if nl = 0 then 34 else 0 :: u8)"
    "(nl = 0 \<and> (if nl = 0 then 34 else 0 :: u8) = 125) = False" by auto
  show ?thesis
    using t by (simp only: json_object_loop.simps [of ?d len "length pre - 1" nl] k sp r drp key sp0 r0 drp0 val r1
        pos first sp1 nat_int if_False Option.bind.simps Let_def) auto
qed

definition json_array_scanned :: "cstring \<Rightarrow> bool" where
  "json_array_scanned s \<longleftrightarrow>
     (\<forall>pre len rest nl. pre \<noteq> [] \<longrightarrow> length pre + length s < len \<longrightarrow>
        json_array_loop (pre @ s @ 93 # rest) len (length pre - 1) nl = Some (int (length pre + length s + 1)))"

definition json_object_scanned :: "cstring \<Rightarrow> bool" where
  "json_object_scanned s \<longleftrightarrow>
     (\<forall>pre len rest nl. pre \<noteq> [] \<longrightarrow> length pre + length s < len \<longrightarrow>
        json_object_loop (pre @ s @ 125 # rest) len (length pre - 1) nl = Some (int (length pre + length s + 1)))"

lemma json_array_scannedD:
  "json_array_scanned s \<Longrightarrow> pre \<noteq> [] \<Longrightarrow> length pre + length s < len \<Longrightarrow>
     json_array_loop (pre @ s @ 93 # rest) len (length pre - 1) nl = Some (int (length pre + length s + 1))"
  by (auto simp only: json_array_scanned_def)

lemma json_object_scannedD:
  "json_object_scanned s \<Longrightarrow> pre \<noteq> [] \<Longrightarrow> length pre + length s < len \<Longrightarrow>
     json_object_loop (pre @ s @ 125 # rest) len (length pre - 1) nl = Some (int (length pre + length s + 1))"
  by (auto simp only: json_object_scanned_def)

lemma json_empty_loops:
  assumes "list_all isspace w" "length w + 1 < len"
  shows "json_array_loop (91 # w @ 93 # rest) len 0 0 = Some (int (length w + 2))"
    and "json_object_loop (123 # w @ 125 # rest) len 0 0 = Some (int (length w + 2))"
proof -
  have "json_space (c # w @ t # rest) len (Suc 0) = Some (Suc (length w))" if "\<not> isspace t" for c t
    using json_space_to [OF assms(1), of "[c]" len "t # rest"] assms(2) that by simp
  then show "json_array_loop (91 # w @ 93 # rest) len 0 0 = Some (int (length w + 2))"
    and "json_object_loop (123 # w @ 125 # rest) len 0 0 = Some (int (length w + 2))"
    by (subst json_array_loop.simps json_object_loop.simps, simp add: isspace_def nth_append)+
qed

lemma json_brackets:
  assumes "length s + 2 \<le> len"
  shows "json_array_loop ([91] @ s @ 93 # rest) len 0 0 = Some (int (length s + 2)) \<Longrightarrow>
      json_length_array ((91 # s @ [93]) @ rest) len = Some (int (length (91 # s @ [93])))"
    and "json_object_loop ([123] @ s @ 125 # rest) len 0 0 = Some (int (length s + 2)) \<Longrightarrow>
      json_length_object ((123 # s @ [125]) @ rest) len = Some (int (length (123 # s @ [125])))"
  using assms by (subst json_length_array.simps json_length_object.simps, simp)+

lemma json_items_step:
  assumes "list_all isspace w1" "json_text v" "json_scanned v" "json_follow v w2"
  shows "json_array_scanned (w1 @ v @ w2)"
    and "json_array_scanned s \<Longrightarrow> json_array_scanned (w1 @ v @ w2 @ 44 # s)"
proof -
  show "json_array_scanned (w1 @ v @ w2)"
    unfolding json_array_scanned_def
  proof (intro allI impI)
    fix pre rest :: cstring and len nl
    assume pre: "pre \<noteq> []" "length pre + length (w1 @ v @ w2) < len"
    show "json_array_loop (pre @ (w1 @ v @ w2) @ 93 # rest) len (length pre - 1) nl =
        Some (int (length pre + length (w1 @ v @ w2) + 1))"
      using json_array_step [OF assms(2-4,1) _ pre(1), of 93 len rest nl] pre(2) by (simp add: Let_def)
  qed
  assume rec: "json_array_scanned s"
  show "json_array_scanned (w1 @ v @ w2 @ 44 # s)"
    unfolding json_array_scanned_def
  proof (intro allI impI)
    fix pre rest :: cstring and len nl
    assume pre: "pre \<noteq> []" "length pre + length (w1 @ v @ w2 @ 44 # s) < len"
    let ?pre = "pre @ w1 @ v @ w2 @ [44]"
    have "json_array_loop (?pre @ s @ 93 # rest) len (length ?pre - 1) (int (length v)) =
        Some (int (length ?pre + length s + 1))"
      by (rule json_array_scannedD [OF rec]) (use pre in auto)
    then show "json_array_loop (pre @ (w1 @ v @ w2 @ 44 # s) @ 93 # rest) len (length pre - 1) nl =
        Some (int (length pre + length (w1 @ v @ w2 @ 44 # s) + 1))"
      using json_array_step [OF assms(2-4,1) _ pre(1), of 44 len "s @ 93 # rest" nl] pre(2)
      by (simp add: Let_def add.assoc)
  qed
qed

lemma json_members_step:
  assumes "list_all isspace w1" "json_string m" "list_all isspace w2" "list_all isspace w3"
    and "json_text v" "json_scanned v" "json_follow v w4"
  shows "json_object_scanned (w1 @ m @ w2 @ 58 # w3 @ v @ w4)"
    and "json_object_scanned s \<Longrightarrow> json_object_scanned (w1 @ m @ w2 @ 58 # w3 @ v @ w4 @ 44 # s)"
proof -
  note step = json_object_step [OF assms(2,3,5,6,7,1,4)]
  show "json_object_scanned (w1 @ m @ w2 @ 58 # w3 @ v @ w4)"
    unfolding json_object_scanned_def
  proof (intro allI impI)
    fix pre rest :: cstring and len nl
    assume pre: "pre \<noteq> []" "length pre + length (w1 @ m @ w2 @ 58 # w3 @ v @ w4) < len"
    show "json_object_loop (pre @ (w1 @ m @ w2 @ 58 # w3 @ v @ w4) @ 125 # rest) len (length pre - 1) nl =
        Some (int (length pre + length (w1 @ m @ w2 @ 58 # w3 @ v @ w4) + 1))"
      using step [OF _ pre(1), of 125 len rest nl] pre(2) by (simp add: Let_def)
  qed
  assume rec: "json_object_scanned s"
  show "json_object_scanned (w1 @ m @ w2 @ 58 # w3 @ v @ w4 @ 44 # s)"
    unfolding json_object_scanned_def
  proof (intro allI impI)
    fix pre rest :: cstring and len nl
    assume pre: "pre \<noteq> []" "length pre + length (w1 @ m @ w2 @ 58 # w3 @ v @ w4 @ 44 # s) < len"
    let ?pre = "pre @ w1 @ m @ w2 @ 58 # w3 @ v @ w4 @ [44]"
    have "json_object_loop (?pre @ s @ 125 # rest) len (length ?pre - 1) (int (length w3 + length v)) =
        Some (int (length ?pre + length s + 1))"
      by (rule json_object_scannedD [OF rec]) (use pre in auto)
    then show "json_object_loop (pre @ (w1 @ m @ w2 @ 58 # w3 @ v @ w4 @ 44 # s) @ 125 # rest) len (length pre - 1) nl =
        Some (int (length pre + length (w1 @ m @ w2 @ 58 # w3 @ v @ w4 @ 44 # s) + 1))"
      using step [OF _ pre(1), of 44 len "s @ 125 # rest" nl] pre(2)
      by (simp add: Let_def add.assoc)
  qed
qed

lemma json_scannedI:
  assumes "json_text s"
    and "\<And>len rest. length s \<le> len \<Longrightarrow> hd s = 91 \<Longrightarrow> json_length_array (s @ rest) len = Some (int (length s))"
    and "\<And>len rest. length s \<le> len \<Longrightarrow> hd s = 123 \<Longrightarrow> json_length_object (s @ rest) len = Some (int (length s))"
  shows "json_scanned s"
  unfolding json_scanned_def
  by (intro allI impI json_text_cases [OF assms(1)] assms(2,3)) auto

lemma json_text_scanned:
  "json_text s \<Longrightarrow> json_scanned s"
  "json_items s \<Longrightarrow> json_array_scanned s"
  "json_members s \<Longrightarrow> json_object_scanned s"
proof (induction rule: json_text_json_items_json_members.inducts)
  case null
  show ?case by (intro json_scannedI json_text_json_items_json_members.null) (auto simp: bytes_def)
next
  case true
  show ?case by (intro json_scannedI json_text_json_items_json_members.true) (auto simp: bytes_def)
next
  case false
  show ?case by (intro json_scannedI json_text_json_items_json_members.false) (auto simp: bytes_def)
next
  case (num s)
  then show ?case
    by (intro json_scannedI json_text_json_items_json_members.num)
      (auto simp: json_number_def isdigit_def word_le_nat_alt split: list.splits)
next
  case (str s)
  then show ?case
    by (intro json_scannedI json_text_json_items_json_members.str) (auto simp: json_string_def)
next
  case (arr0 w)
  show ?case
    by (rule json_scannedI [OF json_text_json_items_json_members.arr0 [OF arr0]])
      (rule json_brackets, use json_empty_loops(1) [OF arr0] in auto)
next
  case (arr s)
  have "json_array_loop ([91] @ s @ 93 # rest) len 0 0 = Some (int (length s + 2))" if "length s + 2 \<le> len" for len rest
    using json_array_scannedD [OF arr(2), of "[91]" len rest 0] that by simp
  then show ?case
    by (intro json_scannedI json_text_json_items_json_members.arr arr(1) json_brackets) auto
next
  case (obj0 w)
  show ?case
    by (rule json_scannedI [OF json_text_json_items_json_members.obj0 [OF obj0]], simp)
      (rule json_brackets, use json_empty_loops(2) [OF obj0] in auto)
next
  case (obj s)
  have "json_object_loop ([123] @ s @ 125 # rest) len 0 0 = Some (int (length s + 2))" if "length s + 2 \<le> len" for len rest
    using json_object_scannedD [OF obj(2), of "[123]" len rest 0] that by simp
  then show ?case
    by (intro json_scannedI json_text_json_items_json_members.obj obj(1) json_brackets) auto
qed (auto intro: json_items_step json_members_step)

end
