(* ===== verification/Props_Plugins.thy ===== *)
theory Props_Plugins
  imports Examples Framing_Plugins Json_Spec
begin

text \<open>Properties of the framing plugins, alone and in the handler of peer data.\<close>

section \<open>Segments\<close>

text \<open>A connection whose peer is framed by a given function.\<close>

definition framed_client :: "ws_framing \<Rightarrow> cstring \<Rightarrow> framing_data \<Rightarrow> websocket" where
  "framed_client f c fd = open_client\<lparr>peer := (peer open_client)\<lparr>framing := Some f, framing_config := Some c\<rparr>,
     peer_framing_data := fd\<rparr>"

lemma framed_client_simps [simp]:
  "framing (peer (framed_client f c fd)) = Some f" "framing_config (peer (framed_client f c fd)) = Some c"
  "peer_framing_data (framed_client f c fd) = fd" "peer_buffer_offset (framed_client f c fd) = 0"
  "length (peer_buffer (framed_client f c fd)) = PEER_BUFFER_SIZE" "ws_fd (framed_client f c fd) = 5"
  "peer_fd (framed_client f c fd) = 7"
  by (simp_all add: framed_client_def open_client_def new_client_def accepted_websocket_def)

lemma framed_client_delivery:
  "length ds < PEER_BUFFER_SIZE \<Longrightarrow> peer_delivery (demo_env ds) (framed_client f c fd) tr = Some ds"
  by (simp add: peer_delivery_def demo_env_def)

text \<open>
  C27. With the \<open>fixedlength\<close> framing and a non-zero length configured, what is received from the peer is
  cut into frames of exactly that length, in order and without loss, and what is left stays buffered:
  less than one frame, namely the remainder of the bytes at hand. One case is different: when bytes were
  buffered before and their number is a multiple of the frame length, only these are cut, and all that
  was just received stays buffered, with complete frames in it. The handler fails only when a \<open>send\<close> to the
  client fails.
\<close>

theorem ws_peer_data_fixed:
  assumes "posix_send E" "framing (peer ws) = Some framing_fixedlen" "framing_config (peer ws) = Some c"
    and "strtoul 0 c = n" "n \<noteq> 0" "peer_framing_data ws = FNull \<or> peer_framing_data ws = FFixed n"
    and "peer_buffer_offset ws < length (peer_buffer ws)" "peer_delivery E ws tr = Some ds" "ds \<noteq> []"
  shows "\<exists>r ws' ext fs. ws_peer_data E ws tr = Some (r, ws', tr @ ext) \<and>
    (\<forall>(op, p)\<in>set fs. length p = unat n) \<and>
    (r = 0 \<and> sent_on (ws_fd ws) ext = wire fs \<and> stream_of fs @ buffered ws' = buffered ws @ ds \<and>
       peer_buffer_offset ws' =
         (if 0 < peer_buffer_offset ws \<and> unat n dvd peer_buffer_offset ws then length ds
          else (peer_buffer_offset ws + length ds) mod unat n) \<or>
     r = 1 \<and> prefix (wire fs) (sent_on (ws_fd ws) ext) \<and> send_fails E (ws_fd ws))"
proof -
  obtain r ws' ext fs where run: "ws_peer_data E ws tr = Some (r, ws', tr @ ext)"
    "\<forall>(op, p)\<in>set fs. p \<noteq> [] \<and> (strtoul 0 c \<noteq> 0 \<longrightarrow> length p = unat (strtoul 0 c))"
    "r = 0 \<and> sent_on (ws_fd ws) ext = wire fs \<and> stream_of fs @ buffered ws' = buffered ws @ ds \<or>
     r = 1 \<and> prefix (wire fs) (sent_on (ws_fd ws) ext) \<and> send_fails E (ws_fd ws)"
    using fixed_framing.ws_peer_data_frames [OF assms(1-3) _ assms(7-9)] assms(4,6) by blast
  then show ?thesis
    using ws_peer_data_fixed_left [OF assms(2-9), of ws' "tr @ ext"] assms(4,5)
    by (intro exI [of _ r] exI [of _ ws'] exI [of _ ext] exI [of _ fs]) auto
qed

theorem ws_peer_data_fixed_witness:
  "\<exists>r ws' ext fs. ws_peer_data (demo_env (bytes ''hello'')) (framed_client framing_fixedlen (bytes ''2'') FNull) [] =
      Some (r, ws', [] @ ext) \<and>
    (\<forall>(op, p)\<in>set fs. length p = unat (2 :: u64)) \<and>
    (r = 0 \<and> sent_on (ws_fd (framed_client framing_fixedlen (bytes ''2'') FNull)) ext = wire fs \<and>
       stream_of fs @ buffered ws' = buffered (framed_client framing_fixedlen (bytes ''2'') FNull) @ bytes ''hello'' \<and>
       peer_buffer_offset ws' =
         (if 0 < peer_buffer_offset (framed_client framing_fixedlen (bytes ''2'') FNull) \<and>
             unat (2 :: u64) dvd peer_buffer_offset (framed_client framing_fixedlen (bytes ''2'') FNull)
          then length (bytes ''hello'')
          else (peer_buffer_offset (framed_client framing_fixedlen (bytes ''2'') FNull) + length (bytes ''hello'')) mod unat (2 :: u64)) \<or>
     r = 1 \<and> prefix (wire fs) (sent_on (ws_fd (framed_client framing_fixedlen (bytes ''2'') FNull)) ext) \<and>
       send_fails (demo_env (bytes ''hello'')) (ws_fd (framed_client framing_fixedlen (bytes ''2'') FNull)))"
proof (rule ws_peer_data_fixed [OF demo_posix_send])
  show "strtoul 0 (bytes ''2'') = 2"
    by (simp add: strtoul_def bytes_def ltrim_def isspace_def strtoul_sign_def strtoul_prefix_def digit_val_def
        isdigit_def)
qed (simp_all add: framed_client_delivery PEER_BUFFER_SIZE_def bytes_def)

text \<open>
  C28. With the \<open>dynamic32\<close> framing, a configuration the parser accepts and a length field that ends
  below 2^32, every frame is one segment: its length is, as a 32-bit sum, the offset, the field,
  the static part and the value of the field in the configured byte order. Nothing is lost.
\<close>

theorem ws_peer_data_dynamic32:
  assumes "posix_send E" "framing (peer ws) = Some framing_dynamic32" "framing_config (peer ws) = Some c"
    and "dynamic32_items c \<lparr>dyn_offset = 0, dyn_fixed = 0, dyn_endian = 0\<rparr> = Some conf"
    and "unat (dyn_offset conf) + 4 < 2 ^ 32"
    and "peer_framing_data ws = FNull \<or> peer_framing_data ws = FDynamic conf"
    and "peer_buffer_offset ws < length (peer_buffer ws)" "peer_delivery E ws tr = Some ds" "ds \<noteq> []"
  shows "\<exists>r ws' ext fs. ws_peer_data E ws tr = Some (r, ws', tr @ ext) \<and>
    (\<forall>(op, p)\<in>set fs. dynamic32_segment conf p) \<and>
    (r = 0 \<and> sent_on (ws_fd ws) ext = wire fs \<and> stream_of fs @ buffered ws' = buffered ws @ ds \<or>
     r = 1 \<and> prefix (wire fs) (sent_on (ws_fd ws) ext) \<and> send_fails E (ws_fd ws))"
proof -
  obtain r ws' ext fs where "ws_peer_data E ws tr = Some (r, ws', tr @ ext)"
    "\<forall>(op, p)\<in>set fs. p \<noteq> [] \<and> dynamic32_segment conf p"
    "r = 0 \<and> sent_on (ws_fd ws) ext = wire fs \<and> stream_of fs @ buffered ws' = buffered ws @ ds \<or>
     r = 1 \<and> prefix (wire fs) (sent_on (ws_fd ws) ext) \<and> send_fails E (ws_fd ws)"
    using framing_shape_law.ws_peer_data_frames [OF dynamic32_shape_law [OF assms(4,5)] assms(1-3,6-9)] by blast
  then show ?thesis by (intro exI [of _ r] exI [of _ ws'] exI [of _ ext] exI [of _ fs]) auto
qed

theorem ws_peer_data_dynamic32_witness:
  "\<exists>r ws' ext fs. ws_peer_data (demo_env [1, 0, 0, 0, 65, 2]) (framed_client framing_dynamic32 [] FNull) [] =
      Some (r, ws', [] @ ext) \<and>
    (\<forall>(op, p)\<in>set fs. dynamic32_segment \<lparr>dyn_offset = 0, dyn_fixed = 0, dyn_endian = 0\<rparr> p) \<and>
    (r = 0 \<and> sent_on (ws_fd (framed_client framing_dynamic32 [] FNull)) ext = wire fs \<and>
       stream_of fs @ buffered ws' = buffered (framed_client framing_dynamic32 [] FNull) @ [1, 0, 0, 0, 65, 2] \<or>
     r = 1 \<and> prefix (wire fs) (sent_on (ws_fd (framed_client framing_dynamic32 [] FNull)) ext) \<and>
       send_fails (demo_env [1, 0, 0, 0, 65, 2]) (ws_fd (framed_client framing_dynamic32 [] FNull)))"
proof (rule ws_peer_data_dynamic32 [OF demo_posix_send])
  show "dynamic32_items [] \<lparr>dyn_offset = 0, dyn_fixed = 0, dyn_endian = 0\<rparr> =
      Some \<lparr>dyn_offset = 0, dyn_fixed = 0, dyn_endian = 0\<rparr>"
    using dynamic32_items_single [of "[]" "\<lparr>dyn_offset = 0, dyn_fixed = 0, dyn_endian = 0\<rparr>"] by simp
qed (simp_all add: framed_client_delivery PEER_BUFFER_SIZE_def)

text \<open>
  Both plugins read their per-connection configuration after they have freed it, so closing a
  connection they have set up is undefined; and the parser of \<open>dynamic32\<close> does not return for a
  configuration that lists several options.
\<close>

lemma plugin_framing_errors:
  assumes "0 \<le> peer_fd ws"
    and "framing (peer ws) = Some framing_fixedlen \<and> peer_framing_data ws = FFixed n \<or>
      framing (peer ws) = Some framing_dynamic32 \<and> peer_framing_data ws = FDynamic conf"
    and "44 \<in> set c"
  shows "ws_close E ws code reason tr = None \<and>
    framing_dynamic32 (Some d) len last_read opcode (Some FNull) (Some c) = None"
proof
  have "ws_close_peer E ws tr' = None" for tr'
    using assms(1,2) framing_fixedlen_release framing_dynamic32_release
    by (auto simp: ws_close_peer_def Let_def split: prod.splits)
  then show "ws_close E ws code reason tr = None" by (simp add: ws_close_def Let_def)
  show "framing_dynamic32 (Some d) len last_read opcode (Some FNull) (Some c) = None"
    using assms(3) by (simp add: framing_dynamic32_def dynamic32_object_def dynamic32_items_comma)
qed

lemma plugin_framing_errors_witness:
  "ws_close (demo_env []) (framed_client framing_fixedlen (bytes ''2'') (FFixed 2)) ws_close_normal None [] = None \<and>
    framing_dynamic32 (Some [0]) 0 0 (Some ws_frame_binary) (Some FNull) (Some (bytes ''offset=2,endian=big'')) = None"
  by (rule plugin_framing_errors [where n = 2]) (simp_all add: bytes_def)

section \<open>JSON\<close>

text \<open>
  C15. The \<open>json\<close> framing function finds the end of every entity of the grammar \<open>json_text\<close>, with
  any white space in front and anything behind it, and frames it as text. (A number on its own
  has to be followed by a terminator.)
\<close>

theorem framing_json_exact:
  assumes "json_text s" "list_all isspace w" "length w + length s \<le> len"
    and "json_number s \<longrightarrow> rest \<noteq> [] \<and> json_terminator (hd rest)"
  shows "framing_json (Some (w @ s @ rest)) len last_read (Some opcode) fd cfg =
    Some (int (length w + length s), Some ws_frame_text, fd)"
proof -
  obtain c cs where "s = c # cs" using json_text_first [OF assms(1)] by metis
  with json_text_scanned(1) [OF assms(1)] assms(2-4) show ?thesis
    by (auto simp: json_scanned_def framing_json_def)
qed

definition json_example :: cstring where
  "json_example = bytes (''['' @ ''12'' @ '','' @ '' '' @ [CHR 34, CHR ''x'', CHR 34] @ '']'')"

lemma json_example_text: "json_text json_example"
proof -
  have n: "json_text [49, 50]" by (rule json_text_json_items_json_members.num) code_simp
  have s: "json_text [34, 120, 34]"
    by (rule json_text_json_items_json_members.str)
      (use exI [of "\<lambda>b. [34, 120, 34] = 34 # b @ [34 :: u8] \<and> json_chars 34 b" "[120]"]
        in \<open>simp add: json_string_def isprint_def\<close>)
  have "json_items ([32] @ [34, 120, 34] @ [])"
    by (rule json_text_json_items_json_members.item) (use s in \<open>simp_all add: json_follow_def isspace_def\<close>)
  then have "json_items ([] @ [49, 50] @ [] @ 44 # [32, 34, 120, 34])"
    by (intro json_text_json_items_json_members.items n) (simp_all add: json_follow_def)
  then have "json_text (91 # ([] @ [49, 50] @ [] @ 44 # [32, 34, 120, 34]) @ [93])"
    by (rule json_text_json_items_json_members.arr)
  then show ?thesis by (simp add: json_example_def bytes_def)
qed

theorem framing_json_exact_witness:
  "framing_json (Some ([10] @ json_example @ [91, 0])) 10 10 (Some ws_frame_binary) (Some FNull) None =
    Some (int (length [10 :: u8] + length json_example), Some ws_frame_text, Some FNull)"
  by (rule framing_json_exact [OF json_example_text])
    (simp_all add: json_example_def bytes_def isspace_def json_number_def isdigit_def)

text \<open>
  C16. On any data the \<open>json\<close> framing function returns, and reads and counts nothing beyond the first
  NUL at or after the end of the data: nothing is framed that is not there when the NUL the caller
  writes is the next byte.
\<close>

theorem framing_json_bounded:
  assumes "len \<le> z" "z < length d" "d ! z = 0"
  shows "\<exists>n op'. framing_json (Some d) len last_read (Some opcode) fd cfg = Some (n, Some op', fd) \<and>
    0 \<le> n \<and> n \<le> int z"
proof -
  obtain r where "json_length d len = Some r" "-1 \<le> r" "r \<le> int z"
    using json_length_bounded [OF assms] by (auto simp: json_bounded_def runs_def)
  with assms(1) show ?thesis by (auto simp: framing_json_def)
qed

theorem framing_json_bounded_witness:
  "\<exists>n op'. framing_json (Some [123, 91, 34, 0]) 3 3 (Some ws_frame_binary) None None = Some (n, Some op', None) \<and>
    0 \<le> n \<and> n \<le> int 3"
  by (rule framing_json_bounded) simp_all

text \<open>
  Where the scanner departs from its documentation: an array that arrived up to a comma, and one
  with a number in front of a line end, are given up as errors and sent as binary frames; after a
  string that ends in an escaped backslash the complete array is not recognised; and a stale bracket
  behind the data completes an array, so that more bytes are framed than there are.
\<close>

lemma framing_json_departures:
  "framing_json (Some (bytes ''[1,'' @ [0])) 3 3 (Some ws_frame_binary) None None = Some (3, Some ws_frame_binary, None) \<and>
   framing_json (Some (bytes [CHR ''['', CHR 34, CHR 92, CHR 92, CHR 34, CHR '']''] @ [0])) 6 6 (Some ws_frame_binary) None None =
     Some (0, Some ws_frame_binary, None) \<and>
   framing_json (Some (bytes ''[1'' @ [10, 93, 0])) 4 4 (Some ws_frame_binary) None None = Some (4, Some ws_frame_binary, None) \<and>
   framing_json (Some (bytes ''[1]1]'' @ [0])) 2 2 (Some ws_frame_binary) None None = Some (3, Some ws_frame_text, None)"
  by (intro conjI; code_simp)

end
