(* ===== verification/Props_Frame.thy ===== *)
theory Props_Frame
  imports Examples
begin

text \<open>Properties of frames and of closing: \<open>ws_send_frame\<close>, \<open>ws_frame\<close> and \<open>ws_close\<close>.\<close>

section \<open>Frames to the client\<close>

text \<open>A client's reading of an unmasked frame, RFC 6455, section 5.2: opcode, payload, rest.\<close>

definition client_decode :: "u8 list \<Rightarrow> (u8 \<times> u8 list \<times> u8 list) option" where
  "client_decode bs =
     (case bs of
        b0 # b1 # r \<Rightarrow>
          let (n, r1) = (if WS_GET_LEN b1 = 126 then (of_be (take 2 r), drop 2 r)
                         else if WS_GET_LEN b1 = 127 then (of_be (take 8 r), drop 8 r)
                         else (unat (WS_GET_LEN b1), r))
          in if b0 AND WS_FLAG_FIN \<noteq> 0 \<and> WS_GET_MASK b1 = 0 \<and> n \<le> length r1
             then Some (WS_GET_OP b0, take n r1, drop n r1) else None
      | _ \<Rightarrow> None)"

lemma WS_FLAG_FIN_nonzero [simp]: "WS_FLAG_FIN \<noteq> 0"
  by (simp add: WS_FLAG_FIN_def)

lemma op_code_small: "(of_nat (op_code op) :: u8) < 16"
  by (cases op) simp_all

lemma client_decode_frame_bytes:
  assumes "length p < 2 ^ 64"
  shows "client_decode (frame_bytes op p @ rest) = Some (of_nat (op_code op), p, rest)"
proof -
  let ?n = "length p"
  note op = WS_GET_OP_fin [OF op_code_small]
  consider (short) "?n \<le> 125" | (mid) "125 < ?n" "?n \<le> 0xFFFF" | (long) "0xFFFF < ?n" by linarith
  then show ?thesis
  proof cases
    case short
    then have "unat (of_nat ?n :: u8) = ?n" by (simp add: unsigned_of_nat take_bit_nat_def)
    with short of_nat_u8_less [OF short] show ?thesis
      by (simp add: client_decode_def frame_bytes_def ws_frame_header_def Let_def op
          WS_GET_LEN_plain WS_GET_MASK_plain)
  next
    case mid
    have "of_be (be_bytes 2 ?n) = ?n" using of_be_be_bytes [of 2 ?n] mid by simp
    with mid show ?thesis
      by (simp add: client_decode_def frame_bytes_def ws_frame_header_def Let_def op
          WS_GET_LEN_plain WS_GET_MASK_plain)
  next
    case long
    have "of_be (be_bytes 8 ?n) = ?n" using of_be_be_bytes [of 8 ?n] assms by simp
    with long show ?thesis
      by (simp add: client_decode_def frame_bytes_def ws_frame_header_def Let_def op
          WS_GET_LEN_plain WS_GET_MASK_plain)
  qed
qed

text \<open>
  C13. What \<open>ws_send_frame\<close> puts on the wire, when it returns 0, is read back by an RFC 6455 client
  as one final frame with the given opcode and payload, for payloads of every length; it fails,
  with a proper prefix of that sent, only when a \<open>send\<close> call fails. In either case nothing else is sent.
\<close>

theorem ws_send_frame_roundtrip:
  assumes "posix_send E" "length p < 2 ^ 64"
  shows "\<exists>r ext. ws_send_frame E ws op p tr = Some (r, tr @ ext) \<and> only_sends (ws_fd ws) ext \<and>
    (r = 0 \<and> client_decode (sent_on (ws_fd ws) ext @ rest) = Some (of_nat (op_code op), p, rest) \<or>
     r = 1 \<and> strict_prefix (sent_on (ws_fd ws) ext) (frame_bytes op p) \<and> send_fails E (ws_fd ws))"
proof -
  have "runs (ws_send_frame E ws op p tr) (\<lambda>(r, tr'). \<exists>ext. tr' = tr @ ext \<and> only_sends (ws_fd ws) ext \<and>
    (r = 0 \<and> client_decode (sent_on (ws_fd ws) ext @ rest) = Some (of_nat (op_code op), p, rest) \<or>
     r = 1 \<and> strict_prefix (sent_on (ws_fd ws) ext) (frame_bytes op p) \<and> send_fails E (ws_fd ws)))"
    using client_decode_frame_bytes [OF assms(2)] by (intro runs_ws_send_frame [OF assms(1)]) auto
  then show ?thesis by (auto simp: runs_def)
qed

theorem ws_send_frame_roundtrip_witness:
  "\<exists>r ext. ws_send_frame (demo_env []) open_client ws_frame_text (bytes ''hi'') [] = Some (r, [] @ ext) \<and>
    only_sends (ws_fd open_client) ext \<and>
    (r = 0 \<and> client_decode (sent_on (ws_fd open_client) ext @ [1]) = Some (of_nat (op_code ws_frame_text), bytes ''hi'', [1]) \<or>
     r = 1 \<and> strict_prefix (sent_on (ws_fd open_client) ext) (frame_bytes ws_frame_text (bytes ''hi'')) \<and>
       send_fails (demo_env []) (ws_fd open_client))"
  by (rule ws_send_frame_roundtrip [OF demo_posix_send]) simp

section \<open>Frames from the client\<close>

text \<open>
  C11. A masked frame an RFC 6455 client sends, with any opcode, key and payload of any length that
  fits the buffer, followed by anything, is decoded by \<open>ws_frame\<close> to exactly that opcode and
  payload: the dispatch is called with them, and the number of bytes handled is the frame's length.
\<close>

theorem ws_frame_roundtrip:
  assumes "length key = 4" "opcode < 16"
    and "read_buffer ws = client_frame opcode key payload @ rest"
    and "length (client_frame opcode key payload) \<le> read_buffer_offset ws" "read_buffer_offset ws < 2 ^ 64"
  shows "\<exists>hdr. length hdr = length (client_frame opcode key payload) - length payload \<and>
    ws_frame E ws tr =
      (case ws_frame_dispatch E (ws\<lparr>read_buffer := hdr @ payload @ rest\<rparr>) opcode payload tr of
         None \<Rightarrow> None
       | Some (ws1, tr1) \<Rightarrow> Some (length (client_frame opcode key payload), ws1, tr1))"
proof (rule ws_frame_client_frame [OF assms, of E tr], goal_cases)
  case (1 hdr)
  then show ?case
    by (intro exI [of _ hdr])
      (cases "ws_frame_dispatch E (ws\<lparr>read_buffer := hdr @ payload @ rest\<rparr>) opcode payload tr"; auto)
qed

theorem ws_frame_roundtrip_witness:
  "\<exists>hdr. length hdr = length (client_frame 2 [1, 2, 3, 4] [9, 8]) - length [9, 8 :: u8] \<and>
    ws_frame (demo_env []) (open_client\<lparr>read_buffer := client_frame 2 [1, 2, 3, 4] [9, 8] @ [0], read_buffer_offset := 8\<rparr>) [] =
      (case ws_frame_dispatch (demo_env [])
          (open_client\<lparr>read_buffer := client_frame 2 [1, 2, 3, 4] [9, 8] @ [0], read_buffer_offset := 8,
                       read_buffer := hdr @ [9, 8] @ [0]\<rparr>) 2 [9, 8] [] of
         None \<Rightarrow> None
       | Some (ws1, tr1) \<Rightarrow> Some (length (client_frame 2 [1, 2, 3, 4] [9, 8]), ws1, tr1))"
  by (rule ws_frame_roundtrip) (simp_all add: length_client_frame client_header_len_def)

text \<open>
  Binary and text frames reach the peer: the payload the client sent is what is sent on the
  peer's descriptor, unmasked and complete; when a \<open>send\<close> to the peer fails the connection is closed.
\<close>

lemma ws_frame_forwards:
  assumes "posix_send E" "length key = 4" "opcode = 1 \<or> opcode = 2" "ws_inv ws" "0 \<le> peer_fd ws" "peer_fd ws \<noteq> ws_fd ws"
    and "read_buffer ws = client_frame opcode key payload @ rest"
    and "length (client_frame opcode key payload) \<le> read_buffer_offset ws"
  shows "\<exists>ws' ext. ws_frame E ws tr = Some (length (client_frame opcode key payload), ws', tr @ ext) \<and>
    (sent_on (peer_fd ws) ext = payload \<and> state ws' = state ws \<or>
     strict_prefix (sent_on (peer_fd ws) ext) payload \<and> state ws' = ws_closed \<and> send_fails E (peer_fd ws))"
proof -
  have op16: "opcode < 16" using assms(3) by auto
  have small: "read_buffer_offset ws < 2 ^ 64"
    using assms(4) by (simp add: ws_inv_def WS_MAX_LINE_def)
  obtain hdr where fr: "ws_frame E ws tr =
       do { (ws1, tr1) \<leftarrow> ws_frame_dispatch E (ws\<lparr>read_buffer := hdr @ payload @ rest\<rparr>) opcode payload tr;
            Some (length (client_frame opcode key payload), ws1, tr1) }"
    by (rule ws_frame_client_frame [OF assms(2) op16 assms(7,8) small])
  let ?ws = "ws\<lparr>read_buffer := hdr @ payload @ rest\<rparr>"
  have rel: "framing_releasable ?ws"
    using assms(4) by (simp add: ws_inv_def ws_core_def peer_sound_def peer_sound_releasable)
  have "runs (ws_frame_dispatch E ?ws opcode payload tr)
      (\<lambda>(ws', tr'). \<exists>ext. tr' = tr @ ext \<and>
        (sent_on (peer_fd ws) ext = payload \<and> state ws' = state ws \<or>
         strict_prefix (sent_on (peer_fd ws) ext) payload \<and> state ws' = ws_closed \<and> send_fails E (peer_fd ws)))"
    using assms(3,5,6)
    by (auto simp: ws_frame_dispatch_def close_trace_def untouched_sent
        intro!: runs_network_send runs_ws_close assms(1) rel)
  then show ?thesis by (auto simp: fr runs_def)
qed

lemma ws_frame_forwards_witness:
  "\<exists>ws' ext. ws_frame (demo_env [])
      (open_client\<lparr>read_buffer := client_frame 2 [1, 2, 3, 4] [9, 8] @ replicate (WS_MAX_LINE - 8) 0,
                   read_buffer_offset := 8\<rparr>) [] =
      Some (length (client_frame 2 [1, 2, 3, 4] [9, 8]), ws', [] @ ext) \<and>
    (sent_on (peer_fd (open_client\<lparr>read_buffer := client_frame 2 [1, 2, 3, 4] [9, 8] @ replicate (WS_MAX_LINE - 8) 0,
                   read_buffer_offset := 8\<rparr>)) ext = [9, 8] \<and>
     state ws' = state (open_client\<lparr>read_buffer := client_frame 2 [1, 2, 3, 4] [9, 8] @ replicate (WS_MAX_LINE - 8) 0,
                   read_buffer_offset := 8\<rparr>) \<or>
     strict_prefix (sent_on (peer_fd (open_client\<lparr>read_buffer := client_frame 2 [1, 2, 3, 4] [9, 8] @ replicate (WS_MAX_LINE - 8) 0,
                   read_buffer_offset := 8\<rparr>)) ext) [9, 8] \<and> state ws' = ws_closed \<and>
       send_fails (demo_env []) (peer_fd (open_client\<lparr>read_buffer := client_frame 2 [1, 2, 3, 4] [9, 8] @ replicate (WS_MAX_LINE - 8) 0,
                   read_buffer_offset := 8\<rparr>)))"
proof (rule ws_frame_forwards [OF demo_posix_send, where key = "[1, 2, 3, 4]" and rest = "replicate (WS_MAX_LINE - 8) 0"])
  let ?ws = "open_client\<lparr>read_buffer := client_frame 2 [1, 2, 3, 4] [9, 8] @ replicate (WS_MAX_LINE - 8) 0,
                   read_buffer_offset := 8\<rparr>"
  have len: "length (read_buffer ?ws) = length (read_buffer open_client)"
    using open_client_inv
    by (simp add: length_client_frame client_header_len_def ws_inv_def ws_core_def WS_MAX_LINE_def)
  show "ws_inv ?ws"
    using ws_core_buffer [of open_client "read_buffer ?ws"] open_client_inv len
    by (simp add: ws_inv_def WS_MAX_LINE_def)
qed (simp_all add: length_client_frame client_header_len_def open_client_def new_client_def accepted_websocket_def)

text \<open>
  C12. Handling arbitrary bytes as a frame is memory safe and returns whenever the length field does
  not make the 64-bit sum of the completeness check wrap: no more than the buffered bytes are
  counted as handled, bytes behind the handled ones are untouched, nothing is sent to third
  parties, and the connection either lives on unchanged but for its buffer or is closed with
  both descriptors closed once.
\<close>

theorem ws_frame_safe:
  assumes "posix_send E" "ws_inv ws" "frame_no_wrap (read_buffer ws) (read_buffer_offset ws)"
  shows "\<exists>n ws' ext. ws_frame E ws tr = Some (n, ws', tr @ ext) \<and> n \<le> read_buffer_offset ws \<and>
    length (read_buffer ws') = length (read_buffer ws) \<and> conn_trace ws ext \<and>
    (closed_in ext = [] \<and> ws' = ws\<lparr>read_buffer := read_buffer ws'\<rparr> \<and>
       drop n (read_buffer ws') = drop n (read_buffer ws) \<or>
     closed_in ext = fd_list (ws_fd ws) @ fd_list (peer_fd ws) \<and> state ws' = ws_closed)"
proof -
  have rel: "framing_releasable ws" and off: "read_buffer_offset ws \<le> length (read_buffer ws)"
    and small: "read_buffer_offset ws < 2 ^ 64"
    using assms(2) by (simp_all add: ws_inv_def ws_core_def peer_sound_releasable WS_MAX_LINE_def)
  have "runs (ws_frame E ws tr) (\<lambda>(n, ws', tr'). \<exists>ext. tr' = tr @ ext \<and> n \<le> read_buffer_offset ws \<and>
    length (read_buffer ws') = length (read_buffer ws) \<and> conn_trace ws ext \<and>
    (closed_in ext = [] \<and> ws' = ws\<lparr>read_buffer := read_buffer ws'\<rparr> \<and>
       drop n (read_buffer ws') = drop n (read_buffer ws) \<or>
     closed_in ext = fd_list (ws_fd ws) @ fd_list (peer_fd ws) \<and> state ws' = ws_closed))"
  proof (rule runs_ws_frame [OF assms(1) rel off small assms(3)], goal_cases)
    case 1
    show ?case by (simp add: conn_trace_def)
  next
    case (2 ext)
    then show ?case using conn_trace_close [OF 2] by (simp add: close_trace_def)
  qed auto
  then show ?thesis by (auto simp: runs_def)
qed

theorem ws_frame_safe_witness:
  "\<exists>n ws' ext. ws_frame (demo_env []) open_client [] = Some (n, ws', [] @ ext) \<and> n \<le> read_buffer_offset open_client \<and>
    length (read_buffer ws') = length (read_buffer open_client) \<and> conn_trace open_client ext \<and>
    (closed_in ext = [] \<and> ws' = open_client\<lparr>read_buffer := read_buffer ws'\<rparr> \<and>
       drop n (read_buffer ws') = drop n (read_buffer open_client) \<or>
     closed_in ext = fd_list (ws_fd open_client) @ fd_list (peer_fd open_client) \<and> state ws' = ws_closed)"
proof (rule ws_frame_safe [OF demo_posix_send open_client_inv])
  have b1: "rd (read_buffer open_client) 1 = Some 0"
    by (simp add: open_client_def new_client_def accepted_websocket_def WS_MAX_LINE_def rd_def)
  then have "ws_frame_layout (read_buffer open_client) (read_buffer_offset open_client) = Some (Some (None, 2, 0))"
    by (simp add: ws_frame_layout_def Let_def WS_GET_LEN_def WS_GET_MASK_def)
  then show "frame_no_wrap (read_buffer open_client) (read_buffer_offset open_client)"
    by (simp add: frame_no_wrap_def)
qed

text \<open>
  C38. When the length field does make that sum wrap below the number of buffered bytes, the check
  passes for a payload that cannot be there, and the unmasking loop writes past the end of the
  read buffer.
\<close>

theorem ws_frame_overrun:
  assumes "2 \<le> read_buffer_offset ws" "read_buffer_offset ws \<le> length (read_buffer ws)"
    and "length (read_buffer ws) < 2 ^ 63"
    and "ws_frame_layout (read_buffer ws) (read_buffer_offset ws) = Some (Some (Some k, pay, plen))"
    and "2 ^ 64 \<le> pay + unat plen" "unat (of_nat pay + plen :: u64) \<le> read_buffer_offset ws"
  shows "ws_frame E ws tr = None"
  by (rule ws_frame_wrap_overrun [OF assms])

definition overrun_frame :: "u8 list" where
  "overrun_frame = [0x82, 0xFF, 0xFF, 0xFF, 0xFF, 0xFF, 0xFF, 0xFF, 0xFF, 0xFF, 0, 0, 0, 0]"

theorem ws_frame_overrun_witness:
  "ws_frame (demo_env []) (open_client\<lparr>read_buffer := overrun_frame @ [0, 0], read_buffer_offset := 14\<rparr>) [] = None"
proof (rule ws_frame_overrun)
  show "ws_frame_layout (read_buffer (open_client\<lparr>read_buffer := overrun_frame @ [0, 0], read_buffer_offset := 14\<rparr>))
      (read_buffer_offset (open_client\<lparr>read_buffer := overrun_frame @ [0, 0], read_buffer_offset := 14\<rparr>)) =
    Some (Some (Some 10, 14, 0xFFFFFFFFFFFFFFFF))"
    by (simp add: ws_frame_layout_def overrun_frame_def Let_def header_consts rd_def of_be_def)
qed (simp_all add: overrun_frame_def)

section \<open>Closing\<close>

text \<open>
  C14. \<open>ws_close\<close> returns in every state of a connection whose framing data can be released, closes
  each descriptor the connection holds exactly once, the client's first, sends to no one but the
  client, and leaves a connection that holds nothing.
\<close>

theorem ws_close_releases:
  assumes "posix_send E" "framing_releasable ws"
  shows "\<exists>ws' ext. ws_close E ws code reason tr = Some (0, ws', tr @ ext) \<and>
    closed_in ext = fd_list (ws_fd ws) @ fd_list (peer_fd ws) \<and> opened_in ext = [] \<and>
    (\<forall>fd. fd \<noteq> ws_fd ws \<longrightarrow> sent_on fd ext = []) \<and>
    state ws' = ws_closed \<and> ws_fd ws' < 0 \<and> peer_fd ws' < 0 \<and> header ws' = [] \<and> protocol ws' = [] \<and>
    request_path ws' = None \<and> socket_key ws' = None \<and> read_buffer_offset ws' = 0 \<and> peer_buffer_offset ws' = 0"
proof -
  obtain ext where "ws_close E ws code reason tr = Some (0, ws_reset ws, tr @ ext)" "close_trace ws ext"
    by (rule ws_close_obtain [OF assms])
  then show ?thesis
    by (intro exI [of _ "ws_reset ws"] exI [of _ ext]) (simp add: close_trace_def ws_reset_def untouched_sent)
qed

theorem ws_close_releases_witness:
  "\<exists>ws' ext. ws_close (demo_env []) open_client ws_close_normal (Some (bytes ''bye'')) [] = Some (0, ws', [] @ ext) \<and>
    closed_in ext = fd_list (ws_fd open_client) @ fd_list (peer_fd open_client) \<and> opened_in ext = [] \<and>
    (\<forall>fd. fd \<noteq> ws_fd open_client \<longrightarrow> sent_on fd ext = []) \<and>
    state ws' = ws_closed \<and> ws_fd ws' < 0 \<and> peer_fd ws' < 0 \<and> header ws' = [] \<and> protocol ws' = [] \<and>
    request_path ws' = None \<and> socket_key ws' = None \<and> read_buffer_offset ws' = 0 \<and> peer_buffer_offset ws' = 0"
  by (rule ws_close_releases [OF demo_posix_send])
    (simp add: framing_releasable_def open_client_def new_client_def accepted_websocket_def)

end
