(* ===== verification/Client_Stream.thy ===== *)
theory Client_Stream
  imports Wsdata
begin

text \<open>
  The client's byte stream: a reference decoder for the frames of RFC 6455, section 5.2, and what
  \<open>ws_frame\<close> and \<open>ws_data\<close> do with a stream, however it is cut into reads.
\<close>

section \<open>The reference decoder\<close>

text \<open>
  Where the payload of a masked frame starts, behind the extended length and the key, and its length.
\<close>

definition rfc_layout :: "u8 list \<Rightarrow> nat \<times> nat" where
  "rfc_layout bs =
     (let l = unat (bs ! 1 AND 127);
          k = (if l = 126 then 2 else if l = 127 then 8 else 0)
      in (k + 6, if k = 0 then l else of_be (take k (drop 2 bs))))"

text \<open>
  The first frame of \<open>bs\<close>, when it is there and masked: opcode, unmasked payload, and the bytes
  behind it.
\<close>

definition rfc_decode :: "u8 list \<Rightarrow> (u8 \<times> u8 list \<times> u8 list) option" where
  "rfc_decode bs =
     (if length bs < 2 then None
      else let (pay, n) = rfc_layout bs in
        if bs ! 1 AND 128 = 0 \<or> length bs < pay + n then None
        else Some (bs ! 0 AND 15, mask_bytes (take 4 (drop (pay - 4) bs)) (take n (drop pay bs)), drop (pay + n) bs))"

lemma rfc_layout_ge: "rfc_layout bs = (pay, n) \<Longrightarrow> 6 \<le> pay"
  by (auto simp: rfc_layout_def Let_def)

lemma rfc_decode_length: "rfc_decode bs = Some (op, p, rest) \<Longrightarrow> length rest < length bs"
  using rfc_layout_ge [of bs] by (auto simp: rfc_decode_def split: if_splits prod.splits)

lemma rfc_decode_suffix: "rfc_decode bs = Some (op, p, rest) \<Longrightarrow> \<exists>hd. bs = hd @ rest"
  by (auto simp: rfc_decode_def split: if_splits prod.splits) (metis append_take_drop_id)

text \<open>All complete frames of a stream, and what is left of it.\<close>

function rfc_frames :: "u8 list \<Rightarrow> (u8 \<times> u8 list) list \<times> u8 list" where
  "rfc_frames bs =
     (case rfc_decode bs of
        None \<Rightarrow> ([], bs)
      | Some (op, p, rest) \<Rightarrow> (let (fs, rest') = rfc_frames rest in ((op, p) # fs, rest')))"
  by pat_completeness auto
termination
  by (relation "measure length") (auto dest: rfc_decode_length [OF trans])

declare rfc_frames.simps [simp del]

lemma rfc_frames_None: "rfc_decode bs = None \<Longrightarrow> rfc_frames bs = ([], bs)"
  by (simp add: rfc_frames.simps [of bs])

lemma rfc_frames_Some:
  "rfc_decode bs = Some (op, p, rest) \<Longrightarrow> rfc_frames bs = (let (fs, rest') = rfc_frames rest in ((op, p) # fs, rest'))"
  by (simp add: rfc_frames.simps [of bs])

text \<open>A stream can be decoded as it arrives.\<close>

lemma rfc_layout_append:
  assumes "2 \<le> length bs" "rfc_layout bs = (pay, n)" "pay \<le> length bs"
  shows "rfc_layout (bs @ ds) = (pay, n)"
  using assms by (auto simp: rfc_layout_def Let_def nth_append)

lemma rfc_decode_append:
  assumes "rfc_decode bs = Some (op, p, rest)"
  shows "rfc_decode (bs @ ds) = Some (op, p, rest @ ds)"
proof -
  obtain pay n where lay: "rfc_layout bs = (pay, n)" by (cases "rfc_layout bs")
  then have b: "2 \<le> length bs" "pay + n \<le> length bs" "bs ! 1 AND 128 \<noteq> 0" "6 \<le> pay"
    using assms rfc_layout_ge by (auto simp: rfc_decode_def split: if_splits)
  moreover have "take 4 (drop (pay - 4) (bs @ ds)) = take 4 (drop (pay - 4) bs)" "bs \<noteq> []" using b by auto
  ultimately show ?thesis
    using assms lay rfc_layout_append [OF b(1) lay, of ds] by (simp add: rfc_decode_def nth_append split: if_splits)
qed

lemma rfc_frames_append:
  "rfc_frames bs = (fs, rest) \<Longrightarrow> rfc_frames (rest @ ds) = (gs, rest') \<Longrightarrow> rfc_frames (bs @ ds) = (fs @ gs, rest')"
proof (induction bs arbitrary: fs rule: rfc_frames.induct)
  case (1 bs)
  show ?case
  proof (cases "rfc_decode bs")
    case None
    with "1.prems" show ?thesis by (simp add: rfc_frames_None)
  next
    case (Some x)
    then obtain op p r where d: "rfc_decode bs = Some (op, p, r)" by (cases x) auto
    obtain fs' r' where f: "rfc_frames r = (fs', r')" by (cases "rfc_frames r")
    with "1.prems" d have "fs = (op, p) # fs'" "rest = r'" by (simp_all add: rfc_frames_Some)
    with "1.IH" [OF d refl refl, of fs'] "1.prems"(2) f show ?thesis
      by (simp add: rfc_frames_Some [OF rfc_decode_append [OF d]])
  qed
qed

lemma rfc_frames_done: "rfc_frames bs = (fs, rest) \<Longrightarrow> rfc_decode rest = None"
proof (induction bs arbitrary: fs rule: rfc_frames.induct)
  case (1 bs)
  then show ?case
    by (cases "rfc_decode bs") (auto simp: rfc_frames.simps [of bs] split: prod.splits)
qed

section \<open>The layout the code computes\<close>

lemma unat_u8_less: "unat b < 256" for b :: u8
proof -
  have "unat b < 2 ^ LENGTH(8)" by (rule unsigned_less)
  then show ?thesis by simp
qed

lemma WS_GET_MASK_zero: "WS_GET_MASK b = 0 \<longleftrightarrow> b AND 128 = 0"
proof -
  have "list_all (\<lambda>k. drop_bit 7 (of_nat k AND 0x80 :: u8) = 0 \<longleftrightarrow> (of_nat k :: u8) AND 128 = 0) [0..<256]" by code_simp
  moreover have "b = of_nat (unat b)" by simp
  then obtain k where "b = of_nat k" "k < 256" using unat_u8_less by blast
  ultimately show ?thesis by (simp add: WS_GET_MASK_def list_all_iff)
qed

lemma unat_of_be: "length bs \<le> 8 \<Longrightarrow> unat (of_nat (of_be bs) :: u64) = of_be bs"
  using of_be_less [of bs] power_increasing [of "length bs" 8 "256 :: nat"]
  by (intro unat_of_nat_u64) simp

lemma unat_ucast_u8: "unat (ucast b :: u64) = unat b" for b :: u8
  using unat_u8_less [of b] by (simp add: unsigned_ucast_eq take_bit_nat_eq_self)

lemma take_drop_map: "i + k \<le> length xs \<Longrightarrow> take k (drop i xs) = map ((!) xs) [i..<i + k]"
  by (rule nth_equalityI) simp_all

text \<open>\<open>ws_frame_layout\<close> finds the layout of the reference, or knows that the frame is not complete.\<close>

lemma ws_frame_layout_rfc:
  assumes off: "2 \<le> off" "off \<le> length buf" and lay: "rfc_layout (take off buf) = (pay, n)"
  shows "case ws_frame_layout buf off of
      None \<Rightarrow> False
    | Some None \<Rightarrow> off < pay
    | Some (Some (None, _)) \<Rightarrow> buf ! 1 AND 128 = 0
    | Some (Some (Some k, pay', plen)) \<Rightarrow> buf ! 1 AND 128 \<noteq> 0 \<and> k + 4 = pay \<and> pay' = pay \<and> unat plen = n"
proof -
  define c where "c = buf ! 1"
  have b1: "take off buf ! Suc 0 = c" "rd buf (Suc 0) = Some c" "buf ! Suc 0 = c" using off by (simp_all add: c_def)
  have l: "WS_GET_LEN c = 126 \<longleftrightarrow> unat (c AND 127) = 126" "WS_GET_LEN c = 127 \<longleftrightarrow> unat (c AND 127) = 127"
    by (simp_all add: WS_GET_LEN_def word_unat_eq_iff)
  note defs = ws_frame_layout_def rfc_layout_def Let_def b1 l WS_GET_MASK_zero
  consider (mid) "unat (c AND 127) = 126" | (long) "unat (c AND 127) = 127"
    | (short) "unat (c AND 127) \<noteq> 126" "unat (c AND 127) \<noteq> 127" by blast
  then show ?thesis
  proof cases
    case short
    then show ?thesis using lay off by (auto simp: defs WS_GET_LEN_def unat_ucast_u8)
  next
    case mid
    have "take 2 (drop 2 (take off buf)) = [buf ! 2, buf ! 3]" if "\<not> off < 4"
      using that off by (simp add: take_drop_map upt_rec)
    with mid lay off unat_of_be [of "[buf ! 2, buf ! 3]"] show ?thesis by (auto simp: defs)
  next
    case long
    have "take 8 (drop 2 (take off buf)) =
      [buf ! 2, buf ! 3, buf ! 4, buf ! 5, buf ! 6, buf ! 7, buf ! 8, buf ! 9]" if "\<not> off < 10"
      using that off by (simp add: take_drop_map upt_rec)
    with long lay off unat_of_be [of "[buf ! 2, buf ! 3, buf ! 4, buf ! 5, buf ! 6, buf ! 7, buf ! 8, buf ! 9]"]
    show ?thesis by (auto simp: defs)
  qed
qed

section \<open>One frame\<close>

text \<open>The bytes of the client that are received but not handled.\<close>

definition pending :: "websocket \<Rightarrow> u8 list" where
  "pending ws = take (read_buffer_offset ws) (read_buffer ws)"

fun is_recv :: "syscall \<times> int \<Rightarrow> bool" where
  "is_recv (SysRecv fd len, r) \<longleftrightarrow> True"
| "is_recv _ \<longleftrightarrow> False"

text \<open>A trace segment of sends that puts \<open>to_peer\<close> and \<open>to_client\<close> on the two descriptors.\<close>

definition exchanged :: "websocket \<Rightarrow> trace \<Rightarrow> u8 list \<Rightarrow> u8 list \<Rightarrow> bool" where
  "exchanged ws ext to_peer to_client \<longleftrightarrow>
     (\<forall>e\<in>set ext. \<exists>fd. is_send fd e) \<and> sent_on (peer_fd ws) ext = to_peer \<and> sent_on (ws_fd ws) ext = to_client"

lemma exchanged_Nil [simp]: "exchanged ws [] [] []"
  by (simp add: exchanged_def)

lemma exchanged_fields [simp]:
  "exchanged (ws\<lparr>read_buffer := b\<rparr>) = exchanged ws" "exchanged (ws\<lparr>read_buffer_offset := k\<rparr>) = exchanged ws"
  by (intro ext; simp add: exchanged_def)+

lemma exchanged_append:
  "exchanged ws e1 p1 c1 \<Longrightarrow> exchanged ws e2 p2 c2 \<Longrightarrow> exchanged ws (e1 @ e2) (p1 @ p2) (c1 @ c2)"
  by (auto simp: exchanged_def)

lemma is_send_recv: "is_send fd e \<Longrightarrow> \<not> is_recv e"
  by (cases "(fd, e)" rule: is_send.cases) auto

lemma only_sends_all: "only_sends fd ext \<Longrightarrow> \<forall>e\<in>set ext. \<exists>fd. is_send fd e"
  by (auto simp: only_sends_def list_all_iff)

lemma exchanged_sends_only:
  assumes "exchanged ws ext a b"
  shows "\<forall>e\<in>set ext. \<not> is_recv e" and "\<forall>e\<in>set ext. event_opened e = [] \<and> event_closed e = []"
  using assms by (auto simp: exchanged_def is_send_opened is_send_closed dest: is_send_recv)

lemma exchanged_sends:
  assumes "ws_fd ws \<noteq> peer_fd ws"
  shows "only_sends (peer_fd ws) ext \<Longrightarrow> sent_on (peer_fd ws) ext = xs \<Longrightarrow> exchanged ws ext xs []"
    and "only_sends (ws_fd ws) ext \<Longrightarrow> sent_on (ws_fd ws) ext = xs \<Longrightarrow> exchanged ws ext [] xs"
  using assms by (auto simp: exchanged_def only_sends_all only_sends_other)

text \<open>What a frame puts on the wire: data frames go to the peer, a ping is answered.\<close>

definition to_peer :: "u8 \<times> u8 list \<Rightarrow> u8 list" where
  "to_peer = (\<lambda>(op, p). if op = 1 \<or> op = 2 then p else [])"

definition pong_payloads :: "(u8 \<times> u8 list) list \<Rightarrow> u8 list list" where
  "pong_payloads fs = map snd (filter (\<lambda>(op, p). op = 9) fs)"

lemma pong_payloads_simps [simp]:
  "pong_payloads [] = []" "pong_payloads (f # fs) = (if fst f = 9 then [snd f] else []) @ pong_payloads fs"
  "pong_payloads (fs @ gs) = pong_payloads fs @ pong_payloads gs"
  by (auto simp: pong_payloads_def case_prod_beta)

text \<open>A frame that ends the connection: closing, of an unknown kind, or impossible to forward or answer.\<close>

definition ending :: "env \<Rightarrow> websocket \<Rightarrow> u8 \<times> u8 list \<Rightarrow> bool" where
  "ending E ws f \<longleftrightarrow> fst f \<notin> {1, 2, 9, 10} \<or> send_fails E (ws_fd ws) \<or> send_fails E (peer_fd ws)"

lemma ws_frame_dispatch_rfc:
  assumes E: "posix_send E" and rel: "framing_releasable ws" and fds: "ws_fd ws \<noteq> peer_fd ws" "0 \<le> peer_fd ws"
    and run: "ws_frame_dispatch E ws op p tr = Some (ws', tr')"
  obtains (live) ext where "ws' = ws" "tr' = tr @ ext"
      "exchanged ws ext (to_peer (op, p)) (concat (map (frame_bytes ws_frame_pong) (pong_payloads [(op, p)])))"
  | (dead) "ws' = ws_reset ws" "ending E ws (op, p)"
proof -
  let ?Q = "\<lambda>(ws', tr'). ws' = ws \<and> (\<exists>ext. tr' = tr @ ext \<and>
    exchanged ws ext (to_peer (op, p)) (concat (map (frame_bytes ws_frame_pong) (pong_payloads [(op, p)])))) \<or>
    ws' = ws_reset ws \<and> ending E ws (op, p)"
  have "runs (ws_frame_dispatch E ws op p tr) ?Q"
    using fds exchanged_sends [OF fds(1)]
    by (auto simp: ws_frame_dispatch_def to_peer_def ending_def
        intro!: runs_network_send runs_ws_send_frame runs_ws_close E rel)
  with run live dead show ?thesis by auto
qed

lemma rfc_decode_pending:
  assumes "2 \<le> read_buffer_offset ws" "read_buffer_offset ws \<le> length (read_buffer ws)" "rfc_layout (pending ws) = (pay, n)"
  shows "rfc_decode (pending ws) =
    (if read_buffer ws ! 1 AND 128 = 0 \<or> read_buffer_offset ws < pay + n then None
     else Some (read_buffer ws ! 0 AND 15,
       mask_bytes (take 4 (drop (pay - 4) (read_buffer ws))) (take n (drop pay (read_buffer ws))),
       drop (pay + n) (pending ws)))"
  using assms rfc_layout_ge [OF assms(3)] by (auto simp: rfc_decode_def pending_def drop_take min_def)

text \<open>A complete masked frame is unmasked and dispatched, and nothing behind it is touched.\<close>

lemma ws_frame_masked:
  assumes off: "2 \<le> read_buffer_offset ws" "read_buffer_offset ws \<le> length (read_buffer ws)"
    and L: "ws_frame_layout (read_buffer ws) (read_buffer_offset ws) = Some (Some (Some k, pay, plen))"
    and k: "k + 4 = pay" "2 \<le> k" and n: "pay + unat plen \<le> read_buffer_offset ws"
    and small: "length (read_buffer ws) < 2 ^ 64"
    and p: "p = mask_bytes (take 4 (drop k (read_buffer ws))) (take (unat plen) (drop pay (read_buffer ws)))"
  obtains buf where "length buf = length (read_buffer ws)"
    "drop (pay + unat plen) buf = drop (pay + unat plen) (read_buffer ws)"
    "ws_frame E ws tr =
       do { (ws1, tr1) \<leftarrow> ws_frame_dispatch E (ws\<lparr>read_buffer := buf\<rparr>) (WS_GET_OP (read_buffer ws ! 0)) p tr;
            Some (pay + unat plen, ws1, tr1) }"
proof -
  let ?n = "pay + unat plen"
  define buf1 where "buf1 = take pay (read_buffer ws) @ p @ drop ?n (read_buffer ws)"
  have unm: "ws_unmask (read_buffer ws) pay k (unat plen) 0 = Some buf1"
    using ws_unmask_spec [of k pay "unat plen" "read_buffer ws"] k n off by (simp add: buf1_def p)
  have b: "rd buf1 0 = Some (read_buffer ws ! 0)" "take (unat plen) (drop pay buf1) = p"
    "length buf1 = length (read_buffer ws)" "drop ?n buf1 = drop ?n (read_buffer ws)"
    using n off k by (auto simp: buf1_def rd_def nth_append p)
  have n64: "?n < 2 ^ 64" "read_buffer_offset ws < 2 ^ 64" using n off small by simp_all
  have "\<not> (of_nat (read_buffer_offset ws) :: u64) < of_nat pay + plen"
    using frame_complete_iff [OF n64] n by simp
  with b(3,4) show ?thesis
    using off L frame_sum_unat [OF n64(1)] by (intro that [of buf1]) (simp_all add: ws_frame_def Let_def unm b(1,2))
qed

lemma ws_frame_incomplete:
  assumes "2 \<le> read_buffer_offset ws"
    "ws_frame_layout (read_buffer ws) (read_buffer_offset ws) = Some (Some (key, pay, plen))"
    "(of_nat (read_buffer_offset ws) :: u64) < of_nat pay + plen"
  shows "ws_frame E ws tr = Some (0, ws, tr)"
  using assms by (simp add: ws_frame_def Let_def)

lemma ws_frame_unmasked:
  assumes E: "posix_send E" "framing_releasable ws" and "2 \<le> read_buffer_offset ws"
    "ws_frame_layout (read_buffer ws) (read_buffer_offset ws) = Some (Some (None, pay, plen))"
    "\<not> (of_nat (read_buffer_offset ws) :: u64) < of_nat pay + plen"
  shows "\<exists>ext. ws_frame E ws tr = Some (0, ws_reset ws, tr @ ext) \<and> close_trace ws ext"
proof -
  obtain e where "ws_close E ws ws_close_proto (Some (bytes ''Unmasked client frame'')) tr = Some (0, ws_reset ws, tr @ e)"
    "close_trace ws e" by (rule ws_close_obtain [OF E])
  with assms(3-5) show ?thesis by (simp add: ws_frame_def Let_def)
qed

text \<open>
  A call of \<open>ws_frame\<close> that returns has found no complete frame, or one that is not masked, which
  ends the connection, or it dispatches the first frame.
\<close>

lemma ws_frame_rfc:
  assumes E: "posix_send E" and rel: "framing_releasable ws"
    and buf: "read_buffer_offset ws \<le> length (read_buffer ws)" "length (read_buffer ws) < 2 ^ 63"
    and run: "ws_frame E ws tr = Some r"
  obtains (none) "r = (0, ws, tr)" "rfc_decode (pending ws) = None"
  | (unmasked) ext where "r = (0, ws_reset ws, tr @ ext)" "2 \<le> length (pending ws)" "pending ws ! 1 AND 128 = 0"
  | (frame) op p rest n b where "rfc_decode (pending ws) = Some (op, p, rest)" "0 < n"
      "n \<le> read_buffer_offset ws" "rest = drop n (pending ws)" "length b = length (read_buffer ws)"
      "drop n b = drop n (read_buffer ws)"
      "do { (ws1, tr1) \<leftarrow> ws_frame_dispatch E (ws\<lparr>read_buffer := b\<rparr>) op p tr; Some (n, ws1, tr1) } = Some r"
proof (cases "read_buffer_offset ws < 2")
  case True
  then have "rfc_decode (pending ws) = None" by (simp add: rfc_decode_def pending_def min_less_iff_disj)
  with True run none show ?thesis by (simp add: ws_frame_def)
next
  case False
  let ?off = "read_buffer_offset ws"
  have off: "2 \<le> ?off" "?off \<le> length (read_buffer ws)" using False buf by simp_all
  obtain pay m where lay: "rfc_layout (pending ws) = (pay, m)" by (cases "rfc_layout (pending ws)")
  note rfc = ws_frame_layout_rfc [OF off lay [unfolded pending_def]] and dec = rfc_decode_pending [OF off lay]
  consider (short) "ws_frame_layout (read_buffer ws) ?off = Some None"
    | (header) key pay' plen where "ws_frame_layout (read_buffer ws) ?off = Some (Some (key, pay', plen))"
    using rfc by (cases "ws_frame_layout (read_buffer ws) ?off") (auto split: option.splits)
  then show ?thesis
  proof cases
    case short
    with rfc run none dec off show ?thesis by (simp add: ws_frame_def Let_def)
  next
    case L: header
    show ?thesis
    proof (cases "(of_nat ?off :: u64) < of_nat pay' + plen")
      case True
      have "?off < pay + m" if "key = Some k" for k
        using rfc that L True frame_complete_iff [of pay' plen ?off] buf by (cases "pay' + unat plen < 2 ^ 64") auto
      then have "rfc_decode (pending ws) = None" using rfc L dec by (cases key) auto
      then show ?thesis using run none ws_frame_incomplete [OF off(1) L True] by simp
    next
      case complete: False
      show ?thesis
      proof (cases key)
        case None
        have "pending ws ! 1 AND 128 = 0" using rfc L None off by (simp add: pending_def)
        with unmasked run ws_frame_unmasked [OF E rel off(1) L [unfolded None] complete, of tr] off show ?thesis
          by (auto simp: pending_def)
      next
        case k: (Some k)
        then have m: "read_buffer ws ! 1 AND 128 \<noteq> 0" "k + 4 = pay" "pay' = pay" "unat plen = m"
          using rfc L by simp_all
        have k4: "pay - 4 = k" "2 \<le> k" "6 \<le> pay" using m(2) rfc_layout_ge [OF lay] by simp_all
        have "unat (of_nat pay' + plen) \<le> ?off"
          using complete buf by (simp add: word_less_nat_alt unat_of_nat_u64 not_less)
        then have "2 ^ 64 \<le> pay + m \<Longrightarrow> ws_frame E ws tr = None"
          using ws_frame_wrap_overrun [OF off buf(2), of k pay' plen E tr] L k m by simp
        then have "pay + m < 2 ^ 64" using run by (cases "pay + m < 2 ^ 64") auto
        then have n: "pay + m \<le> ?off" using complete frame_complete_iff [of pay' plen ?off] m buf by simp
        define p where "p = mask_bytes (take 4 (drop k (read_buffer ws))) (take m (drop pay (read_buffer ws)))"
        obtain b where b: "length b = length (read_buffer ws)" "drop (pay + m) b = drop (pay + m) (read_buffer ws)"
          "ws_frame E ws tr =
             do { (ws1, tr1) \<leftarrow> ws_frame_dispatch E (ws\<lparr>read_buffer := b\<rparr>) (WS_GET_OP (read_buffer ws ! 0)) p tr;
                  Some (pay + m, ws1, tr1) }"
          using ws_frame_masked [OF off L [unfolded k m(3)] m(2) k4(2), unfolded m(4), OF n _ p_def] buf by auto
        have d: "rfc_decode (pending ws) = Some (WS_GET_OP (read_buffer ws ! 0), p, drop (pay + m) (pending ws))"
          using n m(1) by (simp add: dec WS_GET_OP_def k4(1) p_def)
        show ?thesis by (rule frame [OF d _ n refl b(1,2)]) (use run b(3) k4 in simp_all)
      qed
    qed
  qed
qed

section \<open>The frames of a read\<close>

text \<open>The frames a stream asks for: payloads to the peer, answers to the client.\<close>

definition peer_bytes :: "(u8 \<times> u8 list) list \<Rightarrow> u8 list" where
  "peer_bytes fs = concat (map to_peer fs)"

definition pong_bytes :: "(u8 \<times> u8 list) list \<Rightarrow> u8 list" where
  "pong_bytes fs = concat (map (frame_bytes ws_frame_pong) (pong_payloads fs))"

lemma peer_bytes_simps [simp]:
  "peer_bytes [] = []" "peer_bytes (f # fs) = to_peer f @ peer_bytes fs" "peer_bytes (fs @ gs) = peer_bytes fs @ peer_bytes gs"
  "pong_bytes [] = []" "pong_bytes (fs @ gs) = pong_bytes fs @ pong_bytes gs"
  by (simp_all add: peer_bytes_def pong_bytes_def)

text \<open>Why handling a stream may end the connection.\<close>

definition stream_ends :: "env \<Rightarrow> websocket \<Rightarrow> u8 list \<Rightarrow> bool" where
  "stream_ends E ws bs \<longleftrightarrow>
     (let (fs, rest) = rfc_frames bs in (\<exists>f\<in>set fs. ending E ws f) \<or> 2 \<le> length rest \<and> rest ! 1 AND 128 = 0)"

lemma stream_ends_fields [simp]:
  "stream_ends E (ws\<lparr>read_buffer := b\<rparr>) = stream_ends E ws" "stream_ends E (ws\<lparr>read_buffer_offset := k\<rparr>) = stream_ends E ws"
  "ending E (ws\<lparr>read_buffer := b\<rparr>) = ending E ws" "ending E (ws\<lparr>read_buffer_offset := k\<rparr>) = ending E ws"
  by (simp_all add: fun_eq_iff stream_ends_def ending_def)

lemma stream_ends_Some:
  "rfc_decode bs = Some (op, p, rest) \<Longrightarrow> stream_ends E ws bs \<longleftrightarrow> ending E ws (op, p) \<or> stream_ends E ws rest"
  by (auto simp: stream_ends_def rfc_frames_Some split: prod.splits)

text \<open>
  Handling a read decodes exactly the complete frames and leaves the connection open, or the stream
  gave a reason to end it.
\<close>

lemma ws_data_frames_rfc:
  assumes E: "posix_send E"
  shows "framing_releasable ws \<Longrightarrow> ws_fd ws \<noteq> peer_fd ws \<Longrightarrow> 0 \<le> peer_fd ws \<Longrightarrow>
    read_buffer_offset ws \<le> length (read_buffer ws) \<Longrightarrow> length (read_buffer ws) < 2 ^ 63 \<Longrightarrow>
    ws_data_frames E ws tr = Some (ws', tr') \<Longrightarrow>
    (\<exists>fs b k ext. rfc_frames (pending ws) = (fs, pending ws') \<and> ws' = ws\<lparr>read_buffer := b, read_buffer_offset := k\<rparr> \<and>
      k \<le> read_buffer_offset ws \<and> length b = length (read_buffer ws) \<and>
      tr' = tr @ ext \<and> exchanged ws ext (peer_bytes fs) (pong_bytes fs)) \<or>
    state ws' = ws_closed \<and> stream_ends E ws (pending ws)"
proof (induction "read_buffer_offset ws" arbitrary: ws tr rule: less_induct)
  case less
  note rel = less.prems(1) and fds = less.prems(2,3) and room = less.prems(4,5)
  obtain n ws1 tr1 where fr: "ws_frame E ws tr = Some (n, ws1, tr1)"
    using less.prems(6) by (auto simp: ws_data_frames.simps [of E ws tr] elim!: bind_SomeE)
  note eq = ws_data_frames.simps [of E ws tr, unfolded fr, simplified]
  let ?off = "read_buffer_offset ws"
  show ?case
  proof (cases rule: ws_frame_rfc [OF E rel room fr])
    case 1
    with less.prems(6) have "ws' = ws" "tr' = tr" by (simp_all add: eq)
    with 1 show ?thesis
      by (intro disjI1 exI [of _ "[]"] exI [of _ "read_buffer ws"] exI [of _ ?off]) (simp add: rfc_frames_None)
  next
    case (2 ext)
    then have "rfc_decode (pending ws) = None" by (simp add: rfc_decode_def split: prod.splits)
    with 2 less.prems(6) show ?thesis by (auto simp: eq stream_ends_def rfc_frames_None)
  next
    case (3 op p rest n' buf)
    then have disp: "ws_frame_dispatch E (ws\<lparr>read_buffer := buf\<rparr>) op p tr = Some (ws1, tr1)" and n: "n' = n"
      by (auto elim!: bind_SomeE)
    have relb: "framing_releasable (ws\<lparr>read_buffer := buf\<rparr>)" using rel by (simp add: framing_releasable_def)
    show ?thesis
    proof (cases rule: ws_frame_dispatch_rfc [OF E relb _ _ disp])
      case dead: 4
      then show ?thesis using less.prems(6) by (auto simp: eq stream_ends_Some [OF 3(1)])
    next
      case live: (3 ext)
      let ?b = "take (?off - n) (drop n buf) @ drop (?off - n) buf"
      let ?ws = "ws\<lparr>read_buffer := ?b, read_buffer_offset := ?off - n\<rparr>"
      have lb: "length ?b = length (read_buffer ws)" using 3(3,5) room by (simp add: n)
      have pend: "pending ?ws = rest" using 3(3-6) room by (simp add: pending_def drop_take n)
      have "ws_data_frames E ?ws (tr @ ext) = Some (ws', tr')"
        using less.prems(6) 3(2,3,5) live room by (simp add: eq memmove_front n split: if_splits)
      then have "(\<exists>fs b k e. rfc_frames (pending ?ws) = (fs, pending ws') \<and> ws' = ?ws\<lparr>read_buffer := b, read_buffer_offset := k\<rparr> \<and>
          k \<le> read_buffer_offset ?ws \<and> length b = length (read_buffer ?ws) \<and> tr' = (tr @ ext) @ e \<and>
          exchanged ?ws e (peer_bytes fs) (pong_bytes fs)) \<or> state ws' = ws_closed \<and> stream_ends E ?ws (pending ?ws)"
        by (intro less.hyps) (use 3(2,3) rel fds room lb n in \<open>simp_all add: framing_releasable_def\<close>)
      then consider fs b k e where "rfc_frames rest = (fs, pending ws')" "ws' = ws\<lparr>read_buffer := b, read_buffer_offset := k\<rparr>"
          "k \<le> ?off" "length b = length (read_buffer ws)" "tr' = tr @ ext @ e" "exchanged ws e (peer_bytes fs) (pong_bytes fs)"
        | "state ws' = ws_closed" "stream_ends E ws rest"
        using lb unfolding pend by auto
      then show ?thesis
      proof cases
        case ih: 1
        have "exchanged ws (ext @ e) (peer_bytes ((op, p) # fs)) (pong_bytes ((op, p) # fs))"
          using exchanged_append [OF live(3) [simplified], of e "peer_bytes fs" "pong_bytes fs"] ih(6)
          by (simp add: pong_bytes_def split: if_splits)
        moreover have "rfc_frames (pending ws) = ((op, p) # fs, pending ws')"
          using ih(1) by (simp add: rfc_frames_Some [OF 3(1)])
        ultimately show ?thesis using ih(2-5) by blast
      next
        case 2
        then show ?thesis by (simp add: stream_ends_Some [OF 3(1)])
      qed
    qed (use fds in simp_all)
  qed
qed

text \<open>
  Only a frame that is not complete yet can make the length check wrap, so handling a read is defined
  when the length in the last, partial header does not.
\<close>

definition length_fits :: "u8 list \<Rightarrow> bool" where
  "length_fits bs \<longleftrightarrow> (let (pay, n) = rfc_layout bs in pay + n < 2 ^ 64)"

lemma ws_frame_defined:
  assumes E: "posix_send E" and rel: "framing_releasable ws"
    and buf: "read_buffer_offset ws \<le> length (read_buffer ws)" "length (read_buffer ws) < 2 ^ 63"
    and fits: "length_fits (pending ws)"
  shows "ws_frame E ws tr \<noteq> None"
proof
  assume none: "ws_frame E ws tr = None"
  with ws_frame_cases [OF E rel buf, of "\<lambda>_. True" tr]
  have off: "2 \<le> read_buffer_offset ws" and wrap: "\<not> frame_no_wrap (read_buffer ws) (read_buffer_offset ws)" by auto
  obtain pay n where lay: "rfc_layout (pending ws) = (pay, n)" by (cases "rfc_layout (pending ws)")
  note rfc = ws_frame_layout_rfc [OF off buf(1) lay [unfolded pending_def]]
  obtain key pay' plen where L: "ws_frame_layout (read_buffer ws) (read_buffer_offset ws) = Some (Some (key, pay', plen))"
    "2 ^ 64 \<le> pay' + unat plen"
    using wrap by (auto simp: frame_no_wrap_def split: option.splits)
  show False
  proof (cases key)
    case None
    from ws_frame_unmasked [OF E rel off L(1) [unfolded None], of tr] ws_frame_incomplete [OF off L(1), of E tr] none
    show False by (cases "(of_nat (read_buffer_offset ws) :: u64) < of_nat pay' + plen") auto
  next
    case (Some k)
    with rfc L lay fits show False by (simp add: length_fits_def)
  qed
qed

lemma length_fits_decoded: "rfc_decode bs = Some (op, p, rest) \<Longrightarrow> length bs < 2 ^ 64 \<Longrightarrow> length_fits bs"
  by (auto simp: rfc_decode_def length_fits_def split: if_splits prod.splits)

lemma ws_frame_dispatch_outcome:
  assumes "posix_send E" "framing_releasable ws" "ws_frame_dispatch E ws op p tr = Some (ws', tr')"
  shows "ws' = ws \<or> ws' = ws_reset ws"
proof -
  have "runs (ws_frame_dispatch E ws op p tr) (\<lambda>(ws', tr'). ws' = ws \<or> ws' = ws_reset ws)"
    by (auto simp: ws_frame_dispatch_def intro!: runs_network_send runs_ws_send_frame runs_ws_close assms(1,2))
  with assms(3) show ?thesis by simp
qed

lemma ws_data_frames_defined:
  assumes E: "posix_send E"
  shows "framing_releasable ws \<Longrightarrow>
    read_buffer_offset ws \<le> length (read_buffer ws) \<Longrightarrow> length (read_buffer ws) < 2 ^ 63 \<Longrightarrow>
    length_fits (snd (rfc_frames (pending ws))) \<Longrightarrow> ws_data_frames E ws tr \<noteq> None"
proof (induction "read_buffer_offset ws" arbitrary: ws tr rule: less_induct)
  case less
  note rel = less.prems(1) and room = less.prems(2,3)
  let ?off = "read_buffer_offset ws"
  have "length_fits (pending ws)"
  proof (cases "rfc_decode (pending ws)")
    case None
    with less.prems(4) show ?thesis by (simp add: rfc_frames_None)
  next
    case (Some x)
    then obtain op p r where "rfc_decode (pending ws) = Some (op, p, r)" by (cases x) auto
    then show ?thesis by (rule length_fits_decoded) (use room in \<open>simp add: pending_def\<close>)
  qed
  then obtain n ws1 tr1 where fr: "ws_frame E ws tr = Some (n, ws1, tr1)"
    using ws_frame_defined [OF E rel room] by (metis not_None_eq prod_cases3)
  note eq = ws_data_frames.simps [of E ws tr, unfolded fr, simplified]
  show ?case
  proof (cases rule: ws_frame_rfc [OF E rel room fr])
    case (3 op p rest n' buf)
    then have disp: "ws_frame_dispatch E (ws\<lparr>read_buffer := buf\<rparr>) op p tr = Some (ws1, tr1)" and n: "n' = n"
      by (auto elim!: bind_SomeE)
    have relb: "framing_releasable (ws\<lparr>read_buffer := buf\<rparr>)" using rel by (simp add: framing_releasable_def)
    show ?thesis
      using ws_frame_dispatch_outcome [OF E relb disp]
    proof
      assume live: "ws1 = ws\<lparr>read_buffer := buf\<rparr>"
      let ?b = "take (?off - n) (drop n buf) @ drop (?off - n) buf"
      let ?ws = "ws\<lparr>read_buffer := ?b, read_buffer_offset := ?off - n\<rparr>"
      have lb: "length ?b = length (read_buffer ws)" using 3(3,5) room by (simp add: n)
      have pend: "pending ?ws = rest" using 3(3-6) room by (simp add: pending_def drop_take n)
      have "ws_data_frames E ?ws tr1 \<noteq> None"
      proof (rule less.hyps)
        show "length_fits (snd (rfc_frames (pending ?ws)))"
          using less.prems(4) unfolding pend rfc_frames_Some [OF 3(1)] by (simp split: prod.splits)
      qed (use 3(2,3) rel room lb n in \<open>simp_all add: framing_releasable_def\<close>)
      then show ?thesis using 3(2,3,5) live room by (simp add: eq memmove_front n)
    qed (simp add: eq)
  qed (simp_all add: eq)
qed

section \<open>The event handler\<close>

text \<open>The bytes the kernel delivers to \<open>ws_data\<close>, at most the room in the buffer less one.\<close>

definition client_delivery :: "env \<Rightarrow> websocket \<Rightarrow> trace \<Rightarrow> u8 list option" where
  "client_delivery E ws tr =
     (let len = length (read_buffer ws) - read_buffer_offset ws - 1
      in map_option (take len) (rx E tr (ws_fd ws) len))"

lemma ws_data_hangup:
  assumes E: "posix_send E" and core: "ws_core ws"
    and d: "client_delivery E ws tr = None \<or> client_delivery E ws tr = Some []"
    and off: "read_buffer_offset ws < length (read_buffer ws)"
  shows "runs (ws_data E SV ws tr) (\<lambda>(r, ws', tr'). state ws' = ws_closed)"
proof -
  let ?off = "read_buffer_offset ws" and ?len = "length (read_buffer ws) - read_buffer_offset ws - 1"
  have room: "?off + ?len \<le> length (read_buffer ws)" using off by simp
  have close: "\<exists>u ws' ext. ws_close E ws ws_close_unexpected None (tr @ [(SysRecv (ws_fd ws) ?len, i)]) =
      Some (u, ws', tr @ ext) \<and> state ws' = ws_closed" for i
  proof -
    have "framing_releasable ws" using core by (simp add: ws_core_def peer_sound_releasable)
    from ws_close_obtain [OF E this] show ?thesis by (metis append.assoc ws_reset_fields(3))
  qed
  show ?thesis
    using room
  proof (cases rule: recv_total [of ?off ?len "read_buffer ws" E "ws_fd ws" tr])
    case error
    with close [of "-1"] off show ?thesis by (auto simp: ws_data_def)
  next
    case (data ds)
    then have "ds = []" using d by (auto simp: client_delivery_def Let_def)
    with data(3) close [of 0] off show ?thesis by (auto simp: ws_data_def)
  qed
qed

lemma ws_data_closes:
  assumes "posix_send E" "ws_core ws" "client_delivery E ws tr = None \<or> client_delivery E ws tr = Some []"
    and "read_buffer_offset ws < length (read_buffer ws)" "ws_data E SV ws tr = Some (r, ws', tr')"
  shows "state ws' = ws_closed"
  using ws_data_hangup [OF assms(1-4), of SV] assms(5) by simp

text \<open>The handler of an open connection: the received bytes join the pending ones, then the frames, then the limit.\<close>

definition size_limit :: "env \<Rightarrow> websocket \<times> trace \<Rightarrow> (int \<times> websocket \<times> trace) option" where
  "size_limit E = (\<lambda>(ws3, tr3). if length (read_buffer ws3) - read_buffer_offset ws3 < 2
     then do { (_, ws4, tr4) \<leftarrow> ws_close E ws3 ws_close_limit (Some (bytes ''Receive size limit exceeded'')) tr3;
               Some (0, ws4, tr4) }
     else Some (0, ws3, tr3))"

lemma ws_data_received:
  assumes inv: "ws_inv ws" and st: "state ws = ws_open" and ds: "client_delivery E ws tr = Some ds" "ds \<noteq> []"
  obtains buf k where "pending (ws\<lparr>read_buffer := buf, read_buffer_offset := k\<rparr>) = pending ws @ ds"
    "length buf = WS_MAX_LINE" "k < length buf"
    "ws_data E SV ws tr = Option.bind (ws_data_frames E (ws\<lparr>read_buffer := buf, read_buffer_offset := k\<rparr>)
       (tr @ [(SysRecv (ws_fd ws) (length (read_buffer ws) - read_buffer_offset ws - 1), int (length ds))])) (size_limit E)"
proof -
  let ?off = "read_buffer_offset ws" and ?len = "length (read_buffer ws) - read_buffer_offset ws - 1" and ?k = "length ds"
  have len: "length (read_buffer ws) = WS_MAX_LINE" and in_off: "?off < length (read_buffer ws)"
    using inv by (simp_all add: ws_inv_def ws_core_def)
  have k: "?off + ?k < length (read_buffer ws)" using ds(1) in_off by (auto simp: client_delivery_def Let_def)
  let ?buf = "(take ?off (read_buffer ws) @ ds @ drop (?off + ?k) (read_buffer ws))[?off + ?k := 0]"
  have rc: "recv E (ws_fd ws) (read_buffer ws) ?off ?len tr =
      Some (int ?k, take ?off (read_buffer ws) @ ds @ drop (?off + ?k) (read_buffer ws),
        tr @ [(SysRecv (ws_fd ws) ?len, int ?k)])"
    using ds(1) in_off by (auto simp: recv_def put_def Let_def client_delivery_def)
  show ?thesis
  proof (rule that [of "?off + ?k" ?buf])
    show "pending (ws\<lparr>read_buffer := ?buf, read_buffer_offset := ?off + ?k\<rparr>) = pending ws @ ds"
      using k by (simp add: pending_def list_update_append)
    show "ws_data E SV ws tr = Option.bind (ws_data_frames E (ws\<lparr>read_buffer := ?buf, read_buffer_offset := ?off + ?k\<rparr>)
       (tr @ [(SysRecv (ws_fd ws) ?len, int ?k)])) (size_limit E)"
      using rc st ds(2) in_off k by (simp add: ws_data_def size_limit_def case_prod_beta)
  qed (use k len in simp_all)
qed

text \<open>
  An open connection on which data arrives: all complete frames are handled and the rest is kept, or
  the connection is closed, because the stream, a failing send, or the size of what is left asks for it.
\<close>

lemma ws_data_rfc:
  assumes E: "posix_send E" and inv: "ws_inv ws" and st: "state ws = ws_open" and fds: "ws_fd ws \<noteq> peer_fd ws"
    and ds: "client_delivery E ws tr = Some ds" "ds \<noteq> []" and run: "ws_data E SV ws tr = Some (r, ws', tr')"
  obtains (remains) fs b k ext where "rfc_frames (pending ws @ ds) = (fs, pending ws')"
      "ws' = ws\<lparr>read_buffer := b, read_buffer_offset := k\<rparr>" "r = 0"
      "tr' = tr @ (SysRecv (ws_fd ws) (length (read_buffer ws) - read_buffer_offset ws - 1), int (length ds)) # ext"
      "exchanged ws ext (peer_bytes fs) (pong_bytes fs)"
  | (closed) "state ws' = ws_closed"
      "stream_ends E ws (pending ws @ ds) \<or> WS_MAX_LINE < length (snd (rfc_frames (pending ws @ ds))) + 2"
proof -
  let ?r = "(SysRecv (ws_fd ws) (length (read_buffer ws) - read_buffer_offset ws - 1), int (length ds))"
  obtain buf k where pend: "pending (ws\<lparr>read_buffer := buf, read_buffer_offset := k\<rparr>) = pending ws @ ds"
    and len: "length buf = WS_MAX_LINE" "k < length buf"
    and eq: "ws_data E SV ws tr = Option.bind (ws_data_frames E (ws\<lparr>read_buffer := buf, read_buffer_offset := k\<rparr>)
       (tr @ [?r])) (size_limit E)"
    by (rule ws_data_received [OF inv st ds])
  let ?w = "ws\<lparr>read_buffer := buf, read_buffer_offset := k\<rparr>"
  have fd: "0 \<le> peer_fd ws" and rel: "framing_releasable ?w" and small: "length (read_buffer ?w) < 2 ^ 63"
    using inv st len peer_sound_releasable [of ws]
    by (simp_all add: ws_inv_def ws_core_def framing_releasable_def WS_MAX_LINE_def)
  obtain ws3 tr3 where fr: "ws_data_frames E ?w (tr @ [?r]) = Some (ws3, tr3)" and fin: "size_limit E (ws3, tr3) = Some (r, ws', tr')"
    using run by (auto simp: eq elim!: bind_SomeE)
  have fin': "ws' = ws3 \<and> tr' = tr3 \<and> r = 0 \<or> state ws' = ws_closed \<and> length (read_buffer ws3) < read_buffer_offset ws3 + 2"
    using fin by (auto simp: size_limit_def ws_close_def Let_def elim!: bind_SomeE split: if_splits)
  from ws_data_frames_rfc [OF E rel _ _ _ small fr]
  consider fs b j ext where "rfc_frames (pending ws @ ds) = (fs, pending ws3)" "ws3 = ws\<lparr>read_buffer := b, read_buffer_offset := j\<rparr>"
      "j \<le> length b" "length b = WS_MAX_LINE" "tr3 = tr @ ?r # ext" "exchanged ws ext (peer_bytes fs) (pong_bytes fs)"
    | "state ws3 = ws_closed" "stream_ends E ws (pending ws @ ds)"
    using fds fd len unfolding pend by auto
  then show ?thesis
  proof cases
    case 1
    have "length (pending ws3) = j" using 1(2,3) by (simp add: pending_def)
    with 1 fin' remains closed show ?thesis by auto
  next
    case 2
    with fin' closed show ?thesis by auto
  qed
qed

lemma ws_data_defined:
  assumes E: "posix_send E" and inv: "ws_inv ws" and st: "state ws = ws_open"
    and ds: "client_delivery E ws tr = Some ds" "ds \<noteq> []" and fits: "length_fits (snd (rfc_frames (pending ws @ ds)))"
  shows "ws_data E SV ws tr \<noteq> None"
proof -
  let ?r = "(SysRecv (ws_fd ws) (length (read_buffer ws) - read_buffer_offset ws - 1), int (length ds))"
  obtain buf k where pend: "pending (ws\<lparr>read_buffer := buf, read_buffer_offset := k\<rparr>) = pending ws @ ds"
    and len: "length buf = WS_MAX_LINE" "k < length buf"
    and eq: "ws_data E SV ws tr = Option.bind (ws_data_frames E (ws\<lparr>read_buffer := buf, read_buffer_offset := k\<rparr>)
       (tr @ [?r])) (size_limit E)"
    by (rule ws_data_received [OF inv st ds])
  let ?w = "ws\<lparr>read_buffer := buf, read_buffer_offset := k\<rparr>"
  have core: "ws_core ?w" using inv st len lines_step_setters [of ws buf k] by (simp_all add: ws_inv_def ws_core_def)
  have "framing_releasable ?w" using core by (simp add: ws_core_def peer_sound_releasable)
  then have "ws_data_frames E ?w (tr @ [?r]) \<noteq> None"
    by (intro ws_data_frames_defined E) (use len fits in \<open>simp_all add: pend WS_MAX_LINE_def\<close>)
  then have "runs (ws_data_frames E ?w (tr @ [?r])) (\<lambda>(ws3, tr3). ws_core ws3)"
    using ws_data_frames_cases [OF E core, of "\<lambda>(ws3, tr3). ws_core ws3" "tr @ [?r]"] len by (auto simp: data_step_def)
  moreover have "runs (size_limit E (ws3, tr3)) (\<lambda>_. True)" if "ws_core ws3" for ws3 tr3
    using runs_size_limit [OF E that, of "\<lambda>_. True" tr3] by (simp add: size_limit_def)
  ultimately show ?thesis unfolding eq by (fastforce simp: runs_def)
qed

text \<open>
  Behind the complete frames, an open connection receives a header whose length and layout do not fit
  into 64 bits together.
\<close>

definition wrapping_frame :: "env \<Rightarrow> websocket \<Rightarrow> trace \<Rightarrow> bool" where
  "wrapping_frame E ws tr \<longleftrightarrow>
     state ws = ws_open \<and>
     (case client_delivery E ws tr of
        None \<Rightarrow> False
      | Some ds \<Rightarrow> ds \<noteq> [] \<and> \<not> length_fits (snd (rfc_frames (pending ws @ ds))))"

lemma runs_ws_data_stream:
  assumes E: "posix_send E" "services_ok SV" and inv: "ws_inv ws" and input: "\<not> wrapping_frame E ws tr"
    and Q: "\<And>ext ws'. event_done ws ext ws' \<Longrightarrow> Q (0, ws', tr @ ext)"
  shows "runs (ws_data E SV ws tr) Q"
proof -
  have core: "ws_core ws" "read_buffer_offset ws < length (read_buffer ws)"
    using inv by (simp_all add: ws_inv_def ws_core_def)
  have "ws_data E SV ws tr \<noteq> None" if "\<not> tame_input E ws tr"
  proof (cases "client_delivery E ws tr = None \<or> client_delivery E ws tr = Some []")
    case True
    from ws_data_hangup [OF E(1) core(1) this core(2), of SV] show ?thesis by (auto simp: runs_def)
  next
    case False
    then obtain ds where ds: "client_delivery E ws tr = Some ds" "ds \<noteq> []" by auto
    have "state ws = ws_open" using that by (auto simp: tame_input_def Let_def split: option.splits)
    from ws_data_defined [OF E(1) inv this ds, of SV] this input ds show ?thesis by (simp add: wrapping_frame_def)
  qed
  with ws_data_cases [OF E inv, where Q = Q and tr = tr, OF Q] show ?thesis by blast
qed

text \<open>When the stream gives no reason to end the connection, it is handled and the connection stays open.\<close>

lemma ws_data_complete:
  assumes "posix_send E" "ws_inv ws" "state ws = ws_open" "ws_fd ws \<noteq> peer_fd ws"
    and "client_delivery E ws tr = Some ds" "ds \<noteq> []" "rfc_frames (pending ws @ ds) = (fs, rest)"
    and "\<forall>f\<in>set fs. fst f \<in> {1, 2, 9, 10}" "2 \<le> length rest \<longrightarrow> rest ! 1 AND 128 \<noteq> 0"
    and "length rest + 2 \<le> WS_MAX_LINE" "length_fits rest"
    and "\<not> send_fails E (ws_fd ws)" "\<not> send_fails E (peer_fd ws)"
  shows "\<exists>b k ext. ws_data E SV ws tr = Some (0, ws\<lparr>read_buffer := b, read_buffer_offset := k\<rparr>,
      tr @ (SysRecv (ws_fd ws) (length (read_buffer ws) - read_buffer_offset ws - 1), int (length ds)) # ext) \<and>
    pending (ws\<lparr>read_buffer := b, read_buffer_offset := k\<rparr>) = rest \<and> exchanged ws ext (peer_bytes fs) (pong_bytes fs)"
proof -
  have "ws_data E SV ws tr \<noteq> None" by (rule ws_data_defined [OF assms(1-3,5,6)]) (simp add: assms(7,11))
  then obtain r ws' tr' where run: "ws_data E SV ws tr = Some (r, ws', tr')" by auto
  have stays: "\<not> stream_ends E ws (pending ws @ ds)"
    using assms(7-9,12,13) by (auto simp: stream_ends_def ending_def)
  show ?thesis
    by (cases rule: ws_data_rfc [OF assms(1-6) run]) (use run stays assms(7,10) in auto)
qed

lemma ws_data_open:
  assumes E: "posix_send E" and inv: "ws_inv ws" and st: "state ws = ws_open" and fds: "ws_fd ws \<noteq> peer_fd ws"
    and run: "ws_data E SV ws tr = Some (r, ws', tr')" "state ws' \<noteq> ws_closed"
  obtains ds fs b k ext where "client_delivery E ws tr = Some ds" "ds \<noteq> []"
    "rfc_frames (pending ws @ ds) = (fs, pending ws')" "ws' = ws\<lparr>read_buffer := b, read_buffer_offset := k\<rparr>"
    "tr' = tr @ (SysRecv (ws_fd ws) (length (read_buffer ws) - read_buffer_offset ws - 1), int (length ds)) # ext"
    "exchanged ws ext (peer_bytes fs) (pong_bytes fs)"
proof -
  have core: "ws_core ws" "read_buffer_offset ws < length (read_buffer ws)" using inv by (simp_all add: ws_inv_def ws_core_def)
  obtain ds where ds: "client_delivery E ws tr = Some ds" "ds \<noteq> []"
    using ws_data_closes [OF E core(1) _ core(2) run(1)] run(2) by (cases "client_delivery E ws tr") auto
  show ?thesis by (cases rule: ws_data_rfc [OF E inv st fds ds run(1)]) (use that ds run(2) in auto)
qed

end
