(* ===== verification/Handshake_Run.thy ===== *)
theory Handshake_Run
  imports Client_Stream
begin

text \<open>
  A complete opening handshake that arrives in one read: the splitting into lines, the effects of the
  headers in order, and the upgrade.
\<close>

section \<open>The text of a request\<close>

definition request_text :: "cstring list \<Rightarrow> u8 list" where
  "request_text lines = concat (map (\<lambda>l. l @ crlf) lines)"

lemma request_text_simps [simp]:
  "request_text [] = []" "request_text (l # ls) = l @ crlf @ request_text ls"
  by (simp_all add: request_text_def)

text \<open>A header line the server accepts: it starts with the name and has a colon.\<close>

definition http_header :: "cstring \<Rightarrow> bool" where
  "http_header l \<longleftrightarrow> 0 \<notin> set l \<and> 13 \<notin> set l \<and> l \<noteq> [] \<and> \<not> isspace (hd l) \<and> 58 \<in> set l"

definition header_line_effect :: "cstring \<Rightarrow> websocket \<Rightarrow> websocket" where
  "header_line_effect l ws = (case header_line l of None \<Rightarrow> ws | Some (n, v) \<Rightarrow> header_effect n v ws)"

definition headers_effect :: "cstring list \<Rightarrow> websocket \<Rightarrow> websocket" where
  "headers_effect ls ws = fold header_line_effect ls ws"

lemma headers_effect_simps [simp]:
  "headers_effect [] ws = ws" "headers_effect (l # ls) ws = headers_effect ls (header_line_effect l ws)"
  by (simp_all add: headers_effect_def)

text \<open>Headers do not touch the buffer, and what they do does not depend on it.\<close>

lemma buffer_order: "ws\<lparr>read_buffer_offset := k, read_buffer := b\<rparr> = ws\<lparr>read_buffer := b, read_buffer_offset := k\<rparr>"
  by (cases ws) simp

lemma header_effect_buffer:
  "header_effect n v (ws\<lparr>read_buffer := b, read_buffer_offset := k\<rparr>) =
     (header_effect n v ws)\<lparr>read_buffer := b, read_buffer_offset := k\<rparr>"
  by (simp add: header_effect_def)

lemma header_line_effect_buffer:
  "header_line_effect l (ws\<lparr>read_buffer := b, read_buffer_offset := k\<rparr>) =
     (header_line_effect l ws)\<lparr>read_buffer := b, read_buffer_offset := k\<rparr>"
  by (simp add: header_line_effect_def header_effect_buffer split: option.split)

lemma headers_effect_buffer:
  "headers_effect ls (ws\<lparr>read_buffer := b, read_buffer_offset := k\<rparr>) =
     (headers_effect ls ws)\<lparr>read_buffer := b, read_buffer_offset := k\<rparr>"
  by (induction ls arbitrary: ws) (simp_all add: header_line_effect_buffer)

lemma header_line_effect_frame [simp]:
  "ws_fd (header_line_effect l ws) = ws_fd ws" "state (header_line_effect l ws) = state ws"
  by (simp_all add: header_line_effect_def split: option.split)

lemma headers_effect_frame [simp]:
  "ws_fd (headers_effect ls ws) = ws_fd ws" "state (headers_effect ls ws) = state ws"
  by (induction ls arbitrary: ws) simp_all

lemma client_connect_buffer:
  "client_connect E SV (ws\<lparr>read_buffer := b, read_buffer_offset := k\<rparr>) tr =
     map_option (\<lambda>(r, ws1, tr1). (r, ws1\<lparr>read_buffer := b, read_buffer_offset := k\<rparr>, tr1)) (client_connect E SV ws tr)"
proof (cases "cfg_query SV (request_path ws) (protocol ws) (header ws)")
  case (Some q)
  obtain p path where q: "q = (p, path)" by (cases q)
  show ?thesis
  proof (cases "host p")
    case (Some h)
    define p1 where "p1 = (if framing p = None then p\<lparr>framing := Some framing_auto\<rparr> else p)"
    have unfold: "client_connect E SV ws' tr =
        do { p2 \<leftarrow> client_complete_peer p1 h;
             let ws2 = ws'\<lparr>request_path := path, peer := p2\<rparr>;
             if (transport p2 = peer_tcp_client \<or> transport p2 = peer_udp_client) \<and> port p2 = None
             then Some (1, ws2, tr)
             else do {
               h' \<leftarrow> host p2;
               (r, tr1) \<leftarrow> client_open_peer E (transport p2) h' (port p2) tr;
               case r of
                 None \<Rightarrow> Some (1, ws2, tr1)
               | Some fd \<Rightarrow> Some (if fd = -1 then 1 else 0, ws2\<lparr>peer_fd := fd\<rparr>, tr1) } }"
      if "request_path ws' = request_path ws" "protocol ws' = protocol ws" "header ws' = header ws" for ws'
      unfolding client_connect_def that \<open>cfg_query SV _ _ _ = _\<close> q by (simp add: Some Let_def p1_def)
    show ?thesis
    proof (cases "client_complete_peer p1 h")
      case (Some p2)
      then show ?thesis
        by (cases "host p2"; cases "client_open_peer E (transport p2) (the (host p2)) (port p2) tr")
          (simp_all add: unfold Let_def split: prod.split option.split)
    qed (simp add: unfold)
  qed (simp add: client_connect_def \<open>cfg_query SV _ _ _ = _\<close> q Let_def)
qed (simp add: client_connect_def)

section \<open>Splitting into lines\<close>

text \<open>The first line of the buffer is handled, and the rest moved to the front.\<close>

lemma ws_data_lines_line:
  assumes buf: "read_buffer ws = line @ crlf @ r @ junk" and off: "read_buffer_offset ws = 0" and cr: "13 \<notin> set line"
  shows "ws_data_lines E SV ws (length (line @ crlf @ r)) 0 tr =
    do { (ws1, tr1) \<leftarrow> ws_handle_line E SV (ws\<lparr>read_buffer := line @ 0 # 10 # r @ junk\<rparr>) tr;
         buf2 \<leftarrow> memmove (read_buffer ws1) 0 (read_buffer_offset ws1 + length line + 2) (length r);
         ws_data_lines E SV (ws1\<lparr>read_buffer := buf2, read_buffer_offset := 0\<rparr>) (length r) 0 tr1 }"
proof -
  have crlf: "crlf = [13, 10]" by (simp add: crlf_def)
  have at: "strncmp_eq (read_buffer ws) n crlf = Some (n = length line)" if "n \<le> length line" for n
  proof -
    have "rd (read_buffer ws) n = Some (if n = length line then 13 else line ! n)"
      "n = length line \<Longrightarrow> rd (read_buffer ws) (Suc n) = Some 10"
      using that by (simp_all add: buf crlf nth_append Suc_diff_le)
    moreover have "n \<noteq> length line \<Longrightarrow> line ! n \<noteq> 13"
      using that cr nth_mem [of n line] by fastforce
    ultimately show ?thesis by (simp add: crlf)
  qed
  have skip: "ws_data_lines E SV ws (length (line @ crlf @ r)) n tr =
      ws_data_lines E SV ws (length (line @ crlf @ r)) (length line) tr" if "n \<le> length line" for n
    using that
  proof (induction "length line - n" arbitrary: n)
    case (Suc k)
    then have n: "n + 1 \<le> length line" "n \<noteq> length line" "n + 1 < length (line @ crlf @ r)" by (auto simp: crlf)
    with Suc.hyps Suc.prems at [of n] show ?case
      by (subst ws_data_lines.simps) (simp add: off)
  qed simp
  have n: "length line + 1 < length (line @ crlf @ r)" "length (line @ crlf @ r) - (length line + 2) = length r"
    by (simp_all add: crlf)
  have w: "wr (read_buffer ws) (length line) 0 = Some (line @ 0 # 10 # r @ junk)"
    by (simp add: buf crlf list_update_append)
  show ?thesis
    unfolding skip [OF le0]
    by (subst ws_data_lines.simps) (simp only: n off add_0 at [OF order.refl] w if_True if_False Option.bind.simps simp_thms Let_def)
qed

lemma memmove_next:
  assumes "length J = length line"
  shows "\<exists>junk'. memmove (J @ 0 # 10 # r @ junk) 0 (0 + length line + 2) (length r) = Some (r @ junk') \<and>
    length (r @ junk') = length (J @ 0 # 10 # r @ junk)"
proof -
  have "memmove (J @ 0 # 10 # r @ junk) 0 (0 + length line + 2) (length r) =
      Some (r @ drop (length r) (J @ 0 # 10 # r @ junk))"
    by (subst memmove_front) (simp_all add: assms flip: assms)
  then show ?thesis by (intro exI [of _ "drop (length r) (J @ 0 # 10 # r @ junk)"]) simp
qed

text \<open>The request line and a header: the connection changes as the line says, and the rest is in front.\<close>

lemma ws_data_lines_request:
  assumes "state ws = ws_new" "request_line line = Some path" "0 \<notin> set line" "13 \<notin> set line"
  shows "\<exists>junk'. ws_data_lines E SV (ws\<lparr>read_buffer := line @ crlf @ r @ junk, read_buffer_offset := 0\<rparr>)
      (length (line @ crlf @ r)) 0 tr =
    ws_data_lines E SV (ws\<lparr>state := ws_http, request_path := Some path, read_buffer := r @ junk', read_buffer_offset := 0\<rparr>)
      (length r) 0 tr \<and> length (r @ junk') = length (line @ crlf @ r @ junk)"
proof -
  let ?ws = "ws\<lparr>read_buffer_offset := 0, read_buffer := line @ 0 # 10 # r @ junk\<rparr>"
  obtain J where J: "length J = length line"
    "ws_handle_new ?ws = Some (case request_line line of
        None \<Rightarrow> (1, ?ws\<lparr>read_buffer := J @ 0 # 10 # r @ junk\<rparr>)
      | Some path \<Rightarrow> (0, ?ws\<lparr>read_buffer := J @ 0 # 10 # r @ junk, state := ws_http, request_path := Some path\<rparr>))"
    by (rule ws_handle_new_spec [of ?ws line "r @ junk"]) (simp_all add: assms)
  obtain junk' where mm: "memmove (J @ 0 # 10 # r @ junk) 0 (0 + length line + 2) (length r) = Some (r @ junk')"
    "length (r @ junk') = length (J @ 0 # 10 # r @ junk)" using memmove_next [OF J(1)] by blast
  have fields: "ws\<lparr>state := s, request_path := p, read_buffer := b, read_buffer_offset := 0\<rparr> =
      ws\<lparr>state := s, request_path := p, read_buffer_offset := 0, read_buffer := b\<rparr>" for s p b
    by (cases ws) simp
  have "ws_data_lines E SV (ws\<lparr>read_buffer := line @ crlf @ r @ junk, read_buffer_offset := 0\<rparr>)
      (length (line @ crlf @ r)) 0 tr =
    ws_data_lines E SV (ws\<lparr>state := ws_http, request_path := Some path, read_buffer := r @ junk', read_buffer_offset := 0\<rparr>)
      (length r) 0 tr"
    by (subst ws_data_lines_line [where r = r and junk = junk])
      (use assms J(2) mm(1) in \<open>simp_all add: ws_handle_line_def fields\<close>)
  moreover have "length (r @ junk') = length (line @ crlf @ r @ junk)"
    using mm(2) J(1) by (simp add: crlf_def)
  ultimately show ?thesis by blast
qed

lemma ws_data_lines_header:
  assumes "state ws = ws_http" "http_header line"
  shows "\<exists>junk'. ws_data_lines E SV (ws\<lparr>read_buffer := line @ crlf @ r @ junk, read_buffer_offset := 0\<rparr>)
      (length (line @ crlf @ r)) 0 tr =
    ws_data_lines E SV ((header_line_effect line ws)\<lparr>read_buffer := r @ junk', read_buffer_offset := 0\<rparr>)
      (length r) 0 tr \<and> length (r @ junk') = length (line @ crlf @ r @ junk)"
proof -
  let ?ws = "ws\<lparr>read_buffer_offset := 0, read_buffer := line @ 0 # 10 # r @ junk\<rparr>"
  have h: "0 \<notin> set line" "13 \<notin> set line" "\<not> isspace (hd line)" "58 \<in> set line"
    using assms(2) by (auto simp: http_header_def)
  obtain c cs where c: "line = c # cs" "\<not> isspace c" using assms(2) by (cases line) (auto simp: http_header_def)
  obtain name val where nv: "header_line line = Some (name, val)"
    using h(4) header_line_None [of line] by (cases "header_line line") auto
  obtain J where J: "length J = length line"
    "ws_handle_http E SV ?ws tr = Some (0, header_effect name val (?ws\<lparr>read_buffer := J @ 0 # 10 # r @ junk\<rparr>), tr)"
    by (rule ws_handle_http_header [of ?ws line "10 # r @ junk", OF _ h(1) c nv]) simp_all
  have eff: "header_effect name val (ws\<lparr>read_buffer_offset := 0, read_buffer := J @ 0 # 10 # r @ junk\<rparr>) =
      (header_line_effect line ws)\<lparr>read_buffer := J @ 0 # 10 # r @ junk, read_buffer_offset := 0\<rparr>"
    using header_effect_buffer [where n = name and v = val and ws = ws and b = "J @ 0 # 10 # r @ junk" and k = 0]
    by (simp add: header_line_effect_def nv buffer_order)
  obtain junk' where mm: "memmove (J @ 0 # 10 # r @ junk) 0 (0 + length line + 2) (length r) = Some (r @ junk')"
    "length (r @ junk') = length (J @ 0 # 10 # r @ junk)" using memmove_next [OF J(1)] by blast
  have "ws_data_lines E SV (ws\<lparr>read_buffer := line @ crlf @ r @ junk, read_buffer_offset := 0\<rparr>)
      (length (line @ crlf @ r)) 0 tr =
    ws_data_lines E SV ((header_line_effect line ws)\<lparr>read_buffer := r @ junk', read_buffer_offset := 0\<rparr>)
      (length r) 0 tr"
    by (subst ws_data_lines_line [where r = r and junk = junk])
      (use assms(1) h(2) J(2) mm(1) in \<open>simp_all add: ws_handle_line_def eff\<close>)
  moreover have "length (r @ junk') = length (line @ crlf @ r @ junk)"
    using mm(2) J(1) by (simp add: crlf_def)
  ultimately show ?thesis by blast
qed

lemma ws_data_lines_headers:
  assumes "\<forall>l\<in>set lines. http_header l" "state ws = ws_http"
  shows "\<exists>junk'. ws_data_lines E SV (ws\<lparr>read_buffer := request_text (lines @ rest) @ junk, read_buffer_offset := 0\<rparr>)
      (length (request_text (lines @ rest))) 0 tr =
    ws_data_lines E SV ((headers_effect lines ws)\<lparr>read_buffer := request_text rest @ junk', read_buffer_offset := 0\<rparr>)
      (length (request_text rest)) 0 tr \<and>
    length (request_text rest @ junk') = length (request_text (lines @ rest) @ junk)"
  using assms
proof (induction lines arbitrary: ws junk)
  case (Cons l lines)
  let ?r = "request_text (lines @ rest)"
  have l: "http_header l" using Cons.prems(1) by simp
  obtain junk1 where 1: "ws_data_lines E SV (ws\<lparr>read_buffer := l @ crlf @ ?r @ junk, read_buffer_offset := 0\<rparr>)
      (length (l @ crlf @ ?r)) 0 tr =
    ws_data_lines E SV ((header_line_effect l ws)\<lparr>read_buffer := ?r @ junk1, read_buffer_offset := 0\<rparr>) (length ?r) 0 tr"
    "length (?r @ junk1) = length (l @ crlf @ ?r @ junk)"
    using ws_data_lines_header [OF Cons.prems(2) l] by blast
  from Cons.IH [of "header_line_effect l ws" junk1] Cons.prems 1 show ?case by auto
qed auto

section \<open>The whole handshake\<close>

text \<open>The request line and the headers of a request whose empty line is still to be handled.\<close>

lemma ws_data_lines_head:
  assumes "state ws = ws_new" "request_line first = Some path" "0 \<notin> set first" "13 \<notin> set first"
    and "\<forall>l\<in>set lines. http_header l"
    and w: "w = headers_effect lines (ws\<lparr>state := ws_http, request_path := Some path\<rparr>)"
  defines "text \<equiv> request_text (first # lines @ [[]])"
  shows "\<exists>junk'. ws_data_lines E SV (ws\<lparr>read_buffer := text @ junk, read_buffer_offset := 0\<rparr>) (length text) 0 tr =
      ws_data_lines E SV (w\<lparr>read_buffer := crlf @ junk', read_buffer_offset := 0\<rparr>) (length crlf) 0 tr \<and>
    length (crlf @ junk') = length (text @ junk)"
proof -
  let ?rest = "request_text (lines @ [[]])" and ?http = "ws\<lparr>state := ws_http, request_path := Some path\<rparr>"
  obtain junk1 where 1: "ws_data_lines E SV (ws\<lparr>read_buffer := first @ crlf @ ?rest @ junk, read_buffer_offset := 0\<rparr>)
      (length (first @ crlf @ ?rest)) 0 tr =
    ws_data_lines E SV (?http\<lparr>read_buffer := ?rest @ junk1, read_buffer_offset := 0\<rparr>) (length ?rest) 0 tr"
    "length (?rest @ junk1) = length (first @ crlf @ ?rest @ junk)"
    using ws_data_lines_request [OF assms(1-4)] by blast
  obtain junk2 where 2: "ws_data_lines E SV (?http\<lparr>read_buffer := ?rest @ junk1, read_buffer_offset := 0\<rparr>)
      (length ?rest) 0 tr =
    ws_data_lines E SV (w\<lparr>read_buffer := crlf @ junk2, read_buffer_offset := 0\<rparr>) (length crlf) 0 tr"
    "length (crlf @ junk2) = length (?rest @ junk1)"
    using ws_data_lines_headers [OF assms(5), where ws = ?http and rest = "[[]]" and junk = junk1]
    unfolding w by (fastforce simp: request_text_def)
  from 1 2 show ?thesis by (intro exI [of _ junk2]) (simp add: text_def)
qed

text \<open>The empty line: the connection is upgraded, and nothing is left in the buffer.\<close>

lemma ws_data_lines_upgrade:
  assumes E: "posix_send E" "\<not> send_fails E (ws_fd w)" "services_total SV" and st: "state w = ws_http"
    and fits: "key_fits SV key"
    and ready: "websocket_version w = 13" "socket_key w = Some key" "want_upgrade w = 3"
    and conn: "client_connect E SV w tr = Some (0, w1, tr1)"
  shows "\<exists>ext. ws_data_lines E SV (w\<lparr>read_buffer := crlf @ junk, read_buffer_offset := 0\<rparr>) (length crlf) 0 tr =
      Some (w1\<lparr>state := ws_open, read_buffer := 0 # 10 # junk, read_buffer_offset := 0\<rparr>, 0, tr1 @ ext) \<and>
    sent_on (ws_fd w) ext = upgrade_response SV key (protocol w) (peer_protocol (peer w1))"
proof -
  let ?w = "w\<lparr>read_buffer := 0 # 10 # junk, read_buffer_offset := 0\<rparr>"
  have "client_connect E SV ?w tr = Some (0, w1\<lparr>read_buffer := 0 # 10 # junk, read_buffer_offset := 0\<rparr>, tr1)"
    unfolding client_connect_buffer conn by simp
  from ws_upgrade_http_reliable [OF E(1) _ E(3) fits _ _ _ this] E(2) ready obtain ext where
    up: "ws_upgrade_http E SV ?w tr =
      Some (0, w1\<lparr>read_buffer := 0 # 10 # junk, read_buffer_offset := 0, state := ws_open\<rparr>, tr1 @ ext)"
    "sent_on (ws_fd w) ext = upgrade_response SV key (protocol w) (peer_protocol (peer w1))"
    by auto
  have "ws_data_lines E SV (w\<lparr>read_buffer := crlf @ junk, read_buffer_offset := 0\<rparr>) (length crlf) 0 tr =
    do { (ws1, tr1) \<leftarrow> ws_handle_line E SV ?w tr;
         buf2 \<leftarrow> memmove (read_buffer ws1) 0 (read_buffer_offset ws1 + 0 + 2) 0;
         ws_data_lines E SV (ws1\<lparr>read_buffer := buf2, read_buffer_offset := 0\<rparr>) 0 0 tr1 }"
    using ws_data_lines_line [where line = "[]" and r = "[]" and junk = junk and tr = tr and E = E and SV = SV
        and ws = "w\<lparr>read_buffer := crlf @ junk, read_buffer_offset := 0\<rparr>"]
    by (simp add: buffer_order)
  also have "ws_handle_line E SV ?w tr =
      Some (w1\<lparr>read_buffer := 0 # 10 # junk, read_buffer_offset := 0, state := ws_open\<rparr>, tr1 @ ext)"
    using up(1) by (simp add: ws_handle_line_def st ws_handle_http_empty)
  finally show ?thesis
    using up(2) by (simp add: memmove_front numeral_2_eq_2 ws_data_lines.simps)
qed

text \<open>When the accept key does not fit, the handling of the empty line is undefined.\<close>

lemma ws_data_lines_overrun:
  assumes E: "posix_send E" "\<not> send_fails E (ws_fd w)" and st: "state w = ws_http"
    and unfit: "\<not> key_fits SV key"
    and ready: "websocket_version w = 13" "socket_key w = Some key" "want_upgrade w = 3"
    and conn: "client_connect E SV w tr = Some (0, w1, tr1)"
  shows "ws_data_lines E SV (w\<lparr>read_buffer := crlf @ junk, read_buffer_offset := 0\<rparr>) (length crlf) 0 tr = None"
proof -
  let ?w = "w\<lparr>read_buffer := 0 # 10 # junk, read_buffer_offset := 0\<rparr>"
  have "client_connect E SV ?w tr = Some (0, w1\<lparr>read_buffer := 0 # 10 # junk, read_buffer_offset := 0\<rparr>, tr1)"
    unfolding client_connect_buffer conn by simp
  from ws_upgrade_http_overrun [OF E(1) _ _ _ _ this unfit] E(2) ready
  have "ws_upgrade_http E SV ?w tr = None" by simp
  then have "ws_handle_line E SV ?w tr = None" by (simp add: ws_handle_line_def st ws_handle_http_empty)
  with ws_data_lines_line [where line = "[]" and r = "[]" and junk = junk and tr = tr and E = E and SV = SV
        and ws = "w\<lparr>read_buffer := crlf @ junk, read_buffer_offset := 0\<rparr>"]
  show ?thesis by (simp add: buffer_order)
qed

text \<open>A read that delivers the text to a new connection.\<close>

lemma ws_data_received_new:
  assumes "state ws = ws_new" "read_buffer_offset ws = 0" "length (read_buffer ws) = WS_MAX_LINE"
    and "rx E tr (ws_fd ws) (WS_MAX_LINE - 1) = Some text" "length text < WS_MAX_LINE" "text \<noteq> []"
  obtains junk where "length (text @ junk) = WS_MAX_LINE"
    "ws_data E SV ws tr = Option.bind
       (ws_data_lines E SV (ws\<lparr>read_buffer := text @ junk, read_buffer_offset := 0\<rparr>) (length text) 0
         (tr @ [(SysRecv (ws_fd ws) (WS_MAX_LINE - 1), int (length text))]))
       (\<lambda>(ws3, got, tr3). size_limit E (ws3\<lparr>read_buffer_offset := got\<rparr>, tr3))"
proof -
  let ?old = "drop (length text) (read_buffer ws)"
  define junk where "junk = ?old[0 := 0]"
  have rc: "recv E (ws_fd ws) (read_buffer ws) 0 (WS_MAX_LINE - 1) tr =
      Some (int (length text), text @ ?old, tr @ [(SysRecv (ws_fd ws) (WS_MAX_LINE - 1), int (length text))])"
    using assms(3-5) by (simp add: recv_def put_def)
  have wr: "wr (text @ ?old) (length text) 0 = Some (text @ junk)"
    using assms(3,5) by (simp add: junk_def list_update_append)
  define w where "w = ws\<lparr>read_buffer := text @ junk, read_buffer_offset := 0\<rparr>"
  have "ws\<lparr>read_buffer := text @ junk\<rparr> = w"
    using assms(2) by (cases ws) (simp add: w_def)
  moreover have "\<not> WS_MAX_LINE < 2" "\<not> WS_MAX_LINE \<le> 0" by (simp_all add: WS_MAX_LINE_def)
  ultimately have "ws_data E SV ws tr = Option.bind (ws_data_lines E SV w (length text) 0
         (tr @ [(SysRecv (ws_fd ws) (WS_MAX_LINE - 1), int (length text))]))
       (\<lambda>(ws3, got, tr3). size_limit E (ws3\<lparr>read_buffer_offset := got\<rparr>, tr3))"
    using assms(1-3,6)
    by (cases "ws_data_lines E SV w (length text) 0 (tr @ [(SysRecv (ws_fd ws) (WS_MAX_LINE - 1), int (length text))])")
      (auto simp: ws_data_def rc [unfolded One_nat_def] wr size_limit_def)
  moreover have "length (text @ junk) = WS_MAX_LINE" using assms(3,5) by (simp add: junk_def)
  ultimately show ?thesis using that unfolding w_def by blast
qed

lemma ws_data_handshake_run:
  assumes E: "posix_send E" "\<not> send_fails E (ws_fd ws)" "services_total SV"
    and fresh: "state ws = ws_new" "read_buffer_offset ws = 0" "length (read_buffer ws) = WS_MAX_LINE"
    and rx: "rx E tr (ws_fd ws) (WS_MAX_LINE - 1) = Some (request_text (first # lines @ [[]]))"
    and fits: "length (request_text (first # lines @ [[]])) < WS_MAX_LINE"
    and req: "request_line first = Some path" "0 \<notin> set first" "13 \<notin> set first" "\<forall>l\<in>set lines. http_header l"
    and w: "w = headers_effect lines (ws\<lparr>state := ws_http, request_path := Some path\<rparr>)"
    and ready: "websocket_version w = 13" "socket_key w = Some key" "want_upgrade w = 3"
    and conn: "client_connect E SV w (tr @ [(SysRecv (ws_fd ws) (WS_MAX_LINE - 1),
      int (length (request_text (first # lines @ [[]]))))]) = Some (0, w1, tr1)"
  shows "if key_fits SV key
    then \<exists>buf ext. ws_data E SV ws tr =
        Some (0, w1\<lparr>state := ws_open, read_buffer := buf, read_buffer_offset := 0\<rparr>, tr1 @ ext) \<and>
      sent_on (ws_fd ws) ext = upgrade_response SV key (protocol w) (peer_protocol (peer w1))
    else ws_data E SV ws tr = None"
proof -
  let ?text = "request_text (first # lines @ [[]])"
  let ?tr = "tr @ [(SysRecv (ws_fd ws) (WS_MAX_LINE - 1), int (length ?text))]"
  have fd: "ws_fd w = ws_fd ws" "state w = ws_http" by (simp_all add: w)
  have send: "\<not> send_fails E (ws_fd w)" using E(2) fd by simp
  have "?text \<noteq> []" by (simp add: crlf_def)
  then obtain junk where junk: "length (?text @ junk) = WS_MAX_LINE"
    "ws_data E SV ws tr = Option.bind
       (ws_data_lines E SV (ws\<lparr>read_buffer := ?text @ junk, read_buffer_offset := 0\<rparr>) (length ?text) 0 ?tr)
       (\<lambda>(ws3, got, tr3). size_limit E (ws3\<lparr>read_buffer_offset := got\<rparr>, tr3))"
    by (rule ws_data_received_new [OF fresh rx fits])
  obtain junk' where head: "ws_data_lines E SV (ws\<lparr>read_buffer := ?text @ junk, read_buffer_offset := 0\<rparr>) (length ?text) 0 ?tr =
      ws_data_lines E SV (w\<lparr>read_buffer := crlf @ junk', read_buffer_offset := 0\<rparr>) (length crlf) 0 ?tr"
    "length (crlf @ junk') = length (?text @ junk)"
    using ws_data_lines_head [OF fresh(1) req w] by blast
  show ?thesis
  proof (cases "key_fits SV key")
    case True
    from ws_data_lines_upgrade [OF E(1) send E(3) fd(2) True ready conn, of junk'] obtain ext where
      "ws_data_lines E SV (w\<lparr>read_buffer := crlf @ junk', read_buffer_offset := 0\<rparr>) (length crlf) 0 ?tr =
        Some (w1\<lparr>state := ws_open, read_buffer := 0 # 10 # junk', read_buffer_offset := 0\<rparr>, 0, tr1 @ ext)"
      "sent_on (ws_fd ws) ext = upgrade_response SV key (protocol w) (peer_protocol (peer w1))"
      unfolding fd by blast
    moreover have "length (0 # 10 # junk') = WS_MAX_LINE" using head(2) junk(1) by (simp add: crlf_def)
    moreover have "\<not> WS_MAX_LINE < 2" by (simp add: WS_MAX_LINE_def)
    ultimately show ?thesis using head(1) junk(2) True by (auto simp: size_limit_def)
  next
    case False
    from ws_data_lines_overrun [OF E(1) send fd(2) False ready conn, of junk'] head(1) junk(2) False
    show ?thesis by simp
  qed
qed

end
