(* ===== verification/Props_Handshake.thy ===== *)
theory Props_Handshake
  imports Examples Handshake_Run
begin

text \<open>Properties of the handshake and of establishing the peer connection.\<close>

section \<open>The peer address\<close>

text \<open>
  C25. The address scan of \<open>client_connect\<close>, which works in place on the host string, stays inside
  it and computes the transport by prefix (TCP when none matches), the address behind the prefix,
  and, for TCP and UDP without an explicit port, the port behind the first colon.
\<close>

theorem client_complete_peer_correct:
  assumes "0 \<notin> set h"
  shows "client_complete_peer p h =
    (let (t, h1) = (if transport p = peer_transport_detect then split_transport h else (transport p, h));
         (h2, po) = (if (t = peer_tcp_client \<or> t = peer_udp_client) \<and> port p = None
                     then split_port h1 else (h1, port p))
     in Some (p\<lparr>transport := t, host := Some h2, port := po\<rparr>))"
  unfolding client_complete_peer_eq [OF assms]
  by (simp add: completed_peer_def Let_def split: prod.splits)

theorem client_complete_peer_correct_witness:
  "client_complete_peer empty_peer (bytes ''udp://host:99'') =
    (let (t, h1) = (if transport empty_peer = peer_transport_detect then split_transport (bytes ''udp://host:99'')
                    else (transport empty_peer, bytes ''udp://host:99''));
         (h2, po) = (if (t = peer_tcp_client \<or> t = peer_udp_client) \<and> port empty_peer = None
                     then split_port h1 else (h1, port empty_peer))
     in Some (empty_peer\<lparr>transport := t, host := Some h2, port := po\<rparr>))"
  by (rule client_complete_peer_correct) (simp add: bytes_def)

text \<open>
  For a backend whose query returns, \<open>client_connect\<close> always returns; it sends nothing, and of
  the descriptors it creates it keeps exactly the one of a connected peer (result 0, with a
  framing function to use), all others being closed.
\<close>

lemma client_connect_balanced:
  assumes "services_total SV"
  shows "\<exists>r ws' ext. client_connect E SV ws tr = Some (r, ws', tr @ ext) \<and> quiet ext \<and>
    (r = 0 \<and> 0 \<le> peer_fd ws' \<and> balanced (peer_fd ws') ext \<and> peer_live (peer ws') \<or>
     r = 1 \<and> (peer_fd ws' = -1 \<or> peer_fd ws' = peer_fd ws) \<and> balanced (-1) ext) \<and>
    ws' = ws\<lparr>request_path := request_path ws', peer := peer ws', peer_fd := peer_fd ws'\<rparr>"
proof -
  have "runs (client_connect E SV ws tr) (\<lambda>(r, ws', tr'). \<exists>ext. tr' = tr @ ext \<and> quiet ext \<and>
    (r = 0 \<and> 0 \<le> peer_fd ws' \<and> balanced (peer_fd ws') ext \<and> peer_live (peer ws') \<or>
     r = 1 \<and> (peer_fd ws' = -1 \<or> peer_fd ws' = peer_fd ws) \<and> balanced (-1) ext) \<and>
    ws' = ws\<lparr>request_path := request_path ws', peer := peer ws', peer_fd := peer_fd ws'\<rparr>)"
  proof (rule runs_client_connect [OF services_total_answers [OF assms]], goal_cases)
    case (1 p path)
    show ?case by (cases ws) (simp add: quiet_def balanced_def)
  qed (cases ws; simp)+
  then show ?thesis by (auto simp: runs_def)
qed

lemma client_connect_balanced_witness:
  "\<exists>r ws' ext. client_connect (demo_env []) demo_services new_client [] = Some (r, ws', [] @ ext) \<and> quiet ext \<and>
    (r = 0 \<and> 0 \<le> peer_fd ws' \<and> balanced (peer_fd ws') ext \<and> peer_live (peer ws') \<or>
     r = 1 \<and> (peer_fd ws' = -1 \<or> peer_fd ws' = peer_fd new_client) \<and> balanced (-1) ext) \<and>
    ws' = new_client\<lparr>request_path := request_path ws', peer := peer ws', peer_fd := peer_fd ws'\<rparr>"
  by (rule client_connect_balanced [OF demo_services_total])

section \<open>The request line\<close>

text \<open>
  C24. On a terminated line, \<open>ws_handle_new\<close> accepts exactly the requests of the form
  \<open>GET <path> HTTP/...\<close>: it stores the path and enters the header state; any other line leaves the
  state and the path alone, returns 1, and in both cases nothing beyond the line is changed.
\<close>

theorem ws_handle_new_correct:
  assumes "read_buffer ws = line @ 0 # 10 # post" "0 \<notin> set line"
  shows "\<exists>J. length J = length line \<and>
    ws_handle_new ws =
      Some (case request_line line of
              None \<Rightarrow> (1, ws\<lparr>read_buffer := J @ 0 # 10 # post\<rparr>)
            | Some path \<Rightarrow>
                (0, ws\<lparr>read_buffer := J @ 0 # 10 # post, state := ws_http, request_path := Some path\<rparr>))"
  by (rule ws_handle_new_spec [OF assms]) blast

theorem ws_handle_new_correct_witness:
  "\<exists>J. length J = length (bytes ''GET /chat HTTP/1.1'') \<and>
    ws_handle_new (new_client\<lparr>read_buffer := bytes ''GET /chat HTTP/1.1'' @ 0 # 10 # [0]\<rparr>) =
      Some (case request_line (bytes ''GET /chat HTTP/1.1'') of
              None \<Rightarrow> (1, new_client\<lparr>read_buffer := bytes ''GET /chat HTTP/1.1'' @ 0 # 10 # [0],
                         read_buffer := J @ 0 # 10 # [0]\<rparr>)
            | Some path \<Rightarrow>
                (0, new_client\<lparr>read_buffer := bytes ''GET /chat HTTP/1.1'' @ 0 # 10 # [0],
                         read_buffer := J @ 0 # 10 # [0], state := ws_http, request_path := Some path\<rparr>))"
  by (rule ws_handle_new_correct) (simp_all add: bytes_def)

section \<open>Headers\<close>

text \<open>
  C23. A header line is split at its first colon, the value without leading white space; its effect
  is the one \<open>header_effect\<close> gives for the name (the version as a number, the key trimmed on the
  right, the two upgrade bits, the subprotocols, or a stored header up to the limit of ten).
\<close>

theorem ws_handle_http_header_correct:
  assumes "read_buffer ws = (name @ 58 # val) @ 0 # post" "0 \<notin> set (name @ 58 # val)"
    and "58 \<notin> set name" "name \<noteq> []" "\<not> isspace (hd name)"
  shows "\<exists>J. length J = length (name @ 58 # val) \<and>
    ws_handle_http E SV ws tr = Some (0, header_effect name (ltrim val) (ws\<lparr>read_buffer := J @ 0 # post\<rparr>), tr)"
proof -
  obtain c cs where name: "name = c # cs" using assms(4) by (cases name) auto
  have hl: "header_line (name @ 58 # val) = Some (name, ltrim val)"
  proof -
    have "x \<noteq> 58" if "x \<in> set name" for x using assms(3) that by auto
    then have "dropWhile (\<lambda>c. c \<noteq> 58) (name @ 58 # val) = 58 # val"
      "takeWhile (\<lambda>c. c \<noteq> 58) (name @ 58 # val) = name"
      using dropWhile_append2 [of name "\<lambda>c. c \<noteq> 58" "58 # val"]
        takeWhile_append2 [of name "\<lambda>c. c \<noteq> 58" "58 # val"] by simp_all
    then show ?thesis by (simp add: header_line_def)
  qed
  show ?thesis
    by (rule ws_handle_http_header [OF assms(1,2) _ _ hl, where c = c and cs = "cs @ 58 # val"])
      (use assms(5) name in auto)
qed

theorem ws_handle_http_header_correct_witness:
  "\<exists>J. length J = length (bytes ''Upgrade'' @ 58 # bytes '' WebSocket'') \<and>
    ws_handle_http (demo_env []) demo_services
      (new_client\<lparr>read_buffer := (bytes ''Upgrade'' @ 58 # bytes '' WebSocket'') @ 0 # [10]\<rparr>) [] =
      Some (0, header_effect (bytes ''Upgrade'') (ltrim (bytes '' WebSocket''))
        (new_client\<lparr>read_buffer := (bytes ''Upgrade'' @ 58 # bytes '' WebSocket'') @ 0 # [10],
                     read_buffer := J @ 0 # [10]\<rparr>), [])"
  by (rule ws_handle_http_header_correct) (simp_all add: bytes_def isspace_def)

text \<open>
  C22. The offered subprotocols are the comma separated, non-empty pieces of the header value, taken in
  order: each is trimmed on both sides and appended to the list when it is not in it yet. So the offers
  of earlier headers stay in front, and nothing is repeated. The in-place tokenising touches nothing
  outside the value.
\<close>

theorem ws_protocol_offers_correct:
  assumes "0 \<notin> set s" "distinct protos"
  shows "\<exists>J protos'. ws_protocol_offers (pre @ s @ 0 # post) (length pre) protos = Some (pre @ J @ 0 # post, protos') \<and>
    length J = length s \<and>
    protos' = fold (\<lambda>t ps. if rtrim (ltrim t) \<in> set ps then ps else ps @ [rtrim (ltrim t)]) (comma_tokens s) protos \<and>
    distinct protos' \<and> prefix protos protos' \<and>
    set protos' = set protos \<union> (\<lambda>t. rtrim (ltrim t)) ` set (comma_tokens s)"
proof -
  have offer: "(\<lambda>t ps. if rtrim (ltrim t) \<in> set ps then ps else ps @ [rtrim (ltrim t)]) = add_offer"
    by (simp add: add_offer_def Let_def fun_eq_iff)
  obtain J where "ws_protocol_offers (pre @ s @ 0 # post) (length pre) protos =
     Some (pre @ J @ 0 # post, fold add_offer (comma_tokens s) protos)" "length J = length s"
    using ws_protocol_offers_spec [OF assms(1), of pre post protos] by blast
  with prefix_offers set_offers distinct_offers [OF assms(2)] show ?thesis
    unfolding offer by (intro exI conjI) (assumption | rule refl | simp)+
qed

theorem ws_protocol_offers_correct_witness:
  "\<exists>J protos'. ws_protocol_offers ([58] @ bytes '' mqtt, chat ,mqtt'' @ 0 # [10]) (length [58 :: u8]) [bytes ''x''] =
      Some ([58] @ J @ 0 # [10], protos') \<and>
    length J = length (bytes '' mqtt, chat ,mqtt'') \<and>
    protos' = fold (\<lambda>t ps. if rtrim (ltrim t) \<in> set ps then ps else ps @ [rtrim (ltrim t)])
      (comma_tokens (bytes '' mqtt, chat ,mqtt'')) [bytes ''x''] \<and>
    distinct protos' \<and> prefix [bytes ''x''] protos' \<and>
    set protos' = set [bytes ''x''] \<union> (\<lambda>t. rtrim (ltrim t)) ` set (comma_tokens (bytes '' mqtt, chat ,mqtt''))"
  by (rule ws_protocol_offers_correct) (simp_all add: bytes_def)

section \<open>The upgrade\<close>



text \<open>
  C9. An opening handshake that arrives in one read is handled as a whole: when the request line is
  acceptable, the headers, applied in order, give version 13, a key and both upgrade marks, the peer
  can be connected and no \<open>send\<close> fails, then, if the accept key fits into its array, one call of \<open>ws_data\<close>
  leaves the connection open with an empty buffer, and the client is sent exactly the response for its
  key and the chosen subprotocol. If the accept key does not fit, the call is undefined.
\<close>

theorem ws_data_handshake:
  assumes "posix_send E" "\<not> send_fails E (ws_fd ws)" "services_total SV"
    and "state ws = ws_new" "read_buffer_offset ws = 0" "length (read_buffer ws) = WS_MAX_LINE"
    and "rx E tr (ws_fd ws) (WS_MAX_LINE - 1) = Some (request_text (first # lines @ [[]]))"
    and "length (request_text (first # lines @ [[]])) < WS_MAX_LINE"
    and "request_line first = Some path" "0 \<notin> set first" "13 \<notin> set first" "\<forall>l\<in>set lines. http_header l"
    and "w = headers_effect lines (ws\<lparr>state := ws_http, request_path := Some path\<rparr>)"
    and "websocket_version w = 13" "socket_key w = Some key" "want_upgrade w = 3"
    and "client_connect E SV w (tr @ [(SysRecv (ws_fd ws) (WS_MAX_LINE - 1),
      int (length (request_text (first # lines @ [[]]))))]) = Some (0, w1, tr1)"
  shows "if key_fits SV key
    then \<exists>buf ext. ws_data E SV ws tr =
        Some (0, w1\<lparr>state := ws_open, read_buffer := buf, read_buffer_offset := 0\<rparr>, tr1 @ ext) \<and>
      sent_on (ws_fd ws) ext = upgrade_response SV key (protocol w) (peer_protocol (peer w1))
    else ws_data E SV ws tr = None"
  by (rule ws_data_handshake_run [OF assms])

text \<open>The request of RFC 6455, section 1.2, but for the origin.\<close>

definition demo_request_line :: cstring where
  "demo_request_line = bytes ''GET /chat HTTP/1.1''"

definition demo_headers :: "cstring list" where
  "demo_headers = [bytes ''Host: server.example.com'', bytes ''Upgrade: websocket'', bytes ''Connection: Upgrade'',
     bytes ''Sec-WebSocket-Key: dGhlIHNhbXBsZSBub25jZQ=='', bytes ''Sec-WebSocket-Protocol: chat, superchat'',
     bytes ''Sec-WebSocket-Version: 13'']"

abbreviation demo_request_text :: "u8 list" where
  "demo_request_text \<equiv> request_text (demo_request_line # demo_headers @ [[]])"

abbreviation demo_requested :: websocket where
  "demo_requested \<equiv> headers_effect demo_headers (new_client\<lparr>state := ws_http, request_path := Some (bytes ''/chat'')\<rparr>)"

lemma demo_headers_ok: "\<forall>l\<in>set demo_headers. http_header l"
  by (simp add: demo_headers_def http_header_def bytes_def isspace_def)

lemma demo_request_fits: "length demo_request_text < WS_MAX_LINE"
  by (simp add: demo_headers_def demo_request_line_def bytes_def crlf_def WS_MAX_LINE_def)

lemma demo_header_lines:
  "header_line (bytes ''Host: server.example.com'') = Some (bytes ''Host'', bytes ''server.example.com'')"
  "header_line (bytes ''Upgrade: websocket'') = Some (bytes ''Upgrade'', bytes ''websocket'')"
  "header_line (bytes ''Connection: Upgrade'') = Some (bytes ''Connection'', bytes ''Upgrade'')"
  "header_line (bytes ''Sec-WebSocket-Key: dGhlIHNhbXBsZSBub25jZQ=='') =
     Some (bytes ''Sec-WebSocket-Key'', bytes ''dGhlIHNhbXBsZSBub25jZQ=='')"
  "header_line (bytes ''Sec-WebSocket-Protocol: chat, superchat'') =
     Some (bytes ''Sec-WebSocket-Protocol'', bytes ''chat, superchat'')"
  "header_line (bytes ''Sec-WebSocket-Version: 13'') = Some (bytes ''Sec-WebSocket-Version'', bytes ''13'')"
  by code_simp+

lemma demo_header_values:
  "strcasecmp_eq (bytes ''websocket'') (bytes ''websocket'')"
  "strstr (map tolower (bytes ''Upgrade'')) (bytes ''upgrade'')"
  "rtrim (bytes ''dGhlIHNhbXBsZSBub25jZQ=='') = bytes ''dGhlIHNhbXBsZSBub25jZQ==''"
  by (simp add: strcasecmp_eq_def, code_simp, code_simp)

lemma demo_header_offers:
  "fold add_offer (comma_tokens (bytes ''chat, superchat'')) [] = [bytes ''chat'', bytes ''superchat'']"
  by code_simp

lemma demo_header_version: "strtoul 10 (bytes ''13'') = 13"
  by (simp add: strtoul_def bytes_def ltrim_def isspace_def strtoul_sign_def strtoul_prefix_def digit_val_def isdigit_def)

lemma demo_header_host:
  "bytes ''Host'' \<notin> {bytes ''Sec-WebSocket-Version'', bytes ''Sec-WebSocket-Key'', bytes ''Upgrade'', bytes ''Connection'',
     bytes ''Sec-WebSocket-Protocol''}"
  by (simp add: bytes_def)

lemma demo_requested_fields:
  "websocket_version demo_requested = 13" "socket_key demo_requested = Some (bytes ''dGhlIHNhbXBsZSBub25jZQ=='')"
  "want_upgrade demo_requested = 3" "protocol demo_requested = [bytes ''chat'', bytes ''superchat'']"
  using demo_header_host
  by (simp_all add: demo_headers_def header_line_effect_def demo_header_lines header_effect_def demo_header_values
      demo_header_offers demo_header_version
      new_client_def accepted_websocket_def)

lemma new_client_fields:
  "ws_fd new_client = 5" "state new_client = ws_new" "read_buffer_offset new_client = 0"
  "length (read_buffer new_client) = WS_MAX_LINE"
  by (simp_all add: new_client_def accepted_websocket_def)

theorem ws_data_handshake_witness:
  "\<exists>w1 tr1 buf ext. ws_data (demo_env demo_request_text) demo_services new_client [] =
      Some (0, w1\<lparr>state := ws_open, read_buffer := buf, read_buffer_offset := 0\<rparr>, tr1 @ ext) \<and>
    sent_on (ws_fd new_client) ext = upgrade_response demo_services (bytes ''dGhlIHNhbXBsZSBub25jZQ=='')
      (protocol demo_requested) (peer_protocol (peer w1))"
proof -
  have fits: "key_fits demo_services key" for key using demo_services_ok by (rule services_ok_fits)
  obtain w1 tr1 where conn: "client_connect (demo_env demo_request_text) demo_services demo_requested
      ([] @ [(SysRecv (ws_fd new_client) (WS_MAX_LINE - 1), int (length demo_request_text))]) = Some (0, w1, tr1)"
    using demo_connects by blast
  have req: "request_line demo_request_line = Some (bytes ''/chat'')"
    by (simp add: demo_request_line_def request_line_def bytes_def isspace_def)
  have nul: "0 \<notin> set demo_request_line" "13 \<notin> set demo_request_line"
    by (simp_all add: demo_request_line_def bytes_def)
  have rx: "rx (demo_env demo_request_text) [] (ws_fd new_client) (WS_MAX_LINE - 1) = Some demo_request_text"
    by (simp add: demo_env_def)
  have send: "\<not> send_fails (demo_env demo_request_text) (ws_fd new_client)"
    by (simp only: new_client_fields demo_reliable not_False_eq_True)
  from ws_data_handshake [OF demo_posix_send send demo_services_total new_client_fields(2-4) rx demo_request_fits req nul
      demo_headers_ok refl demo_requested_fields(1-3) conn]
  show ?thesis unfolding if_P [OF fits] by blast
qed

section \<open>The accept key overruns its array\<close>

text \<open>
  C31. With what nettle documents (a digest of 20 bytes, an encoding of four characters for every
  three bytes begun, and 27 as the room \<open>BASE64_ENCODE_LENGTH\<close> gives 20 bytes) no handshake completes: the
  encoded digest has 28 characters, so that with CR, LF and NUL 31 bytes are written to the 30 of
  \<open>ws_accept_key\<close>. When the headers ask for an upgrade, the connection is never opened; the only results are
  failures before that point, and when the peer connects and no \<open>send\<close> fails there is none.
\<close>

theorem ws_upgrade_http_key_overrun:
  assumes "nettle_sizes SV" "websocket_version ws = 13" "socket_key ws = Some key" "want_upgrade ws = 3"
  shows "length (accept_encoded SV key) = 28 \<and> BASE64_ENCODE_LENGTH SV SHA1_DIGEST_SIZE + 3 = 30 \<and>
    ws_accept_key SV key = None \<and>
    (\<forall>r ws' tr'. ws_upgrade_http E SV ws tr = Some (r, ws', tr') \<longrightarrow> state ws' = ws_closed) \<and>
    (posix_send E \<and> \<not> send_fails E (ws_fd ws) \<and> client_connect E SV ws tr = Some (0, ws1, tr1) \<longrightarrow>
     ws_upgrade_http E SV ws tr = None)"
proof -
  have sizes: "length (accept_encoded SV key) = 28" "BASE64_ENCODE_LENGTH SV SHA1_DIGEST_SIZE + 3 = 30"
    using assms(1) by (simp_all add: nettle_sizes_def accept_encoded_def SHA1_DIGEST_SIZE_def)
  then have unfit: "\<not> key_fits SV key" by (simp add: key_fits_def)
  then have "ws_accept_key SV key = None" by (simp add: ws_accept_key_eq)
  with sizes ws_upgrade_http_unfit [OF assms(3) unfit assms(2,4), of E tr]
    ws_upgrade_http_overrun [OF _ _ assms(2,3,4) _ unfit, of E tr ws1 tr1] show ?thesis by blast
qed

definition demo_nettle :: services where
  "demo_nettle = demo_services\<lparr>nettle_sha1 := \<lambda>_. replicate 20 7,
     nettle_base64 := \<lambda>d. replicate ((length d + 2) div 3 * 4) 65\<rparr>"

theorem ws_upgrade_http_key_overrun_witness:
  "length (accept_encoded demo_nettle (bytes ''key'')) = 28 \<and> ws_upgrade_http (demo_env []) demo_nettle ready_client [] = None"
proof -
  have sizes: "nettle_sizes demo_nettle"
    by (simp add: nettle_sizes_def demo_nettle_def demo_services_def SHA1_DIGEST_SIZE_def)
  have fields: "websocket_version ready_client = 13" "socket_key ready_client = Some (bytes ''key'')"
    "want_upgrade ready_client = 3" "ws_fd ready_client = 5"
    by (simp_all add: ready_client_def new_client_def accepted_websocket_def)
  have "client_connect (demo_env []) demo_nettle ready_client [] = client_connect (demo_env []) demo_services ready_client []"
    by (simp add: client_connect_def demo_nettle_def)
  then obtain ws1 tr1 where "client_connect (demo_env []) demo_nettle ready_client [] = Some (0, ws1, tr1)"
    using demo_connects [of "[]" ready_client "[]"] by auto
  then show ?thesis
    using ws_upgrade_http_key_overrun [OF sizes fields(1-3), of "demo_env []" "[]" ws1 tr1] demo_posix_send demo_reliable
      fields(4) by simp
qed

section \<open>The default backend\<close>

text \<open>
  C36. The default backend answers every request with the configured peer. Without a configured
  subprotocol it selects none; with \<open>*\<close> the first offered; otherwise the first offer equal to the
  configured one up to case, or none.
\<close>

theorem backend_defaultpeer_query_correct:
  "backend_defaultpeer_query st endpoint protos hdrs =
     Some ((default_peer st)\<lparr>peer_protocol :=
        (case default_peer_proto st of
           None \<Rightarrow> length protos
         | Some pr \<Rightarrow>
             if pr = bytes ''*'' then 0 else length (takeWhile (\<lambda>q. \<not> strcasecmp_eq q pr) protos))\<rparr>, endpoint)"
proof -
  have "(case defaultpeer_match pr protos 0 of None \<Rightarrow> length protos | Some p \<Rightarrow> p) =
      length (takeWhile (\<lambda>q. \<not> strcasecmp_eq q pr) protos)" for pr
    by (auto simp: defaultpeer_match_spec) (metis takeWhile_eq_all_conv)
  then show ?thesis by (simp add: backend_defaultpeer_query_def Let_def split: option.split)
qed

end
