(* ===== verification/Backend_File.thy ===== *)
theory Backend_File
  imports Defaultpeer
begin

text \<open>
  \<open>plugins/backend_file.c\<close>: the \<open>file\<close> backend, which builds file names from templates and looks
  the peer up in them. Opening a file is a parameter: the contents of a path, if it can be read.
\<close>

section \<open>State and configuration\<close>

definition BACKEND_FILE_MAX_PATH :: nat where
  "BACKEND_FILE_MAX_PATH = 8192"

record file_backend =
  backend_path :: "cstring option"
  expressions :: "cstring list"

definition file_backend_start :: file_backend where
  "file_backend_start = \<lparr>backend_path = None, expressions = []\<rparr>"

definition backend_file_init :: "file_backend \<Rightarrow> nat \<times> file_backend" where
  "backend_file_init st = (WEBSOCKSY_API_VERSION, st\<lparr>backend_path := Some []\<rparr>)"

definition backend_file_configure :: "cstring \<Rightarrow> cstring \<Rightarrow> file_backend \<Rightarrow> nat \<times> file_backend" where
  "backend_file_configure key val st =
     (if key = bytes ''path''
      then (0, st\<lparr>backend_path := Some (if val \<noteq> [] \<and> last val = 47 then butlast val else val)\<rparr>)
      else if key = bytes ''expression'' then (0, st\<lparr>expressions := expressions st @ [val]\<rparr>)
      else (1, st))"

definition backend_file_cleanup :: "file_backend \<Rightarrow> file_backend" where
  "backend_file_cleanup st = \<lparr>backend_path = None, expressions = []\<rparr>"

section \<open>Expressions\<close>

text \<open>\<open>for(u = 0; u < content_length; u++) if(buffer[u] == '/') buffer[u] = '_';\<close>\<close>

function expression_sanitize :: "u8 list \<Rightarrow> nat \<Rightarrow> nat \<Rightarrow> u8 list option" where
  "expression_sanitize buf n u =
     (if u < n
      then do { c \<leftarrow> rd buf u;
                buf1 \<leftarrow> (if c = 47 then wr buf u 95 else Some buf);
                expression_sanitize buf1 n (Suc u) }
      else Some buf)"
  by pat_completeness auto
termination
  by (relation "measure (\<lambda>(buf, n, u). n - u)") auto

declare expression_sanitize.simps [simp del]

text \<open>
  \<open>buf\<close> is the array from the variable on, \<open>content\<close> the \<open>content_length\<close> bytes that replace it.
\<close>

definition expression_replace :: "u8 list \<Rightarrow> nat \<Rightarrow> nat \<Rightarrow> cstring \<Rightarrow> (int \<times> u8 list) option" where
  "expression_replace buf buffer_length variable_length content =
     do { l \<leftarrow> strlen_at buf 0;
          if variable_length < length content \<and> buffer_length \<le> l + (length content - variable_length)
          then Some (1, buf)
          else do {
            buf1 \<leftarrow> memmove buf (length content) variable_length (l - variable_length + 1);
            buf2 \<leftarrow> put buf1 0 content;
            buf3 \<leftarrow> expression_sanitize buf2 (length content) 0;
            Some (0, buf3) } }"

text \<open>The scan of a \<open>Cookie\<close> header; \<open>None\<close> is the failure of the expression.\<close>

fun cookie_skip :: "cstring \<Rightarrow> cstring" where
  "cookie_skip [] = []"
| "cookie_skip (c # cs) = (if prefix [59, 32] (c # cs) then c # cs else cookie_skip cs)"

lemma length_cookie_skip: "length (cookie_skip v) \<le> length v"
  by (induction v) auto

function cookie_find :: "cstring \<Rightarrow> cstring \<Rightarrow> cstring option" where
  "cookie_find name v =
     (if length v < length name + 1 then None
      else if v ! length name = 61 \<and> take (length name) v = name
      then let w = drop (length name + 1) v in if w = [] then None else Some (takeWhile (\<lambda>c. c \<noteq> 59) w)
      else let w = drop 2 (cookie_skip v) in if w = [] then None else cookie_find name w)"
  by pat_completeness auto
termination
proof (relation "measure (\<lambda>(name, v). length v)", goal_cases)
  case (2 name v w)
  then show ?case using length_cookie_skip [of v] by (cases v) auto
qed simp

declare cookie_find.simps [simp del]

text \<open>What a \<open>%\<close> in the template stands for: nothing, a failure, or a value and the length of the variable.\<close>

datatype expansion = NoVariable | Unresolved | Expand cstring nat

definition header_value :: "cstring \<Rightarrow> ws_http_header list \<Rightarrow> cstring option" where
  "header_value t hdrs = map_option value (find (\<lambda>h. tag h = t) hdrs)"

definition expression_endpoint :: "cstring \<Rightarrow> expansion \<times> cstring" where
  "expression_endpoint ep =
     (if ep = [] then (Unresolved, ep)
      else let ep1 = (if 2 \<le> length ep \<and> last ep = 47 then butlast ep else ep)
           in (Expand (tl ep1) 10, ep1))"

text \<open>The name of a \<open>%cookie:\<close> or \<open>%header:\<close> variable; an inner \<open>None\<close> when it is not terminated.\<close>

definition expression_index :: "u8 list \<Rightarrow> nat \<Rightarrow> cstring option option" where
  "expression_index buf i =
     do { e \<leftarrow> scan (\<lambda>c. c = 0 \<or> c = 37) buf i;
          c \<leftarrow> rd buf e;
          Some (if c = 0 then None else Some (take (e - i) (drop i buf))) }"

definition expression_variable ::
  "u8 list \<Rightarrow> nat \<Rightarrow> cstring option \<Rightarrow> ws_http_header list \<Rightarrow> (expansion \<times> cstring option) option" where
  "expression_variable buf u endpoint hdrs =
     do { is_endpoint \<leftarrow> strncmp_eq buf u (bytes ''%endpoint%'');
          if is_endpoint
          then do { ep \<leftarrow> endpoint; let (x, ep1) = expression_endpoint ep in Some (x, Some ep1) }
          else do {
          is_cookie \<leftarrow> strncmp_eq buf u (bytes ''%cookie:'');
          if is_cookie
          then do { index \<leftarrow> expression_index buf (u + 8);
                    Some (case index of None \<Rightarrow> Unresolved
                          | Some name \<Rightarrow>
                              (case Option.bind (header_value (bytes ''Cookie'') hdrs) (cookie_find name) of
                                 None \<Rightarrow> Unresolved
                               | Some v \<Rightarrow> Expand v (8 + length name + 1)), endpoint) }
          else do {
          is_header \<leftarrow> strncmp_eq buf u (bytes ''%header:'');
          if is_header
          then do { index \<leftarrow> expression_index buf (u + 8);
                    Some (case index of None \<Rightarrow> Unresolved
                          | Some name \<Rightarrow>
                              (case header_value name hdrs of
                                 None \<Rightarrow> Unresolved
                               | Some v \<Rightarrow> Expand v (8 + length name + 1)), endpoint) }
          else Some (NoVariable, endpoint) } } }"

text \<open>
  The loop over the template. After a replacement \<open>u += value_len - 1\<close> and the increment of the loop
  put \<open>u\<close> behind the inserted value, for an empty one too, where the sum wraps.
\<close>

partial_function (option) expression_resolve ::
  "u8 list \<Rightarrow> nat \<Rightarrow> nat \<Rightarrow> cstring option \<Rightarrow> ws_http_header list \<Rightarrow> (int \<times> u8 list \<times> cstring option) option" where
  "expression_resolve template len u endpoint hdrs =
     do { c \<leftarrow> rd template u;
          if c = 0 then Some (0, template, endpoint)
          else do {
            (x, ep) \<leftarrow> (if c = 37 then expression_variable template u endpoint hdrs
                        else Some (NoVariable, endpoint));
            case x of
              NoVariable \<Rightarrow> expression_resolve template len (u + 1) ep hdrs
            | Unresolved \<Rightarrow> Some (1, template, ep)
            | Expand v variable_len \<Rightarrow>
                do { (r, rest) \<leftarrow> expression_replace (drop u template) (len - u) variable_len v;
                     if r \<noteq> 0 then Some (1, take u template @ rest, ep)
                     else expression_resolve (take u template @ rest) len (u + length v) ep hdrs } } }"

section \<open>Looking up the peer\<close>

text \<open>\<open>for(; p > 0 && !isprint(line[p]); p--) line[p] = 0;\<close>\<close>

fun line_rtrim :: "u8 list \<Rightarrow> nat \<Rightarrow> u8 list option" where
  "line_rtrim buf 0 = Some buf"
| "line_rtrim buf (Suc p) =
     do { c \<leftarrow> rd buf (Suc p);
          if isprint c then Some buf else do { buf1 \<leftarrow> wr buf (Suc p) 0; line_rtrim buf1 p } }"

text \<open>Cutting a string at its first blank: what is before it, and what is behind, if there is one.\<close>

definition cut_blank :: "cstring \<Rightarrow> cstring \<times> cstring option" where
  "cut_blank s =
     (case dropWhile (\<lambda>c. c \<noteq> 32) s of [] \<Rightarrow> (s, None) | _ # r \<Rightarrow> (takeWhile (\<lambda>c. c \<noteq> 32) s, Some r))"

fun protocol_match :: "cstring \<Rightarrow> cstring list \<Rightarrow> nat \<Rightarrow> nat option" where
  "protocol_match pr [] p = None"
| "protocol_match pr (q # qs) p = (if pr = q then Some p else protocol_match pr qs (Suc p))"

text \<open>One line: skipped, or the peer. \<open>peer.protocol\<close> starts as the number of offers.\<close>

definition file_line :: "framing_registry \<Rightarrow> cstring list \<Rightarrow> u8 list \<Rightarrow> ws_peer_info option option" where
  "file_line reg protos line =
     do { l \<leftarrow> strlen_at (line @ [0]) 0;
          buf \<leftarrow> line_rtrim (line @ [0]) l;
          s \<leftarrow> cstr buf 0;
          let (h, c0) = cut_blank s;
          if protos \<noteq> [] \<and> c0 = None then Some None
          else do {
            rest \<leftarrow> c0;
            let (pr, c1) = cut_blank rest;
            let (fr, c2) = (case c1 of None \<Rightarrow> (None, None) | Some r \<Rightarrow> let (a, b) = cut_blank r in (Some a, b));
            let p = (if pr = bytes ''*'' then 0
                     else case protocol_match pr protos 0 of None \<Rightarrow> length protos | Some p \<Rightarrow> p);
            if protos \<noteq> [] \<and> p = length protos then Some None
            else do { f \<leftarrow> plugin_framing reg fr;
                      Some (Some (empty_peer\<lparr>host := Some h, framing := Some f, framing_config := c2,
                                             peer_protocol := p\<rparr>)) } } }"

fun file_search :: "framing_registry \<Rightarrow> cstring list \<Rightarrow> u8 list list \<Rightarrow> ws_peer_info option option" where
  "file_search reg protos [] = Some None"
| "file_search reg protos (l # ls) =
     do { r \<leftarrow> file_line reg protos l;
          case r of Some p \<Rightarrow> Some (Some p) | None \<Rightarrow> file_search reg protos ls }"

text \<open>\<open>snprintf(target_path, sizeof(target_path), "%s/%s", backend_path, expression[u])\<close>.\<close>

definition file_target :: "cstring \<Rightarrow> cstring \<Rightarrow> u8 list \<Rightarrow> u8 list option" where
  "file_target path ex target = put target 0 (take (length target - 1) (path @ 47 # ex) @ [0])"

fun file_query :: "framing_registry \<Rightarrow> (cstring \<Rightarrow> u8 list option) \<Rightarrow> cstring \<Rightarrow> cstring list \<Rightarrow> u8 list \<Rightarrow>
  cstring option \<Rightarrow> cstring list \<Rightarrow> ws_http_header list \<Rightarrow> (ws_peer_info \<times> cstring option) option" where
  "file_query reg files path [] target endpoint protos hdrs =
     Some (empty_peer\<lparr>peer_protocol := length protos\<rparr>, endpoint)"
| "file_query reg files path (ex # exs) target endpoint protos hdrs =
     do { target1 \<leftarrow> file_target path ex target;
          (r, target2, ep) \<leftarrow>
            (if length target < length path + 1 then None
             else map_option (\<lambda>(r, t, ep). (r, take (length path + 1) target1 @ t, ep))
                    (expression_resolve (drop (length path + 1) target1) (length target - length path - 1) 0
                       endpoint hdrs));
          if r \<noteq> 0 then file_query reg files path exs target2 ep protos hdrs
          else do {
            name \<leftarrow> cstr target2 0;
            case files name of
              None \<Rightarrow> file_query reg files path exs target2 ep protos hdrs
            | Some content \<Rightarrow>
                do { p \<leftarrow> file_search reg protos (file_lines content);
                     case p of
                       None \<Rightarrow> file_query reg files path exs target2 ep protos hdrs
                     | Some found \<Rightarrow> Some (found, ep) } } }"

definition backend_file_query :: "framing_registry \<Rightarrow> (cstring \<Rightarrow> u8 list option) \<Rightarrow> file_backend \<Rightarrow> backend_query" where
  "backend_file_query reg files st endpoint protos hdrs =
     (if expressions st = [] then Some (empty_peer\<lparr>peer_protocol := length protos\<rparr>, endpoint)
      else do { path \<leftarrow> backend_path st;
                file_query reg files path (expressions st) (replicate BACKEND_FILE_MAX_PATH 0)
                  endpoint protos hdrs })"

end
