(* ===== verification/Backend_File_Spec.thy ===== *)
theory Backend_File_Spec
  imports Backend_File
begin

text \<open>
  What the \<open>file\<close> backend computes: the expansion of templates as a function on strings, and the
  files a query can open.
\<close>

section \<open>Expansion of a template\<close>

definition sanitized :: "cstring \<Rightarrow> cstring" where
  "sanitized v = map (\<lambda>c. if c = 47 then 95 else c) v"

lemma length_sanitized [simp]: "length (sanitized v) = length v"
  by (simp add: sanitized_def)

lemma sanitized_slash [simp]: "47 \<notin> set (sanitized v)"
  by (auto simp: sanitized_def)

text \<open>The variable at the start of the string \<open>t\<close>.\<close>

definition variable_name :: "cstring \<Rightarrow> cstring option" where
  "variable_name s = (if 37 \<in> set s then Some (takeWhile (\<lambda>c. c \<noteq> 37) s) else None)"

definition named_value :: "cstring \<Rightarrow> (cstring \<Rightarrow> cstring option) \<Rightarrow> expansion" where
  "named_value s val =
     (case variable_name s of
        None \<Rightarrow> Unresolved
      | Some name \<Rightarrow> (case val name of None \<Rightarrow> Unresolved | Some v \<Rightarrow> Expand v (8 + length name + 1)))"

definition variable_at :: "cstring \<Rightarrow> cstring \<Rightarrow> ws_http_header list \<Rightarrow> expansion \<times> cstring" where
  "variable_at t ep hdrs =
     (if prefix (bytes ''%endpoint%'') t then expression_endpoint ep
      else if prefix (bytes ''%cookie:'') t
      then (named_value (drop 8 t) (\<lambda>name. Option.bind (header_value (bytes ''Cookie'') hdrs) (cookie_find name)), ep)
      else if prefix (bytes ''%header:'') t then (named_value (drop 8 t) (\<lambda>name. header_value name hdrs), ep)
      else (NoVariable, ep))"

text \<open>
  \<open>room\<close> is the size of the array from the start of \<open>t\<close> on. The result is the expanded string, if
  there is one, and the endpoint, which loses a trailing slash with each use.
\<close>

function expand :: "cstring \<Rightarrow> nat \<Rightarrow> cstring \<Rightarrow> ws_http_header list \<Rightarrow> cstring option \<times> cstring" where
  "expand [] room ep hdrs = (Some [], ep)"
| "expand (c # t) room ep hdrs =
     (case (if c = 37 then variable_at (c # t) ep hdrs else (NoVariable, ep)) of
        (NoVariable, ep1) \<Rightarrow> map_prod (map_option (Cons c)) id (expand t (room - 1) ep1 hdrs)
      | (Unresolved, ep1) \<Rightarrow> (None, ep1)
      | (Expand v n, ep1) \<Rightarrow>
          if n < length v \<and> room \<le> length (c # t) + (length v - n) then (None, ep1)
          else map_prod (map_option ((@) (sanitized v))) id (expand (drop (n - 1) t) (room - length v) ep1 hdrs))"
  by pat_completeness auto
termination
  by (relation "measure (\<lambda>(t, room, ep, hdrs). length t)") auto

lemma variable_name_length: "variable_name s = Some name \<Longrightarrow> length name < length s"
proof -
  assume "variable_name s = Some name"
  then have "37 \<in> set s" "name = takeWhile (\<lambda>c. c \<noteq> 37) s" by (auto simp: variable_name_def split: if_splits)
  then show ?thesis by (induction s arbitrary: name) auto
qed

lemma variable_at_length:
  assumes "variable_at t ep hdrs = (Expand v n, ep1)"
  shows "0 < n" "n \<le> length t"
proof -
  have named: "0 < n \<and> n \<le> length t" if "named_value (drop 8 t) val = Expand v n" for val
    using that variable_name_length [of "drop 8 t"]
    by (fastforce simp: named_value_def split: option.splits)
  have "10 \<le> length t" if "prefix (bytes ''%endpoint%'') t"
    using prefix_length_le [OF that] by (simp add: bytes_def)
  with assms named show "0 < n" "n \<le> length t"
    by (auto simp: variable_at_def expression_endpoint_def Let_def split: if_splits)
qed

text \<open>Values bring no slashes: the expansion has at most those of the template; and it fits.\<close>

lemma expand_slashes:
  "fst (expand t room ep hdrs) = Some s \<Longrightarrow> count_list s 47 \<le> count_list t 47"
proof (induction t room ep hdrs arbitrary: s rule: expand.induct)
  case (2 c t room ep hdrs)
  let ?x = "if c = 37 then variable_at (c # t) ep hdrs else (NoVariable, ep)"
  obtain x ep1 where x: "?x = (x, ep1)" by (cases ?x)
  show ?case
  proof (cases x)
    case NoVariable
    with 2 x show ?thesis by auto
  next
    case Unresolved
    with 2 x show ?thesis by auto
  next
    case (Expand v n)
    with "2.prems" x obtain s' where s': "s = sanitized v @ s'"
      "fst (expand (drop (n - 1) t) (room - length v) ep1 hdrs) = Some s'"
      "\<not> (n < length v \<and> room \<le> length (c # t) + (length v - n))"
      by (auto split: if_splits)
    from "2.IH"(2) [OF x [symmetric] Expand s'(3,2)] have "count_list s' 47 \<le> count_list (drop (n - 1) t) 47" .
    also have "\<dots> \<le> count_list (c # t) 47"
      by (metis append_take_drop_id count_list_append le_add2 le_trans count_list.simps(2) le_add1)
    finally show ?thesis using s'(1) by simp
  qed
qed simp

section \<open>The operations in the buffer\<close>

lemma expression_sanitize_spec:
  "expression_sanitize (pre @ a @ post) (length pre + length a) (length pre) = Some (pre @ sanitized a @ post)"
proof (induction a arbitrary: pre)
  case Nil
  then show ?case by (simp add: expression_sanitize.simps sanitized_def)
next
  case (Cons c a)
  define c' where "c' = (if c = 47 then 95 else c)"
  have "(if c = 47 then wr (pre @ (c # a) @ post) (length pre) 95 else Some (pre @ (c # a) @ post)) =
      Some ((pre @ [c']) @ a @ post)"
    by (simp add: c'_def list_update_append)
  with Cons.IH [of "pre @ [c']"] show ?case
    by (subst expression_sanitize.simps) (simp add: nth_append sanitized_def c'_def [symmetric])
qed

lemma expression_replace_spec:
  assumes "0 \<notin> set t" "n \<le> length t" "room \<le> length (t @ 0 # post)"
  shows "\<exists>post'. expression_replace (t @ 0 # post) room n v =
      Some (if n < length v \<and> room \<le> length t + (length v - n) then (1, t @ 0 # post)
            else (0, sanitized v @ drop n t @ 0 # post')) \<and>
    (\<not> (n < length v \<and> room \<le> length t + (length v - n)) \<longrightarrow>
       length (sanitized v @ drop n t @ 0 # post') = length (t @ 0 # post))"
proof -
  let ?buf = "t @ 0 # post" and ?k = "length t - n + 1"
  have len: "strlen_at ?buf 0 = Some (length t)" using strlen_at_append [OF assms(1), of "[]" post] by simp
  show ?thesis
  proof (cases "n < length v \<and> room \<le> length t + (length v - n)")
    case True
    then have "expression_replace ?buf room n v = Some (1, ?buf)"
      by (simp only: expression_replace_def len Option.bind.simps simp_thms if_True)
    with True show ?thesis by auto
  next
    case False
    have fits: "length v + ?k \<le> length ?buf" using False assms(2,3) by auto
    have src: "take ?k (drop n ?buf) = drop n t @ [0]" using assms(2) by simp
    define buf1 where "buf1 = take (length v) ?buf @ (drop n t @ [0]) @ drop (length v + ?k) ?buf"
    have mm: "memmove ?buf (length v) n ?k = Some buf1"
      using fits assms(2) src by (simp add: memmove_def put_def buf1_def)
    have lv: "length v \<le> length ?buf" using fits by linarith
    define post' where "post' = drop (length v + ?k) ?buf"
    have pt: "put buf1 0 v = Some (v @ drop n t @ 0 # post')"
    proof -
      have "length v \<le> length buf1" using length_memmove [OF mm] lv by simp
      moreover have "drop (length v) buf1 = drop n t @ 0 # post'"
        using lv by (simp add: buf1_def post'_def)
      ultimately show ?thesis by (simp add: put_def)
    qed
    have san: "expression_sanitize (v @ drop n t @ 0 # post') (length v) 0 = Some (sanitized v @ drop n t @ 0 # post')"
      using expression_sanitize_spec [of "[]" v] by simp
    have "length (sanitized v @ drop n t @ 0 # post') = length ?buf"
      using fits assms(2) by (simp add: post'_def)
    moreover have "expression_replace ?buf room n v = Some (0, sanitized v @ drop n t @ 0 # post')"
      using False by (simp only: expression_replace_def len mm pt san Option.bind.simps if_False)
    ultimately show ?thesis using False by auto
  qed
qed

lemma expression_index_spec:
  assumes "0 \<notin> set s"
  shows "expression_index (pre @ s @ 0 # post) (length pre) = Some (variable_name s)"
proof -
  let ?P = "\<lambda>c. c = 0 \<or> c = 37" and ?a = "takeWhile (\<lambda>c. c \<noteq> 37) s"
  have "\<exists>z r. s @ 0 # post = ?a @ z # r \<and> z = (if 37 \<in> set s then 37 else 0)"
    by (induction s) auto
  then obtain z r where split: "s @ 0 # post = ?a @ z # r" "z = (if 37 \<in> set s then 37 else 0)" by blast
  have "\<forall>c\<in>set ?a. \<not> ?P c" using assms by (auto dest: set_takeWhileD)
  then have "scan ?P (pre @ ?a @ z # r) (length pre) = Some (length pre + length ?a)"
    by (rule scan_append_zero) (simp add: split(2))
  then show ?thesis
    unfolding expression_index_def split(1) by (auto simp: nth_append variable_name_def split(2))
qed

lemma expression_variable_spec:
  assumes "0 \<notin> set t"
  shows "expression_variable (pre @ t @ 0 # post) (length pre) (Some ep) hdrs =
    Some (fst (variable_at t ep hdrs), Some (snd (variable_at t ep hdrs)))"
proof -
  let ?buf = "pre @ t @ 0 # post"
  have lit: "strncmp_eq ?buf (length pre) (bytes ''%endpoint%'') = Some (prefix (bytes ''%endpoint%'') t)"
    "strncmp_eq ?buf (length pre) (bytes ''%cookie:'') = Some (prefix (bytes ''%cookie:'') t)"
    "strncmp_eq ?buf (length pre) (bytes ''%header:'') = Some (prefix (bytes ''%header:'') t)"
    by (rule strncmp_eq_middle; simp add: bytes_def)+
  have index: "expression_index ?buf (length pre + 8) = Some (variable_name (drop 8 t))" if "8 \<le> length t"
  proof -
    have "?buf = (pre @ take 8 t) @ drop 8 t @ 0 # post" by simp
    then show ?thesis
      using expression_index_spec [of "drop 8 t" "pre @ take 8 t" post] assms that
      by (metis append_take_drop_id in_set_dropD length_append length_take min.absorb2)
  qed
  have "8 \<le> length t" if "prefix (bytes ''%cookie:'') t \<or> prefix (bytes ''%header:'') t"
    using that by (auto dest!: prefix_length_le simp: bytes_def)
  with index show ?thesis
    by (simp add: expression_variable_def lit variable_at_def named_value_def split: option.split prod.split)
qed

text \<open>The loop over the template computes the expansion, in place and inside the array.\<close>

definition resolved :: "u8 list \<Rightarrow> u8 list \<Rightarrow> cstring option \<times> cstring \<Rightarrow> (int \<times> u8 list \<times> cstring option) option \<Rightarrow> bool" where
  "resolved buf pre x m \<longleftrightarrow>
     runs m (\<lambda>(r, buf', ep). ep = Some (snd x) \<and> length buf' = length buf \<and>
       (case fst x of None \<Rightarrow> r = 1
        | Some s \<Rightarrow> r = 0 \<and> (\<exists>post'. buf' = pre @ s @ 0 # post')))"

lemma resolved_shift:
  assumes "resolved buf (pre @ a) x m" "length buf = length buf0"
  shows "resolved buf0 pre (map_prod (map_option ((@) a)) id x) m"
  using assms by (cases x; cases "fst x") (auto simp: resolved_def runs_def)

text \<open>One step of the loop, and of the expansion, by what stands at the start of the string.\<close>

lemma expression_resolve_step:
  fixes pre post :: "u8 list"
  assumes "0 \<notin> set (c # t)"
    and x: "(if c = 37 then variable_at (c # t) ep hdrs else (NoVariable, ep)) = (x, ep1)"
  defines "buf \<equiv> pre @ (c # t) @ 0 # post"
  shows "expression_resolve buf len (length pre) (Some ep) hdrs =
    (case x of
       NoVariable \<Rightarrow> expression_resolve buf len (length pre + 1) (Some ep1) hdrs
     | Unresolved \<Rightarrow> Some (1, buf, Some ep1)
     | Expand v n \<Rightarrow>
         do { (r, rest) \<leftarrow> expression_replace ((c # t) @ 0 # post) (len - length pre) n v;
              if r \<noteq> 0 then Some (1, pre @ rest, Some ep1)
              else expression_resolve (pre @ rest) len (length pre + length v) (Some ep1) hdrs })"
proof -
  have "(if c = 37 then expression_variable buf (length pre) (Some ep) hdrs else Some (NoVariable, Some ep)) =
      Some (x, Some ep1)"
    using expression_variable_spec [OF assms(1), of pre post ep hdrs] x by (auto simp: buf_def split: if_splits)
  moreover have "rd buf (length pre) = Some c" "c \<noteq> 0"
    using assms(1) by (auto simp: buf_def nth_append)
  moreover have cut: "drop (length pre) buf = (c # t) @ 0 # post" "take (length pre) buf = pre"
    by (simp_all add: buf_def)
  ultimately show ?thesis
    by (subst expression_resolve.simps [of buf len "length pre"], unfold cut) (cases x; simp)
qed

lemma expand_step:
  assumes "(if c = 37 then variable_at (c # t) ep hdrs else (NoVariable, ep)) = (x, ep1)"
  shows "expand (c # t) room ep hdrs =
    (case x of
       NoVariable \<Rightarrow> map_prod (map_option ((@) [c])) id (expand t (room - 1) ep1 hdrs)
     | Unresolved \<Rightarrow> (None, ep1)
     | Expand v n \<Rightarrow>
         if n < length v \<and> room \<le> length (c # t) + (length v - n) then (None, ep1)
         else map_prod (map_option ((@) (sanitized v))) id (expand (drop (n - 1) t) (room - length v) ep1 hdrs))"
proof -
  have "(@) [c] = (#) c" by (rule ext) simp
  then show ?thesis unfolding expand.simps(2) assms by (cases x) simp_all
qed

lemma resolved_replace:
  assumes "0 \<notin> set t" "n \<le> length t" "len \<le> length (pre @ t @ 0 # post)"
    and rest: "\<And>post'. length (pre @ sanitized v @ drop n t @ 0 # post') = length (pre @ t @ 0 # post) \<Longrightarrow>
      resolved (pre @ sanitized v @ drop n t @ 0 # post') (pre @ sanitized v) y
        (K (pre @ sanitized v @ drop n t @ 0 # post'))"
  shows "resolved (pre @ t @ 0 # post) pre
    (if n < length v \<and> len - length pre \<le> length t + (length v - n) then (None, ep1)
     else map_prod (map_option ((@) (sanitized v))) id y)
    (do { (r, a) \<leftarrow> expression_replace (t @ 0 # post) (len - length pre) n v;
          if r \<noteq> 0 then Some (1, pre @ a, Some ep1) else K (pre @ a) })"
proof -
  let ?full = "n < length v \<and> len - length pre \<le> length t + (length v - n)"
  have "len - length pre \<le> length (t @ 0 # post)" using assms(3) by simp
  from expression_replace_spec [OF assms(1,2) this, of v] obtain post' where
    repl: "expression_replace (t @ 0 # post) (len - length pre) n v =
      Some (if ?full then (1, t @ 0 # post) else (0, sanitized v @ drop n t @ 0 # post'))"
    "\<not> ?full \<Longrightarrow> length (sanitized v @ drop n t @ 0 # post') = length (t @ 0 # post)" by blast
  show ?thesis
  proof (cases ?full)
    case True
    show ?thesis
      unfolding repl(1) Option.bind.simps Eq_TrueI [OF True] if_True prod.case by (simp add: resolved_def)
  next
    case False
    have "length (pre @ sanitized v @ drop n t @ 0 # post') = length (pre @ t @ 0 # post)"
      using repl(2) [OF False] by simp
    from resolved_shift [OF rest [OF this] this] show ?thesis
      unfolding repl(1) Option.bind.simps Eq_FalseI [OF False] if_False prod.case by simp
  qed
qed

lemma expression_resolve_spec:
  assumes "0 \<notin> set t" "len \<le> length (pre @ t @ 0 # post)"
  shows "resolved (pre @ t @ 0 # post) pre (expand t (len - length pre) ep hdrs)
    (expression_resolve (pre @ t @ 0 # post) len (length pre) (Some ep) hdrs)"
  using assms
proof (induction "length t" arbitrary: t pre post ep rule: less_induct)
  case less
  show ?case
  proof (cases t)
    case Nil
    then show ?thesis
      by (subst expression_resolve.simps [of "pre @ t @ 0 # post"]) (simp add: resolved_def nth_append)
  next
    case (Cons c t')
    obtain x ep1 where x: "(if c = 37 then variable_at (c # t') ep hdrs else (NoVariable, ep)) = (x, ep1)"
      by (cases "if c = 37 then variable_at (c # t') ep hdrs else (NoVariable, ep)")
    note step = expression_resolve_step [OF less.prems(1) [unfolded Cons] x] expand_step [OF x]
    show ?thesis
    proof (cases x)
      case NoVariable
      have "resolved ((pre @ [c]) @ t' @ 0 # post) (pre @ [c]) (expand t' (len - length (pre @ [c])) ep1 hdrs)
          (expression_resolve ((pre @ [c]) @ t' @ 0 # post) len (length (pre @ [c])) (Some ep1) hdrs)"
        by (rule less.hyps) (use Cons less.prems in auto)
      from resolved_shift [OF this, of "pre @ t @ 0 # post"] show ?thesis
        unfolding Cons step NoVariable by simp
    next
      case Unresolved
      show ?thesis unfolding Cons step Unresolved by (simp add: resolved_def)
    next
      case (Expand v n)
      have n: "0 < n" "n \<le> length (c # t')"
        using x variable_at_length [of "c # t'" ep hdrs v n ep1] Expand by (auto split: if_splits)
      have dt: "drop (n - 1) t' = drop n (c # t')" using n(1) by (cases n) auto
      show ?thesis
        unfolding Cons step Expand expansion.case dt
      proof (rule resolved_replace, goal_cases)
        case (4 post')
        have "resolved ((pre @ sanitized v) @ drop n (c # t') @ 0 # post') (pre @ sanitized v)
            (expand (drop n (c # t')) (len - length (pre @ sanitized v)) ep1 hdrs)
            (expression_resolve ((pre @ sanitized v) @ drop n (c # t') @ 0 # post') len
              (length (pre @ sanitized v)) (Some ep1) hdrs)"
          by (rule less.hyps) (use n Cons less.prems 4 in \<open>auto dest: in_set_dropD\<close>)
        then show ?case by simp
      qed (use n less.prems Cons in simp_all)
    qed
  qed
qed

section \<open>The query\<close>

text \<open>The files in the order they are tried: the first with a matching line answers.\<close>

fun file_lookup :: "framing_registry \<Rightarrow> (cstring \<Rightarrow> u8 list option) \<Rightarrow> cstring \<Rightarrow> cstring list \<Rightarrow> cstring \<Rightarrow>
  cstring list \<Rightarrow> ws_http_header list \<Rightarrow> (ws_peer_info \<times> cstring option) option" where
  "file_lookup reg files path [] ep protos hdrs = Some (empty_peer\<lparr>peer_protocol := length protos\<rparr>, Some ep)"
| "file_lookup reg files path (ex # exs) ep protos hdrs =
     (case expand (take (BACKEND_FILE_MAX_PATH - length path - 2) ex) (BACKEND_FILE_MAX_PATH - length path - 1) ep hdrs of
        (None, ep1) \<Rightarrow> file_lookup reg files path exs ep1 protos hdrs
      | (Some s, ep1) \<Rightarrow>
          (case files (path @ 47 # s) of
             None \<Rightarrow> file_lookup reg files path exs ep1 protos hdrs
           | Some content \<Rightarrow>
               do { p \<leftarrow> file_search reg protos (file_lines content);
                    case p of None \<Rightarrow> file_lookup reg files path exs ep1 protos hdrs
                    | Some found \<Rightarrow> Some (found, Some ep1) }))"

text \<open>The strings of a request hold no NUL.\<close>

definition nul_free :: "cstring \<Rightarrow> ws_http_header list \<Rightarrow> bool" where
  "nul_free ep hdrs \<longleftrightarrow> 0 \<notin> set ep \<and> (\<forall>h\<in>set hdrs. 0 \<notin> set (value h))"

lemma cookie_find_subset: "cookie_find name v = Some w \<Longrightarrow> set w \<subseteq> set v"
proof (induction name v rule: cookie_find.induct)
  case (1 name v)
  have skip: "set (drop 2 (cookie_skip v)) \<subseteq> set v"
  proof -
    have "set (cookie_skip v) \<subseteq> set v" by (induction v) auto
    then show ?thesis using set_drop_subset by fast
  qed
  note simps = cookie_find.simps [of name v]
  show ?case
  proof (cases "length v < length name + 1 \<or> v ! length name = 61 \<and> take (length name) v = name")
    case True
    with 1(2) show ?thesis
      by (subst (asm) simps) (auto simp: Let_def split: if_splits dest!: set_takeWhileD in_set_dropD)
  next
    case False
    let ?w = "drop 2 (cookie_skip v)"
    from 1(2) False have w: "?w \<noteq> []" "cookie_find name ?w = Some w"
      by (auto simp: simps Let_def split: if_splits)
    show ?thesis using 1(1) [OF _ _ refl w] False skip by auto
  qed
qed

lemma header_value_in: "header_value t hdrs = Some v \<Longrightarrow> \<exists>h\<in>set hdrs. v = value h"
  by (auto simp: header_value_def find_Some_iff)

lemma variable_at_nul_free:
  assumes "nul_free ep hdrs" "variable_at t ep hdrs = (x, ep1)"
  shows "nul_free ep1 hdrs" "x = Expand v n \<Longrightarrow> 0 \<notin> set v"
proof -
  have ep: "0 \<notin> set ep" using assms(1) by (simp add: nul_free_def)
  show "nul_free ep1 hdrs"
    using assms by (auto simp: variable_at_def expression_endpoint_def nul_free_def Let_def
        split: if_splits dest: in_set_butlastD)
  have "0 \<notin> set v" if "expression_endpoint ep = (Expand v n, ep1)"
  proof -
    have "set (tl xs) \<subseteq> set xs" for xs :: cstring by (cases xs) auto
    then show ?thesis
      using that ep by (auto simp: expression_endpoint_def Let_def split: if_splits dest: in_set_butlastD)
  qed
  moreover have "0 \<notin> set v" if "named_value s (\<lambda>name. header_value name hdrs) = Expand v n" for s
    using that assms(1) header_value_in by (fastforce simp: named_value_def nul_free_def split: option.splits)
  moreover have "0 \<notin> set v"
    if "named_value s (\<lambda>name. Option.bind (header_value (bytes ''Cookie'') hdrs) (cookie_find name)) = Expand v n" for s
    using that assms(1) header_value_in [of "bytes ''Cookie''" hdrs] cookie_find_subset
    by (fastforce simp: named_value_def nul_free_def split: option.splits elim!: bind_SomeE)
  ultimately show "x = Expand v n \<Longrightarrow> 0 \<notin> set v"
    using assms(2) by (auto simp: variable_at_def split: if_splits)
qed

lemma sanitized_nul_free [simp]: "0 \<in> set (sanitized v) \<longleftrightarrow> 0 \<in> set v"
  by (auto simp: sanitized_def image_iff)

lemma expand_nul_free:
  "nul_free ep hdrs \<Longrightarrow> 0 \<notin> set t \<Longrightarrow> nul_free (snd (expand t room ep hdrs)) hdrs \<and>
     (\<forall>s. fst (expand t room ep hdrs) = Some s \<longrightarrow> 0 \<notin> set s)"
proof (induction t room ep hdrs rule: expand.induct)
  case (2 c t room ep hdrs)
  let ?x = "if c = 37 then variable_at (c # t) ep hdrs else (NoVariable, ep)"
  obtain x ep1 where x: "?x = (x, ep1)" by (cases ?x)
  have ep1: "nul_free ep1 hdrs" and v: "x = Expand v n \<Longrightarrow> 0 \<notin> set v" for v n
    using x variable_at_nul_free [OF "2.prems"(1)] "2.prems"(1) by (auto split: if_splits)
  show ?case
  proof (cases x)
    case NoVariable
    with "2.IH"(1) [OF x [symmetric]] "2.prems" ep1 x show ?thesis by auto
  next
    case Unresolved
    with ep1 x show ?thesis by auto
  next
    case (Expand v n)
    show ?thesis
    proof (cases "n < length v \<and> room \<le> length (c # t) + (length v - n)")
      case True
      with Expand ep1 x show ?thesis by auto
    next
      case False
      have "0 \<notin> set (drop (n - 1) t)" using "2.prems"(2) by (auto dest: in_set_dropD)
      from "2.IH"(2) [OF x [symmetric] Expand False ep1 this] x v Expand False show ?thesis by auto
    qed
  qed
qed auto

lemma file_target_spec:
  fixes ex :: cstring
  assumes "length target = BACKEND_FILE_MAX_PATH" "length path + 1 < BACKEND_FILE_MAX_PATH"
  defines "t \<equiv> take (BACKEND_FILE_MAX_PATH - length path - 2) ex"
  shows "\<exists>post. file_target path ex target = Some ((path @ [47]) @ t @ 0 # post) \<and>
    length ((path @ [47]) @ t @ 0 # post) = BACKEND_FILE_MAX_PATH"
proof -
  have t: "take (BACKEND_FILE_MAX_PATH - 1) (path @ 47 # ex) = (path @ [47]) @ t"
    using assms(2) unfolding t_def by (simp add: take_Cons' numeral_2_eq_2)
  have "length ((path @ [47]) @ t @ [0]) \<le> BACKEND_FILE_MAX_PATH"
    using assms(2) unfolding t_def by auto
  then show ?thesis
    using assms(1) t by (auto simp: file_target_def put_def)
qed

text \<open>The query opens what \<open>file_lookup\<close> names, in that order, and never leaves its array.\<close>

lemma file_query_lookup:
  assumes "length target = BACKEND_FILE_MAX_PATH" "length path + 1 < BACKEND_FILE_MAX_PATH" "0 \<notin> set path"
    "\<forall>ex\<in>set exs. 0 \<notin> set ex" "nul_free ep hdrs"
  shows "file_query reg files path exs target (Some ep) protos hdrs = file_lookup reg files path exs ep protos hdrs"
  using assms
proof (induction exs arbitrary: target ep)
  case (Cons ex exs)
  define t where "t = take (BACKEND_FILE_MAX_PATH - length path - 2) ex"
  define room where "room = BACKEND_FILE_MAX_PATH - length path - 1"
  obtain post where target: "file_target path ex target = Some ((path @ [47]) @ t @ 0 # post)"
    "length ((path @ [47]) @ t @ 0 # post) = BACKEND_FILE_MAX_PATH"
    using file_target_spec [OF Cons.prems(1,2)] unfolding t_def by blast
  have t0: "0 \<notin> set t" using Cons.prems(4) by (auto simp: t_def dest: in_set_takeD)
  obtain x ep1 where x: "expand t room ep hdrs = (x, ep1)" by (cases "expand t room ep hdrs")
  have ep1: "nul_free ep1 hdrs" and s0: "x = Some s \<Longrightarrow> 0 \<notin> set s" for s
    using expand_nul_free [OF Cons.prems(5) t0, of room] x by auto
  have "room \<le> length ([] @ t @ 0 # post)" using target(2) by (simp add: room_def)
  from expression_resolve_spec [OF t0 this, of ep hdrs] x
  obtain r buf where buf: "expression_resolve (t @ 0 # post) room 0 (Some ep) hdrs = Some (r, buf, Some ep1)"
    "length buf = length (t @ 0 # post)"
    "case x of None \<Rightarrow> r = 1 | Some s \<Rightarrow> r = 0 \<and> (\<exists>post'. buf = s @ 0 # post')"
    by (auto simp: resolved_def runs_def split: option.splits)
  have tgt2: "length ((path @ [47]) @ buf) = BACKEND_FILE_MAX_PATH" using target(2) buf(2) by simp
  have rest: "file_query reg files path exs ((path @ [47]) @ buf) (Some ep1) protos hdrs =
      file_lookup reg files path exs ep1 protos hdrs"
    by (rule Cons.IH) (use tgt2 Cons.prems ep1 in auto)
  have drop: "drop (length path + 1) ((path @ [47]) @ t @ 0 # post) = t @ 0 # post"
    "take (length path + 1) ((path @ [47]) @ t @ 0 # post) = path @ [47]" by simp_all
  have room': "length target - length path - 1 = room" "\<not> length target < length path + 1"
    using Cons.prems(1,2) by (simp_all add: room_def)
  have step: "file_query reg files path (ex # exs) target (Some ep) protos hdrs =
      (if r \<noteq> 0 then file_query reg files path exs ((path @ [47]) @ buf) (Some ep1) protos hdrs
          else do {
            name \<leftarrow> cstr ((path @ [47]) @ buf) 0;
            case files name of
              None \<Rightarrow> file_query reg files path exs ((path @ [47]) @ buf) (Some ep1) protos hdrs
            | Some content \<Rightarrow>
                do { p \<leftarrow> file_search reg protos (file_lines content);
                     case p of
                       None \<Rightarrow> file_query reg files path exs ((path @ [47]) @ buf) (Some ep1) protos hdrs
                     | Some found \<Rightarrow> Some (found, Some ep1) } })"
    unfolding file_query.simps target(1) Option.bind.simps drop room'(1) Eq_FalseI [OF room'(2)] if_False
      buf(1) option.map prod.case ..
  show ?case
  proof (cases x)
    case None
    with buf(3) show ?thesis
      unfolding step rest file_lookup.simps t_def [symmetric] room_def [symmetric] x by simp
  next
    case (Some s)
    with buf(3) obtain post' where s: "r = 0" "buf = s @ 0 # post'" by auto
    have "0 \<notin> set (path @ 47 # s)" using s0 [OF Some] Cons.prems(3) by simp
    from cstr_append [OF this, of "[]" post'] have "cstr ((path @ [47]) @ buf) 0 = Some (path @ 47 # s)"
      unfolding s(2) by simp
    with s(1) Some show ?thesis
      unfolding step rest file_lookup.simps t_def [symmetric] room_def [symmetric] x by simp
  qed
qed simp

lemma backend_file_query_lookup:
  assumes "backend_path st = Some path" "length path + 1 < BACKEND_FILE_MAX_PATH" "0 \<notin> set path"
    and "\<forall>ex\<in>set (expressions st). 0 \<notin> set ex" "nul_free ep hdrs"
  shows "backend_file_query reg files st (Some ep) protos hdrs =
    file_lookup reg files path (expressions st) ep protos hdrs"
proof (cases "expressions st = []")
  case False
  with file_query_lookup [OF length_replicate assms(2-5)] assms(1) show ?thesis
    by (simp add: backend_file_query_def)
qed (simp add: backend_file_query_def)

text \<open>What is opened lies at most as deep below the configured path as its template.\<close>

lemma file_lookup_confined:
  assumes "\<And>ex s. \<lbrakk>ex \<in> set exs; count_list s 47 \<le> count_list ex 47\<rbrakk> \<Longrightarrow> files (path @ 47 # s) = files' (path @ 47 # s)"
  shows "file_lookup reg files path exs ep protos hdrs = file_lookup reg files' path exs ep protos hdrs"
  using assms
proof (induction exs arbitrary: ep)
  case (Cons ex exs)
  let ?t = "take (BACKEND_FILE_MAX_PATH - length path - 2) ex"
  obtain x ep1 where x: "expand ?t (BACKEND_FILE_MAX_PATH - length path - 1) ep hdrs = (x, ep1)"
    by (meson surj_pair)
  have IH: "file_lookup reg files path exs ep1 protos hdrs = file_lookup reg files' path exs ep1 protos hdrs"
    by (rule Cons.IH) (use Cons.prems in auto)
  show ?case
  proof (cases x)
    case (Some s)
    have "count_list s 47 \<le> count_list ?t 47" by (rule expand_slashes [of _ "BACKEND_FILE_MAX_PATH - length path - 1" ep hdrs]) (simp only: x Some fst_conv)
    also have "\<dots> \<le> count_list ex 47"
      by (metis append_take_drop_id count_list_append le_add1)
    finally have "files (path @ 47 # s) = files' (path @ 47 # s)" using Cons.prems by auto
    then show ?thesis
      unfolding file_lookup.simps x Some prod.case option.case IH by simp
  next
    case None
    show ?thesis unfolding file_lookup.simps x None prod.case option.case IH ..
  qed
qed simp

section \<open>Lines\<close>

lemma cstr_in_buffer:
  assumes "0 \<in> set buf"
  obtains s post where "buf = s @ 0 # post" "strlen_at buf 0 = Some (length s)" "cstr buf 0 = Some s" "0 \<notin> set s"
proof -
  obtain s post where s: "buf = s @ 0 # post" "0 \<notin> set s" using split_list_first [OF assms] by blast
  with strlen_at_append [OF s(2), of "[]" post] cstr_append [OF s(2), of "[]" post] show ?thesis
    by (intro that) auto
qed

lemma line_rtrim_runs:
  "p < length buf \<Longrightarrow> 0 \<in> set buf \<Longrightarrow> runs (line_rtrim buf p) (\<lambda>buf'. 0 \<in> set buf')"
proof (induction p arbitrary: buf)
  case (Suc p)
  have "0 \<in> set (buf[Suc p := 0])" using Suc.prems(1) by (simp add: set_update_memI)
  with Suc.IH [of "buf[Suc p := 0]"] Suc.prems show ?case by simp
qed simp

lemma protocol_match_less: "protocol_match pr qs p = Some i \<Longrightarrow> p \<le> i \<and> i < p + length qs"
  by (induction pr qs p rule: protocol_match.induct) (auto split: if_splits)

lemma plugin_framing_returns:
  "registry_find (bytes ''auto'') reg = Some a \<Longrightarrow> runs (plugin_framing reg f) (\<lambda>_. True)"
proof (cases "case f of None \<Rightarrow> None | Some n \<Rightarrow> registry_find n reg")
  case None
  moreover assume "registry_find (bytes ''auto'') reg = Some a"
  ultimately show ?thesis by (subst plugin_framing_unknown) (auto split: option.splits)
next
  case (Some g)
  then show ?thesis by (cases f) (simp_all add: plugin_framing_known)
qed

text \<open>A line is skipped or names a peer, for one of the offers, when there are offers.\<close>

definition found_peer :: "cstring list \<Rightarrow> ws_peer_info \<Rightarrow> bool" where
  "found_peer protos p \<longleftrightarrow>
     (\<exists>h. host p = Some h \<and> 0 \<notin> set h) \<and> framing p \<noteq> None \<and> peer_protocol p < length protos"

lemma file_line_runs:
  assumes "protos \<noteq> []" "registry_find (bytes ''auto'') reg = Some a"
  shows "runs (file_line reg protos line) (\<lambda>r. case r of None \<Rightarrow> True | Some p \<Rightarrow> found_peer protos p)"
proof -
  obtain s post where s: "line @ [0] = s @ 0 # post" "strlen_at (line @ [0]) 0 = Some (length s)"
    by (rule cstr_in_buffer [of "line @ [0]"]) auto
  obtain buf where buf: "line_rtrim (line @ [0]) (length s) = Some buf" "0 \<in> set buf"
    using line_rtrim_runs [of "length s" "line @ [0]"] s(1) by (auto simp: runs_def)
  obtain s' post' where s': "cstr buf 0 = Some s'" "0 \<notin> set s'" by (rule cstr_in_buffer [OF buf(2)])
  have fr: "runs (plugin_framing reg f) (\<lambda>_. True)" for f by (rule plugin_framing_returns [OF assms(2)])
  have less: "protocol_match pr protos 0 = Some i \<Longrightarrow> i < length protos" for pr i
    using protocol_match_less [of pr protos 0 i] by simp
  obtain h c0 where c0: "cut_blank s' = (h, c0)" by (cases "cut_blank s'")
  then have "set h \<subseteq> set s'" by (auto simp: cut_blank_def dest: set_takeWhileD split: list.splits)
  then have h: "0 \<notin> set h" using s'(2) by blast
  show ?thesis
  proof (cases c0)
    case None
    with assms(1) show ?thesis by (simp add: file_line_def s(2) buf(1) s'(1) c0)
  next
    case (Some rest)
    obtain pr c1 where c1: "cut_blank rest = (pr, c1)" by (cases "cut_blank rest")
    obtain fr c2 where c2: "(case c1 of None \<Rightarrow> (None, None) | Some r \<Rightarrow> let (a, b) = cut_blank r in (Some a, b)) = (fr, c2)"
      by (cases "case c1 of None \<Rightarrow> (None, None) | Some r \<Rightarrow> let (a, b) = cut_blank r in (Some a, b)")
    define i where "i = (if pr = bytes ''*'' then 0
        else case protocol_match pr protos 0 of None \<Rightarrow> length protos | Some p \<Rightarrow> p)"
    obtain f where f: "plugin_framing reg fr = Some f" using fr [of fr] by (auto simp: runs_def)
    have "i < length protos" if "i \<noteq> length protos"
      using that assms(1) less by (auto simp: i_def split: if_splits option.splits)
    then show ?thesis
      using assms(1) Some
      by (simp add: file_line_def s(2) buf(1) s'(1) h c0 c1 c2 f i_def [symmetric] found_peer_def empty_peer_def)
  qed
qed

lemma file_search_runs:
  assumes "protos \<noteq> []" "registry_find (bytes ''auto'') reg = Some a"
  shows "runs (file_search reg protos ls) (\<lambda>r. case r of None \<Rightarrow> True | Some p \<Rightarrow> found_peer protos p)"
proof (induction ls)
  case (Cons l ls)
  obtain r where r: "file_line reg protos l = Some r" "case r of None \<Rightarrow> True | Some p \<Rightarrow> found_peer protos p"
    using file_line_runs [OF assms, of l] by (auto simp: runs_def)
  with Cons.IH show ?case by (cases r) simp_all
qed simp

lemma file_lookup_runs:
  assumes "protos \<noteq> []" "registry_find (bytes ''auto'') reg = Some a"
  shows "runs (file_lookup reg files path exs ep protos hdrs)
    (\<lambda>(p, ep'). ep' \<noteq> None \<and> (found_peer protos p \<or> host p = None \<and> peer_protocol p = length protos))"
proof (induction exs arbitrary: ep)
  case Nil
  show ?case by (simp add: empty_peer_def)
next
  case (Cons ex exs)
  obtain x ep1 where x: "expand (take (BACKEND_FILE_MAX_PATH - length path - 2) ex)
      (BACKEND_FILE_MAX_PATH - length path - 1) ep hdrs = (x, ep1)"
    by (meson surj_pair)
  show ?case
  proof (cases "Option.bind x (\<lambda>s. files (path @ 47 # s))")
    case None
    then have "file_lookup reg files path (ex # exs) ep protos hdrs = file_lookup reg files path exs ep1 protos hdrs"
      unfolding file_lookup.simps x by (cases x) auto
    with Cons.IH show ?thesis by simp
  next
    case (Some content)
    then obtain s where s: "x = Some s" "files (path @ 47 # s) = Some content" by (auto elim: bind_SomeE)
    obtain r where r: "file_search reg protos (file_lines content) = Some r"
        "case r of None \<Rightarrow> True | Some p \<Rightarrow> found_peer protos p"
      using file_search_runs [OF assms, of "file_lines content"] by (auto simp: runs_def)
    show ?thesis
      using Cons.IH [of ep1] r unfolding file_lookup.simps x s(1) prod.case option.case s(2)
      by (cases r) simp_all
  qed
qed

text \<open>A line in the documented form, with values that have no blanks, names the peer it says.\<close>

lemma cut_blank_word: "32 \<notin> set a \<Longrightarrow> cut_blank (a @ 32 # b) = (a, Some b)"
  unfolding cut_blank_def by (induction a) (auto split: list.splits)

lemma cut_blank_last: "32 \<notin> set a \<Longrightarrow> cut_blank a = (a, None)"
proof -
  assume "32 \<notin> set a"
  then have "dropWhile (\<lambda>c. c \<noteq> 32) a = []" by auto
  then show ?thesis unfolding cut_blank_def by (simp only: list.case)
qed

lemma line_rtrim_eol:
  assumes "isprint c"
  shows "line_rtrim (s @ [c, 10, 0]) (Suc (Suc (length s))) = Some (s @ [c, 0, 0])"
proof -
  have c: "\<not> isprint 0" "\<not> isprint 10" by (simp_all add: isprint_def)
  have "rd (s @ [c, 10, 0]) (Suc (Suc (length s))) = Some 0" "rd (s @ [c, 10, 0]) (Suc (length s)) = Some 10"
    "wr (s @ [c, 10, 0]) (Suc (Suc (length s))) 0 = Some (s @ [c, 10, 0])"
    "wr (s @ [c, 10, 0]) (Suc (length s)) 0 = Some (s @ [c, 0, 0])"
    by (simp_all add: nth_append list_update_append Suc_diff_le)
  moreover have "line_rtrim (s @ [c, 0, 0]) (length s) = Some (s @ [c, 0, 0])"
    using assms by (cases "length s") (auto simp: nth_append)
  ultimately show ?thesis using c by simp
qed

lemma file_line_parsed:
  assumes "0 \<notin> set (h @ pr @ fr @ conf)" "32 \<notin> set (h @ pr @ fr)" "conf \<noteq> []" "isprint (last conf)"
    and "pr \<in> set protos" "pr \<noteq> bytes ''*''" "plugin_framing reg (Some fr) = Some f"
  shows "\<exists>i < length protos. protos ! i = pr \<and>
    file_line reg protos (h @ 32 # pr @ 32 # fr @ 32 # conf @ [10]) =
      Some (Some (empty_peer\<lparr>host := Some h, framing := Some f, framing_config := Some conf, peer_protocol := i\<rparr>))"
proof -
  let ?s = "h @ 32 # pr @ 32 # fr @ 32 # conf"
  obtain conf' c where c: "conf = conf' @ [c]" "isprint c" using assms(3,4) by (cases conf rule: rev_cases) auto
  let ?s' = "h @ 32 # pr @ 32 # fr @ 32 # conf'"
  have len: "strlen_at (?s @ [10] @ [0]) 0 = Some (Suc (Suc (length ?s')))"
    using strlen_at_append [of "?s @ [10]" "[]" "[]"] assms(1) c(1) by simp
  have rt: "line_rtrim (?s @ [10] @ [0]) (Suc (Suc (length ?s'))) = Some (?s @ [0, 0])"
    using line_rtrim_eol [of c ?s'] c assms(1) by simp
  have s: "cstr (?s @ [0, 0]) 0 = Some ?s"
    using cstr_append [of ?s "[]" "[0]"] assms(1) by simp
  have "\<exists>i. protocol_match pr qs p = Some (p + i) \<and> i < length qs \<and> qs ! i = pr" if "pr \<in> set qs" for qs p
    using that
  proof (induction pr qs p rule: protocol_match.induct)
    case (2 pr q qs p)
    show ?case
    proof (cases "pr = q")
      case False
      with 2 obtain i where "protocol_match pr qs (Suc p) = Some (Suc p + i)" "i < length qs" "qs ! i = pr" by auto
      with False show ?thesis by (intro exI [of _ "Suc i"]) simp
    qed auto
  qed simp
  from this [OF assms(5), of 0] obtain i where i: "protocol_match pr protos 0 = Some i" "i < length protos" "protos ! i = pr"
    by auto
  have "file_line reg protos (?s @ [10]) =
      Some (Some (empty_peer\<lparr>host := Some h, framing := Some f, framing_config := Some conf, peer_protocol := i\<rparr>))"
    using assms(2,6,7) i(1,2)
    by (simp add: file_line_def len [simplified] rt [simplified] s [simplified] cut_blank_word)
  with i show ?thesis by auto
qed

section \<open>Where the query is undefined\<close>

lemma file_query_no_endpoint:
  assumes "length target = BACKEND_FILE_MAX_PATH" "length path + 12 \<le> BACKEND_FILE_MAX_PATH" "0 \<notin> set ex"
    and "prefix (bytes ''%endpoint%'') ex"
  shows "file_query reg files path (ex # exs) target None protos hdrs = None"
proof -
  define t where "t = take (BACKEND_FILE_MAX_PATH - length path - 2) ex"
  have t0: "0 \<notin> set t" using assms(3) by (auto simp: t_def dest: in_set_takeD)
  have "length (bytes ''%endpoint%'') \<le> BACKEND_FILE_MAX_PATH - length path - 2"
    using assms(2) by (simp add: bytes_def)
  with assms(4) have t: "prefix (bytes ''%endpoint%'') t"
    unfolding t_def by (auto simp: prefix_def)
  obtain post where target: "file_target path ex target = Some ((path @ [47]) @ t @ 0 # post)"
    using file_target_spec [OF assms(1), of path ex] assms(2) unfolding t_def by auto
  have "strncmp_eq (t @ 0 # post) 0 (bytes ''%endpoint%'') = Some True"
    using strncmp_eq_string [of "bytes ''%endpoint%''" t post] t by (simp add: bytes_def)
  moreover obtain t' where "t = 37 # t'" using t by (auto simp: bytes_def prefix_def)
  ultimately have "expression_resolve (t @ 0 # post) len 0 None hdrs = None" for len
    by (subst expression_resolve.simps) (simp add: expression_variable_def)
  then show ?thesis by (simp add: target)
qed

lemma file_line_no_subprotocol:
  assumes "isprint c" "0 \<notin> set (s @ [c])" "32 \<notin> set (s @ [c])"
  shows "file_line reg [] (s @ [c, 10]) = None"
proof -
  have "strlen_at (s @ [c, 10, 0]) 0 = Some (Suc (Suc (length s)))"
    using strlen_at_append [of "s @ [c, 10]" "[]" "[]"] assms(2) by simp
  moreover have "cstr (s @ [c, 0, 0]) 0 = Some (s @ [c])"
    using cstr_append [of "s @ [c]" "[]" "[0]"] assms(2) by simp
  moreover have "cut_blank (s @ [c]) = (s @ [c], None)" by (rule cut_blank_last [OF assms(3)])
  ultimately show ?thesis by (simp add: file_line_def line_rtrim_eol [OF assms(1)] del: line_rtrim.simps)
qed

end
