(* ===== verification/Backend_Upgrade.thy ===== *)
theory Backend_Upgrade
  imports Backend_File_Spec Upgrade
begin

text \<open>
  The \<open>file\<close> backend as the backend of a connection: the peers it can name, its contract with the
  connection code (locale \<open>backend_law\<close>), and the upgrade of a connection with it.
\<close>

section \<open>The peers the files can name\<close>

definition names_peer :: "framing_registry \<Rightarrow> (cstring \<Rightarrow> u8 list option) \<Rightarrow> cstring list \<Rightarrow> ws_peer_info \<Rightarrow> bool" where
  "names_peer reg files protos p \<longleftrightarrow>
     (\<exists>name content l. files name = Some content \<and> l \<in> set (file_lines content) \<and> file_line reg protos l = Some (Some p))"

lemma file_search_line:
  "file_search reg protos ls = Some (Some p) \<Longrightarrow> \<exists>l\<in>set ls. file_line reg protos l = Some (Some p)"
  by (induction ls) (auto elim!: bind_SomeE split: option.splits)

lemma file_lookup_names:
  "file_lookup reg files path exs ep protos hdrs = Some (p, ep') \<Longrightarrow>
     names_peer reg files protos p \<or> p = empty_peer\<lparr>peer_protocol := length protos\<rparr>"
proof (induction exs arbitrary: ep)
  case (Cons ex exs)
  then show ?case
    by (auto simp: names_peer_def elim!: bind_SomeE split: prod.splits option.splits)
      (metis file_search_line)+
qed simp

lemma file_query_names:
  "file_query reg files path exs target ep protos hdrs = Some (p, ep') \<Longrightarrow>
     names_peer reg files protos p \<or> p = empty_peer\<lparr>peer_protocol := length protos\<rparr>"
proof (induction exs arbitrary: target ep)
  case (Cons ex exs)
  then show ?case
    by (auto simp: names_peer_def elim!: bind_SomeE split: prod.splits option.splits if_splits)
      (metis file_search_line)+
qed simp

lemma file_line_host:
  assumes "file_line reg protos l = Some (Some p)"
  shows "\<exists>h. host p = Some h \<and> 0 \<notin> set h"
proof -
  from assms obtain buf s h c0 where "cstr buf 0 = Some s" "cut_blank s = (h, c0)" "host p = Some h"
    by (auto simp: file_line_def Let_def elim!: bind_SomeE split: if_splits prod.splits)
  moreover from this(2) have "set h \<subseteq> set s"
    by (auto simp: cut_blank_def dest: set_takeWhileD split: list.splits)
  ultimately show ?thesis using cstr_no_zero by blast
qed

text \<open>Every line that names a peer gives a framing with a configuration it can work with.\<close>

definition files_lawful :: "framing_registry \<Rightarrow> (cstring \<Rightarrow> u8 list option) \<Rightarrow> bool" where
  "files_lawful reg files \<longleftrightarrow>
     (\<forall>protos p. names_peer reg files protos p \<longrightarrow> framing_choice_ok (framing p) (framing_config p))"

lemma plugin_framing_registered:
  assumes "registry_find (bytes ''auto'') reg = Some a" "plugin_framing reg name = Some f"
  shows "f \<in> snd ` set reg"
proof -
  have found: "registry_find n reg = Some g \<Longrightarrow> g \<in> snd ` set reg" for n g
    unfolding registry_find_map_of by (force dest: map_of_SomeD)
  show ?thesis
  proof (cases "Option.bind name (\<lambda>n. registry_find n reg)")
    case None
    then have "plugin_framing reg name = Some a"
      by (intro plugin_framing_unknown [OF assms(1)]) (auto split: option.split)
    with assms(2) found [OF assms(1)] show ?thesis by simp
  next
    case (Some g)
    then obtain n where "name = Some n" "registry_find n reg = Some g" by (auto elim: bind_SomeE)
    with assms(2) found show ?thesis by (simp add: plugin_framing_known)
  qed
qed

text \<open>A library of functions that need no configuration makes any files lawful.\<close>

lemma files_lawful_plain:
  assumes "registry_find (bytes ''auto'') reg = Some a" "snd ` set reg \<subseteq> {framing_auto, framing_binary}"
  shows "files_lawful reg files"
proof -
  have "framing_choice_ok (framing p) (framing_config p)" if "file_line reg protos l = Some (Some p)" for protos l p
  proof -
    from that obtain fr f where "plugin_framing reg fr = Some f" "framing p = Some f"
      by (auto simp: file_line_def Let_def elim!: bind_SomeE split: if_splits prod.splits)
    with plugin_framing_registered [OF assms(1)] assms(2) have "f = framing_auto \<or> f = framing_binary" by blast
    with \<open>framing p = Some f\<close> show ?thesis by (auto simp: framing_choice_ok_def)
  qed
  then show ?thesis by (auto simp: files_lawful_def names_peer_def)
qed

lemma names_peer_lawful:
  assumes "files_lawful reg files" "names_peer reg files protos p \<or> p = empty_peer\<lparr>peer_protocol := length protos\<rparr>"
  shows "peer_lawful p"
  using assms(2)
proof
  assume p: "names_peer reg files protos p"
  then have "framing_choice_ok (framing p) (framing_config p)" using assms(1) by (auto simp: files_lawful_def)
  from framing_choice_lawful [OF this] p file_line_host show ?thesis
    by (fastforce simp: names_peer_def peer_lawful_def split: option.split)
qed (simp add: peer_lawful_def empty_peer_def)

section \<open>The contract\<close>

text \<open>A configured backend, the library of framings, and the files it can read.\<close>

type_synonym file_service = "framing_registry \<times> (cstring \<Rightarrow> u8 list option) \<times> file_backend"

fun file_service_query :: "file_service \<Rightarrow> backend_query" where
  "file_service_query (reg, files, st) = backend_file_query reg files st"

fun file_service_ready :: "file_service \<Rightarrow> bool" where
  "file_service_ready (reg, files, st) \<longleftrightarrow>
     (\<exists>path. backend_path st = Some path \<and> length path + 1 < BACKEND_FILE_MAX_PATH \<and> 0 \<notin> set path) \<and>
     (\<forall>ex\<in>set (expressions st). 0 \<notin> set ex) \<and> registry_find (bytes ''auto'') reg \<noteq> None \<and> files_lawful reg files"

definition file_service_asks :: "cstring option \<Rightarrow> cstring list \<Rightarrow> ws_http_header list \<Rightarrow> bool" where
  "file_service_asks endpoint protos hdrs \<longleftrightarrow> (\<exists>ep. endpoint = Some ep \<and> nul_free ep hdrs) \<and> protos \<noteq> []"

lemma file_lookup_lawful:
  assumes "protos \<noteq> []" "registry_find (bytes ''auto'') reg = Some a" "files_lawful reg files"
  shows "runs (file_lookup reg files path exs ep protos hdrs)
    (\<lambda>(p, ep'). peer_lawful p \<and> ep' \<noteq> None \<and> (host p \<noteq> None \<longrightarrow> peer_protocol p < length protos))"
proof -
  from file_lookup_runs [OF assms(1,2), of files path exs ep hdrs] obtain p ep' where
    q: "file_lookup reg files path exs ep protos hdrs = Some (p, Some ep')"
      "found_peer protos p \<or> host p = None \<and> peer_protocol p = length protos"
    by (auto simp: runs_def)
  with names_peer_lawful [OF assms(3) file_lookup_names [OF q(1)]] show ?thesis by (auto simp: found_peer_def)
qed

interpretation file_service: backend_law file_service_query file_service_ready file_service_asks
proof unfold_locales
  fix x :: file_service and endpoint protos hdrs
  assume x: "file_service_ready x" "file_service_asks endpoint protos hdrs"
  obtain reg files st where s: "x = (reg, files, st)" by (cases x)
  from x(1) s obtain path a where path: "backend_path st = Some path" "length path + 1 < BACKEND_FILE_MAX_PATH"
      "0 \<notin> set path" "\<forall>ex\<in>set (expressions st). 0 \<notin> set ex" "files_lawful reg files"
      "registry_find (bytes ''auto'') reg = Some a" by auto
  from x(2) obtain ep where ep: "endpoint = Some ep" "nul_free ep hdrs" "protos \<noteq> []"
    by (auto simp: file_service_asks_def)
  show "runs (file_service_query x endpoint protos hdrs) (\<lambda>(p, endpoint'). peer_lawful p)"
    unfolding s ep(1) file_service_query.simps backend_file_query_lookup [OF path(1-4) ep(2)]
    by (rule runs_weaken [OF file_lookup_lawful [OF ep(3) path(6,5)]]) auto
qed

text \<open>Whatever it is asked, what it answers is usable.\<close>

interpretation file_service_sound: sound_backend_law file_service_query "\<lambda>(reg, files, st). files_lawful reg files"
proof (unfold_locales, clarsimp)
  fix reg files st endpoint protos hdrs p endpoint'
  assume lawful: "files_lawful reg files"
    and q: "backend_file_query reg files st endpoint protos hdrs = Some (p, endpoint')"
  have "names_peer reg files protos p \<or> p = empty_peer\<lparr>peer_protocol := length protos\<rparr>"
    using q by (auto simp: backend_file_query_def elim!: bind_SomeE dest: file_query_names split: if_splits)
  with lawful show "peer_lawful p" by (rule names_peer_lawful)
qed

end
