(* ===== verification/Props_Backend.thy ===== *)
theory Props_Backend
  imports Backend_Upgrade Examples
begin

text \<open>Properties of the \<open>file\<close> backend.\<close>

section \<open>A configuration\<close>

text \<open>The configuration lines of \<open>plugins/backend_file.cfg\<close>, but for the fallback.\<close>

definition demo_file_backend :: file_backend where
  "demo_file_backend =
     fold (\<lambda>(k, v) st. snd (backend_file_configure k v st))
       [(bytes ''path'', bytes ''files/''), (bytes ''expression'', bytes ''%endpoint%.txt''),
        (bytes ''expression'', bytes ''%cookie:session%.txt'')]
       (snd (backend_file_init file_backend_start))"

lemma demo_file_backend_simps [simp]:
  "backend_path demo_file_backend = Some (bytes ''files'')"
  "expressions demo_file_backend = [bytes ''%endpoint%.txt'', bytes ''%cookie:session%.txt'']"
  by (simp_all add: demo_file_backend_def backend_file_configure_def backend_file_init_def file_backend_start_def
      bytes_def)

lemma demo_path_fits: "length (bytes ''files'') + 1 < BACKEND_FILE_MAX_PATH" "0 \<notin> set (bytes ''files'')"
  by (simp_all add: BACKEND_FILE_MAX_PATH_def bytes_def)

lemma demo_expressions: "\<forall>ex\<in>set (expressions demo_file_backend). 0 \<notin> set ex"
  by (simp add: bytes_def)

lemma demo_request: "nul_free (bytes ''/app/'') []"
  by (simp add: nul_free_def bytes_def)

section \<open>The query\<close>

text \<open>
  C17. A query does what \<open>file_lookup\<close> says, whatever the templates, the endpoint, the headers and
  the files: the templates are expanded on strings, cut to the array; a template with an unresolved
  variable or without room is skipped; the files are opened in order and the first line for one of
  the offers answers. In particular the expansion in place stays inside the array and ends, as long as
  the configured path leaves room for a byte behind its slash.
\<close>

theorem backend_file_query_refines:
  assumes "backend_path st = Some path" "length path + 1 < BACKEND_FILE_MAX_PATH" "0 \<notin> set path"
    and "\<forall>ex\<in>set (expressions st). 0 \<notin> set ex" "nul_free ep hdrs"
  shows "backend_file_query reg files st (Some ep) protos hdrs =
    file_lookup reg files path (expressions st) ep protos hdrs"
  by (rule backend_file_query_lookup [OF assms])

theorem backend_file_query_refines_witness:
  "backend_file_query [(bytes ''auto'', framing_auto)] (\<lambda>_. Some (bytes ''tcp://h *'')) demo_file_backend (Some (bytes ''/app/'')) [bytes ''binary''] [] =
    file_lookup [(bytes ''auto'', framing_auto)] (\<lambda>_. Some (bytes ''tcp://h *'')) (bytes ''files'') (expressions demo_file_backend) (bytes ''/app/'') [bytes ''binary''] []"
  by (rule backend_file_query_refines [OF _ demo_path_fits demo_expressions demo_request]) simp

text \<open>
  C19. What a client sends cannot make the backend open a file deeper below the configured path than a
  template is: two file systems that agree on the names \<open>path/s\<close>, where \<open>s\<close> has at most as many slashes
  as some template, answer every query alike. So no endpoint, cookie or header adds a path component.
\<close>

theorem backend_file_query_confined:
  assumes "backend_path st = Some path" "length path + 1 < BACKEND_FILE_MAX_PATH" "0 \<notin> set path"
    and "\<forall>ex\<in>set (expressions st). 0 \<notin> set ex" "nul_free ep hdrs"
    and "\<forall>ex\<in>set (expressions st). \<forall>s. count_list s 47 \<le> count_list ex 47 \<longrightarrow>
      files (path @ 47 # s) = files' (path @ 47 # s)"
  shows "backend_file_query reg files st (Some ep) protos hdrs = backend_file_query reg files' st (Some ep) protos hdrs"
  unfolding backend_file_query_lookup [OF assms(1-5)]
  by (rule file_lookup_confined) (use assms(6) in blast)

theorem backend_file_query_confined_witness:
  "backend_file_query [(bytes ''auto'', framing_auto)] (\<lambda>n. None) demo_file_backend (Some (bytes ''/app/'')) [bytes ''binary''] [] =
   backend_file_query [(bytes ''auto'', framing_auto)] (\<lambda>n. if n = bytes ''files/app/x.txt'' then Some (bytes ''tcp://h *'') else None)
     demo_file_backend (Some (bytes ''/app/'')) [bytes ''binary''] []"
proof (rule backend_file_query_confined [OF _ demo_path_fits demo_expressions demo_request])
  have "bytes ''files'' @ 47 # s = bytes ''files/app/x.txt'' \<longleftrightarrow> s = bytes ''app/x.txt''" for s
    by (simp add: bytes_def)
  then show "\<forall>ex\<in>set (expressions demo_file_backend). \<forall>s. count_list s 47 \<le> count_list ex 47 \<longrightarrow>
      None = (if bytes ''files'' @ 47 # s = bytes ''files/app/x.txt'' then Some (bytes ''tcp://h *'') else None)"
    by (auto simp: bytes_def)
qed simp

text \<open>
  C29. For a client that has a request path and offers subprotocols the query returns, whatever the
  files hold: with a host, a framing and the index of an offer, or with no host and no offer chosen. The
  strings must be C strings, the configured directory short enough for the path buffer, and the framing
  \<open>auto\<close> registered. The request path is needed: without one (a null endpoint) an expression with the
  variable \<open>endpoint\<close> has nothing to expand, and the query is undefined.
\<close>

theorem backend_file_query_returns:
  assumes "backend_path st = Some path" "length path + 1 < BACKEND_FILE_MAX_PATH" "0 \<notin> set path"
    and "\<forall>ex\<in>set (expressions st). 0 \<notin> set ex" "nul_free ep hdrs"
    and "protos \<noteq> []" "registry_find (bytes ''auto'') reg = Some a"
  shows "\<exists>p ep'. backend_file_query reg files st (Some ep) protos hdrs = Some (p, Some ep') \<and>
    (host p \<noteq> None \<and> framing p \<noteq> None \<and> peer_protocol p < length protos \<or>
     host p = None \<and> peer_protocol p = length protos)"
  unfolding backend_file_query_lookup [OF assms(1-5)]
  using file_lookup_runs [OF assms(6,7), of files path "expressions st" ep hdrs]
  by (auto simp: runs_def found_peer_def)

theorem backend_file_query_returns_witness:
  "\<exists>p ep'. backend_file_query [(bytes ''auto'', framing_auto)] (\<lambda>_. None) demo_file_backend (Some (bytes ''/app/''))
      [bytes ''binary''] [] = Some (p, Some ep') \<and>
    (host p \<noteq> None \<and> framing p \<noteq> None \<and> peer_protocol p < length [bytes ''binary''] \<or>
     host p = None \<and> peer_protocol p = length [bytes ''binary''])"
  by (rule backend_file_query_returns [OF _ demo_path_fits demo_expressions demo_request, where a = framing_auto])
    (simp_all add: registry_find_map_of)

section \<open>A connection with this backend\<close>

text \<open>
  C18. The \<open>file\<close> backend serves the upgrade: for a connection with a request path and offers, with
  the framings in the files configured as they need, a connection that is upgraded at the end of the header
  is connected to the peer that \<open>file_lookup\<close> finds for the path, the offers and the headers, and the
  client is told the offer of that line of the file; otherwise the connection is closed with all its
  descriptors, or waits for the headers that are missing. The end of the header is handled without undefined
  behaviour, but for an upgrade whose accept key does not fit into its array.
\<close>

theorem ws_upgrade_http_file:
  assumes "posix_send E" "ws_inv ws" "peer_fd ws = -1"
    and "request_path ws = Some ep" "nul_free ep (header ws)" "protocol ws \<noteq> []"
    and "file_service_ready (reg, files, st)" "cfg_query SV = backend_file_query reg files st"
  shows "(\<exists>r ws' ext. ws_upgrade_http E SV ws tr = Some (r, ws', tr @ ext) \<and>
    (r = 0 \<and> state ws' = ws_open \<and> 0 \<le> peer_fd ws' \<and> exact ws ext ws' \<and>
       (\<exists>key p. socket_key ws = Some key \<and> key_fits SV key \<and>
          file_lookup reg files (the (backend_path st)) (expressions st) ep (protocol ws) (header ws) =
            Some (p, request_path ws') \<and>
          peer ws' = connected_peer p \<and> peer_protocol p < length (protocol ws) \<and>
          sent_on (ws_fd ws) ext = upgrade_response SV key (protocol ws) (peer_protocol p)) \<or>
     r = 0 \<and> state ws' = ws_closed \<and> exact ws ext ws' \<and> held ws' = {#} \<or>
     r = 1 \<and> ws' = ws \<and> ext = [] \<and> (socket_key ws = None \<or> want_upgrade ws \<noteq> 3))) \<or>
   ws_upgrade_http E SV ws tr = None \<and> websocket_version ws = 13 \<and> want_upgrade ws = 3 \<and>
     (\<exists>key. socket_key ws = Some key \<and> \<not> key_fits SV key)"
proof -
  have asks: "file_service_asks (request_path ws) (protocol ws) (header ws)"
    using assms(4-6) by (simp add: file_service_asks_def)
  have "backend_answers SV ws"
    by (rule file_service.answers [OF assms(7) _ asks]) (simp add: assms(8))
  note outcome = ws_upgrade_http_outcome [OF assms(1) this assms(2,3), of tr]
  have lookup: "cfg_query SV (request_path ws) (protocol ws) (header ws) =
      file_lookup reg files (the (backend_path st)) (expressions st) ep (protocol ws) (header ws)"
    using assms(4,5,7,8) backend_file_query_lookup by auto
  have "peer_protocol p < length (protocol ws)"
    if "cfg_query SV (request_path ws) (protocol ws) (header ws) = Some (p, ep')" "host p \<noteq> None" for p ep'
    using file_lookup_lawful [OF assms(6), of reg _ files "the (backend_path st)" "expressions st" ep "header ws"]
      that assms(7) lookup by auto
  then have up: "upgraded SV ws ext ws' \<Longrightarrow> state ws' = ws_open \<and> 0 \<le> peer_fd ws' \<and> exact ws ext ws' \<and>
       (\<exists>key p. socket_key ws = Some key \<and> key_fits SV key \<and>
          file_lookup reg files (the (backend_path st)) (expressions st) ep (protocol ws) (header ws) =
            Some (p, request_path ws') \<and>
          peer ws' = connected_peer p \<and> peer_protocol p < length (protocol ws) \<and>
          sent_on (ws_fd ws) ext = upgrade_response SV key (protocol ws) (peer_protocol p))" for ext ws'
    unfolding upgraded_def lookup by blast
  from outcome show ?thesis
  proof
    assume "\<exists>r ws' ext. ws_upgrade_http E SV ws tr = Some (r, ws', tr @ ext) \<and>
      (r = 0 \<and> upgraded SV ws ext ws' \<or>
       r = 0 \<and> state ws' = ws_closed \<and> exact ws ext ws' \<and> held ws' = {#} \<or>
       r = 1 \<and> ws' = ws \<and> ext = [] \<and> websocket_version ws = 13 \<and> (socket_key ws = None \<or> want_upgrade ws \<noteq> 3))"
    then obtain r ws' ext where run: "ws_upgrade_http E SV ws tr = Some (r, ws', tr @ ext)"
      "r = 0 \<and> upgraded SV ws ext ws' \<or>
       r = 0 \<and> state ws' = ws_closed \<and> exact ws ext ws' \<and> held ws' = {#} \<or>
       r = 1 \<and> ws' = ws \<and> ext = [] \<and> websocket_version ws = 13 \<and> (socket_key ws = None \<or> want_upgrade ws \<noteq> 3)"
      by blast
    from run(2) up [of ext ws'] show ?thesis
      by (intro disjI1 [OF exI [of _ r]] exI [of _ ws'] exI [of _ ext] conjI [OF run(1)]) blast
  qed (rule disjI2)
qed

text \<open>A client that is ready to be upgraded, and a file that names a peer for its offer.\<close>

definition demo_file_client :: websocket where
  "demo_file_client = ready_client\<lparr>request_path := Some (bytes ''/app/''), protocol := [bytes ''binary'']\<rparr>"

definition demo_file_services :: services where
  "demo_file_services = demo_services\<lparr>cfg_query :=
     backend_file_query [(bytes ''auto'', framing_auto)] (\<lambda>_. Some (bytes ''tcp://h:1 binary auto x'')) demo_file_backend\<rparr>"

lemma demo_file_ready:
  "file_service_ready ([(bytes ''auto'', framing_auto)], \<lambda>_. Some (bytes ''tcp://h:1 binary auto x''), demo_file_backend)"
  using demo_path_fits demo_expressions
  by (simp add: registry_find_map_of files_lawful_plain)

theorem ws_upgrade_http_file_witness:
  "(\<exists>r ws' ext. ws_upgrade_http (demo_env []) demo_file_services demo_file_client [] = Some (r, ws', [] @ ext) \<and>
    (r = 0 \<and> state ws' = ws_open \<and> 0 \<le> peer_fd ws' \<and> exact demo_file_client ext ws' \<and>
       (\<exists>key p. socket_key demo_file_client = Some key \<and> key_fits demo_file_services key \<and>
          file_lookup [(bytes ''auto'', framing_auto)] (\<lambda>_. Some (bytes ''tcp://h:1 binary auto x''))
            (the (backend_path demo_file_backend)) (expressions demo_file_backend) (bytes ''/app/'')
            (protocol demo_file_client) (header demo_file_client) = Some (p, request_path ws') \<and>
          peer ws' = connected_peer p \<and> peer_protocol p < length (protocol demo_file_client) \<and>
          sent_on (ws_fd demo_file_client) ext =
            upgrade_response demo_file_services key (protocol demo_file_client) (peer_protocol p)) \<or>
     r = 0 \<and> state ws' = ws_closed \<and> exact demo_file_client ext ws' \<and> held ws' = {#} \<or>
     r = 1 \<and> ws' = demo_file_client \<and> ext = [] \<and>
       (socket_key demo_file_client = None \<or> want_upgrade demo_file_client \<noteq> 3))) \<or>
   ws_upgrade_http (demo_env []) demo_file_services demo_file_client [] = None \<and>
     websocket_version demo_file_client = 13 \<and> want_upgrade demo_file_client = 3 \<and>
     (\<exists>key. socket_key demo_file_client = Some key \<and> \<not> key_fits demo_file_services key)"
proof (rule ws_upgrade_http_file [OF demo_posix_send _ _ _ _ _ demo_file_ready])
  show "ws_inv demo_file_client"
    using new_client_inv
    by (simp add: demo_file_client_def ready_client_def new_client_def accepted_websocket_def ws_inv_def ws_core_def
        peer_sound_def word_le_nat_alt)
qed (simp_all add: demo_file_client_def demo_file_services_def ready_client_def new_client_def
    accepted_websocket_def nul_free_def bytes_def)

text \<open>
  C30. A configuration line in the documented form, \<open>peer subprotocol framing framing-config\<close> separated
  by single blanks, is read as exactly these values, for the first offer that is its subprotocol.
\<close>

theorem file_line_documented:
  assumes "0 \<notin> set (h @ pr @ fr @ conf)" "32 \<notin> set (h @ pr @ fr)" "conf \<noteq> []" "isprint (last conf)"
    and "pr \<in> set protos" "pr \<noteq> bytes ''*''" "plugin_framing reg (Some fr) = Some f"
  shows "\<exists>i < length protos. protos ! i = pr \<and>
    file_line reg protos (h @ 32 # pr @ 32 # fr @ 32 # conf @ [10]) =
      Some (Some (empty_peer\<lparr>host := Some h, framing := Some f, framing_config := Some conf, peer_protocol := i\<rparr>))"
  using file_line_parsed [OF assms] .

theorem file_line_documented_witness:
  "\<exists>i < length [bytes ''text'', bytes ''binary'']. [bytes ''text'', bytes ''binary''] ! i = bytes ''binary'' \<and>
    file_line [(bytes ''auto'', framing_auto)] [bytes ''text'', bytes ''binary'']
      (bytes ''tcp://h:1'' @ 32 # bytes ''binary'' @ 32 # bytes ''auto'' @ 32 # bytes ''x'' @ [10]) =
      Some (Some (empty_peer\<lparr>host := Some (bytes ''tcp://h:1''), framing := Some framing_auto,
        framing_config := Some (bytes ''x''), peer_protocol := i\<rparr>))"
  by (rule file_line_documented)
    (simp_all add: bytes_def isprint_def plugin_framing_known registry_find_map_of)

text \<open>
  Three departures: a connection without an endpoint and a template that starts with
  \<open>%endpoint%\<close> dereference NULL; so does a line of one word for a client without subprotocols; and
  a value \<open>..\<close> is inserted as it is, so a template with a variable as a directory leaves the path.
\<close>

lemma backend_file_departures:
  assumes "backend_path st = Some path" "length path + 12 \<le> BACKEND_FILE_MAX_PATH"
    and "expressions st = ex # exs" "0 \<notin> set ex" "prefix (bytes ''%endpoint%'') ex"
    and "isprint c" "0 \<notin> set (s @ [c])" "32 \<notin> set (s @ [c])"
  shows "backend_file_query reg files st None protos hdrs = None \<and>
    file_line reg [] (s @ [c, 10]) = None \<and>
    (\<exists>buf. expression_resolve (bytes ''%header:x%/peer'' @ [0]) 16 0 (Some ep)
        [\<lparr>tag = bytes ''x'', value = bytes ''..''\<rparr>] = Some (0, buf, Some ep) \<and>
      cstr buf 0 = Some (bytes ''../peer''))"
proof (intro conjI)
  show "backend_file_query reg files st None protos hdrs = None"
    using file_query_no_endpoint [OF length_replicate assms(2,4,5)] assms(1,3)
    by (simp add: backend_file_query_def)
  show "file_line reg [] (s @ [c, 10]) = None" by (rule file_line_no_subprotocol [OF assms(6-8)])
  let ?t = "bytes ''%header:x%/peer''" and ?hdrs = "[\<lparr>tag = bytes ''x'', value = bytes ''..''\<rparr>]"
  have t: "0 \<notin> set ?t" "16 \<le> length ([] @ ?t @ 0 # [])" by (simp_all add: bytes_def)
  have x: "expand ?t 16 ep ?hdrs = (Some (bytes ''../peer''), ep)"
    by (simp add: bytes_def variable_at_def named_value_def variable_name_def header_value_def sanitized_def)
  from expression_resolve_spec [OF t, of ep ?hdrs]
  have "runs (expression_resolve (?t @ [0]) 16 0 (Some ep) ?hdrs)
      (\<lambda>(r, buf, e). e = Some ep \<and> r = 0 \<and> (\<exists>post. buf = bytes ''../peer'' @ 0 # post))"
    unfolding resolved_def length_0_conv append_Nil list.size(3) minus_nat.diff_0 x fst_conv snd_conv option.case
    by (rule runs_weaken) auto
  then obtain buf post where "expression_resolve (?t @ [0]) 16 0 (Some ep) ?hdrs = Some (0, buf, Some ep)"
    "buf = bytes ''../peer'' @ 0 # post"
    unfolding runs_def by blast
  moreover from this(2) have "cstr buf 0 = Some (bytes ''../peer'')"
    using cstr_append [of "bytes ''../peer''" "[]" post] by (simp add: bytes_def)
  ultimately show "\<exists>buf. expression_resolve (?t @ [0]) 16 0 (Some ep) ?hdrs = Some (0, buf, Some ep) \<and>
      cstr buf 0 = Some (bytes ''../peer'')" by blast
qed

lemma backend_file_departures_witness:
  "backend_file_query reg files demo_file_backend None protos hdrs = None \<and>
    file_line reg [] (bytes ''loca'' @ [108, 10]) = None \<and>
    (\<exists>buf. expression_resolve (bytes ''%header:x%/peer'' @ [0]) 16 0 (Some (bytes ''/app''))
        [\<lparr>tag = bytes ''x'', value = bytes ''..''\<rparr>] = Some (0, buf, Some (bytes ''/app'')) \<and>
      cstr buf 0 = Some (bytes ''../peer''))"
  by (rule backend_file_departures [where path = "bytes ''files''" and ex = "bytes ''%endpoint%.txt''"
        and exs = "[bytes ''%cookie:session%.txt'']"])
    (simp_all add: bytes_def BACKEND_FILE_MAX_PATH_def isprint_def)

end
