(* ===== verification/Service_Order.thy ===== *)
theory Service_Order
  imports Core_Inv
begin

text \<open>
  Services in which something is missing: a backend that does not answer every question, an array too
  small for the accept key. Runs are monotone in the services: a run that is defined is a run of any
  services with more answers and more room. So what holds of all runs with services in which nothing is
  missing (\<open>services_ok\<close>) holds of the runs with a backend that only answers soundly (\<open>services_sound\<close>).
\<close>

section \<open>Clients\<close>

lemma ws_handle_line_mono:
  assumes "services_le SV SV'"
  shows "option_ord (ws_handle_line E SV ws tr) (ws_handle_line E SV' ws tr)"
  unfolding ws_handle_line_def ws_handle_http_def
  by (intro option_ord_rules ws_upgrade_http_mono assms)

lemma ws_data_lines_mono:
  assumes "services_le SV SV'"
  shows "option_ord (ws_data_lines E SV ws got n tr) (ws_data_lines E SV' ws got n tr)"
  using assms
proof (induction E SV ws got n tr rule: ws_data_lines.induct)
  case (1 E SV ws got n tr)
  show ?case
    unfolding ws_data_lines.simps [of E _ ws got n tr]
    by (intro option_ord_rules ws_handle_line_mono "1.IH" "1.prems")
qed

lemma ws_data_mono:
  assumes "services_le SV SV'"
  shows "option_ord (ws_data E SV ws tr) (ws_data E SV' ws tr)"
  unfolding ws_data_def Let_def
  by (intro option_ord_rules) (auto intro!: option_ord_rules ws_data_lines_mono [OF assms] split: ws_state.split)

section \<open>The daemon and the core loop\<close>

lemma daemon_step_mono:
  assumes "services_le SV SV'" "daemon_step E SV lfd d d'"
  shows "daemon_step E SV' lfd d d'"
  using assms(2)
proof cases
  case (client n ss now tr r ws' tr')
  with option_ord_SomeD [OF ws_data_mono [OF assms(1)]] daemon_step.client show ?thesis by blast
qed (auto intro: daemon_step.intros)

lemma daemon_steps_mono:
  assumes "services_le SV SV'" "daemon_steps E SV lfd d d'"
  shows "daemon_steps E SV' lfd d d'"
  using assms(2) by induction (auto intro: rtranclp.rtrancl_into_rtrancl daemon_step_mono [OF assms(1)])

lemma daemon_reach_mono: "services_le SV SV' \<Longrightarrow> daemon_reach E SV lfd d \<Longrightarrow> daemon_reach E SV' lfd d"
  unfolding daemon_reach_def by (rule daemon_steps_mono)

lemma client_service_mono:
  assumes "services_le SV SV'"
  shows "option_ord (client_service E SV interval ready now ws tr) (client_service E SV' interval ready now ws tr)"
  unfolding client_service_def by (intro option_ord_rules ws_data_mono assms)

lemma service_all_mono:
  assumes "services_le SV SV'"
  shows "option_ord (service_all E SV interval ready now ss tr) (service_all E SV' interval ready now ss tr)"
proof (induction ss arbitrary: tr)
  case (Cons ws ss)
  show ?case
    unfolding service_all.simps by (intro option_ord_rules client_service_mono assms Cons.IH)
qed (simp add: option_ord_refl)

lemma main_pass_mono:
  assumes "services_le SV SV'"
  shows "option_ord (main_pass E SV lfd interval ready now ss tr) (main_pass E SV' lfd interval ready now ss tr)"
  unfolding main_pass_def Let_def by (intro option_ord_rules service_all_mono assms)

section \<open>Sound services\<close>

text \<open>The services above them with which nothing is missing: no peer where there is no answer, and room.\<close>

definition answering :: "services \<Rightarrow> services" where
  "answering SV = SV\<lparr>cfg_query := \<lambda>path protos hdrs.
     case cfg_query SV path protos hdrs of None \<Rightarrow> Some (empty_peer, path) | Some x \<Rightarrow> Some x\<rparr>"

abbreviation ample :: "services \<Rightarrow> services" where
  "ample SV \<equiv> answering (roomy SV)"

lemma services_ok_sound: "services_ok SV \<Longrightarrow> services_sound SV"
  by (simp add: services_ok_def services_total_sound)

lemma answering_fits [simp]: "key_fits (answering SV) = key_fits SV"
  by (simp add: key_fits_def accept_encoded_def answering_def fun_eq_iff)

lemma answering_le: "services_le SV (answering SV)"
  unfolding services_le_def answering_fits by (auto simp: answering_def flat_ord_def split: option.split)

lemma ample_le: "services_le SV (ample SV)"
  by (rule services_le_trans [OF roomy_le answering_le])

lemma ample_ok: "services_sound SV \<Longrightarrow> services_ok (ample SV)"
  using roomy_room [of SV]
  by (simp add: services_ok_def accept_room_def services_total_def services_sound_def)
    (auto simp: answering_def roomy_def peer_lawful_def empty_peer_def runs_def split: option.split)

lemma answering_same: "services_total SV \<Longrightarrow> answering SV = SV"
proof -
  assume ok: "services_total SV"
  have "runs (cfg_query SV path protos hdrs) (\<lambda>(p, path'). peer_lawful p)" for path protos hdrs
    using ok by (simp add: services_total_def)
  then have "cfg_query (answering SV) = cfg_query SV"
    by (auto simp: answering_def fun_eq_iff runs_def split: option.split) (metis option.distinct(1))
  then show ?thesis by (simp add: answering_def)
qed

lemma ample_roomy: "services_total SV \<Longrightarrow> ample SV = roomy SV"
  using services_total_roomy [of SV] by (simp add: answering_same services_ok_def)

lemma daemon_steps_sound:
  assumes "posix_send E" "posix_accept E" "services_sound SV" "daemon_steps E SV lfd d d'" "daemon_inv_with M d"
  shows "daemon_inv_with M d'"
  using daemon_steps_inv [OF assms(1,2) ample_ok [OF assms(3)] daemon_steps_mono [OF ample_le assms(4)] assms(5)] .

lemma daemon_reach_sound:
  assumes "posix_send E" "posix_accept E" "services_sound SV" "daemon_reach E SV lfd d"
  shows "daemon_inv d"
  using daemon_reach_inv [OF assms(1,2) ample_ok [OF assms(3)] daemon_reach_mono [OF ample_le assms(4)]] .

end
