(* ===== verification/Core_Loop.thy ===== *)
theory Core_Loop
  imports Service_Order Client_Stream
begin

text \<open>
  The core loop performs events: every pass that is defined is a sequence of events of
  \<open>daemon_step\<close>. And the places where a pass is undefined, followed through the code.
\<close>

section \<open>Where the loop gets stuck\<close>

text \<open>
  The data of one client cannot be handled: it has sent a frame header whose length wraps, or
  something is missing for its upgrade that the services \<open>SV'\<close> have.
\<close>

definition data_stuck :: "env \<Rightarrow> services \<Rightarrow> services \<Rightarrow> websocket \<Rightarrow> trace \<Rightarrow> bool" where
  "data_stuck E SV SV' ws tr \<longleftrightarrow>
     ws_data E SV ws tr = None \<and> (wrapping_frame E ws tr \<or> ws_data E SV' ws tr \<noteq> None)"

text \<open>Serving it: a descriptor is too large for the set, or it is ready and its data cannot be handled.\<close>

definition client_stuck ::
  "env \<Rightarrow> services \<Rightarrow> services \<Rightarrow> int list \<Rightarrow> int \<Rightarrow> websocket \<Rightarrow> trace \<Rightarrow> bool" where
  "client_stuck E SV SV' ready now ws tr \<longleftrightarrow>
     FD_SETSIZE \<le> ws_fd ws \<or>
     (if ws_fd ws \<in> set ready
      then case ws_data E SV (ws\<lparr>last_event := now\<rparr>) tr of
             None \<Rightarrow> data_stuck E SV SV' (ws\<lparr>last_event := now\<rparr>) tr
           | Some (r, ws1, tr1) \<Rightarrow> FD_SETSIZE \<le> peer_fd ws1
      else FD_SETSIZE \<le> peer_fd ws)"

text \<open>The first client of the list that is not served, after those before it have been.\<close>

fun service_stuck ::
  "env \<Rightarrow> services \<Rightarrow> services \<Rightarrow> int \<Rightarrow> int list \<Rightarrow> int \<Rightarrow> websocket list \<Rightarrow> trace \<Rightarrow> bool" where
  "service_stuck E SV SV' interval ready now [] tr \<longleftrightarrow> False"
| "service_stuck E SV SV' interval ready now (ws # ss) tr \<longleftrightarrow>
     (case client_service E SV interval ready now ws tr of
        None \<Rightarrow> client_stuck E SV SV' ready now ws tr
      | Some (leave, ws1, tr1) \<Rightarrow> \<not> leave \<and> service_stuck E SV SV' interval ready now ss tr1)"

definition pass_stuck ::
  "env \<Rightarrow> services \<Rightarrow> services \<Rightarrow> int \<Rightarrow> int \<Rightarrow> int list \<Rightarrow> int \<Rightarrow> websocket list \<Rightarrow> trace \<Rightarrow> bool" where
  "pass_stuck E SV SV' lfd interval ready now ss tr \<longleftrightarrow>
     \<not> fd_settable lfd ss \<or>
     (let (r, ss1, tr1) = (if lfd \<in> set ready then ws_accept E lfd now ss tr else (0, ss, tr))
      in service_stuck E SV SV' interval ready now ss1 tr1)"

section \<open>It gets stuck nowhere else\<close>

lemma ws_data_stuck:
  assumes E: "posix_send E" "services_ok SV'" and inv: "ws_inv ws" and stuck: "ws_data E SV ws tr = None"
  shows "data_stuck E SV SV' ws tr"
  using runs_ws_data_stream [OF E inv, of tr "\<lambda>_. True"] stuck by (auto simp: data_stuck_def runs_def)

lemma ws_data_outcome:
  assumes E: "posix_send E" "services_total SV" and inv: "ws_inv ws"
  shows "(\<exists>ws' ext. ws_data E SV ws tr = Some (0, ws', tr @ ext) \<and> event_done ws ext ws') \<or>
    ws_data E SV ws tr = None \<and>
      (wrapping_frame E ws tr \<or>
       state ws \<noteq> ws_open \<and> \<not> accept_room SV \<and> ws_data E (roomy SV) ws tr \<noteq> None)"
proof (cases "ws_data E SV ws tr")
  case None
  note stuck = ws_data_stuck [OF E(1) services_total_roomy [OF E(2)] inv None]
  show ?thesis
  proof (cases "wrapping_frame E ws tr")
    case False
    with stuck have up: "ws_data E (roomy SV) ws tr \<noteq> None" by (simp add: data_stuck_def)
    have "state ws \<noteq> ws_open"
    proof
      assume st: "state ws = ws_open"
      have core: "ws_core ws" "read_buffer_offset ws < length (read_buffer ws)"
        using inv by (simp_all add: ws_inv_def ws_core_def)
      show False
      proof (cases "client_delivery E ws tr = None \<or> client_delivery E ws tr = Some []")
        case True
        from ws_data_hangup [OF E(1) core(1) this core(2), of SV] None show False by simp
      next
        case no: False
        then obtain ds where "client_delivery E ws tr = Some ds" "ds \<noteq> []" by auto
        with ws_data_defined [OF E(1) inv st this, of SV] False st None show False by (simp add: wrapping_frame_def)
      qed
    qed
    moreover have "\<not> accept_room SV"
    proof
      assume ge: "accept_room SV"
      from up obtain y where y: "ws_data E (roomy SV) ws tr = Some y" by blast
      from option_ord_SomeD [OF ws_data_mono [OF roomy_ge [OF ge]] y] None show False by simp
    qed
    ultimately show ?thesis using None up by blast
  qed (use None in simp)
next
  case (Some x)
  obtain r ws' tr' where x: "x = (r, ws', tr')" by (cases x)
  have "ws_data E (roomy SV) ws tr = Some (r, ws', tr')"
    using option_ord_SomeD [OF ws_data_mono [OF roomy_le] Some] x by simp
  then obtain ext where "r = 0" "tr' = tr @ ext" and done': "event_done ws ext ws'"
    by (rule ws_data_SomeD [OF E(1) services_total_roomy [OF E(2)] inv])
  with Some x have "ws_data E SV ws tr = Some (0, ws', tr @ ext)" by simp
  with done' show ?thesis by (intro disjI1 exI conjI)
qed

text \<open>Serving the peer and the ping is always defined.\<close>

lemma client_service_rest:
  assumes E: "posix_send E" and inv: "ws_inv ws" and fd: "peer_fd ws < FD_SETSIZE"
  shows "do { data \<leftarrow> (if 0 \<le> peer_fd ws then fd_isset ready (peer_fd ws) else Some False);
      (r, ws2, tr2) \<leftarrow> (if data then ws_peer_data E ws tr else Some (0, ws, tr));
      if r \<noteq> 0 then Some (True, ws2, tr2)
      else do { (ws3, tr3) \<leftarrow> client_ping E interval now ws2 tr2; Some (False, ws3, tr3) } } \<noteq> None"
proof -
  have ping: "runs (client_ping E interval now ws' tr') (\<lambda>_. True)" if "ws_inv ws'" for ws' tr'
    by (rule runs_client_ping [OF E that]) simp
  have "runs (do { data \<leftarrow> (if 0 \<le> peer_fd ws then fd_isset ready (peer_fd ws) else Some False);
      (r, ws2, tr2) \<leftarrow> (if data then ws_peer_data E ws tr else Some (0, ws, tr));
      if r \<noteq> 0 then Some (True, ws2, tr2)
      else do { (ws3, tr3) \<leftarrow> client_ping E interval now ws2 tr2; Some (False, ws3, tr3) } }) (\<lambda>_. True)"
    using fd inv by (auto simp: fd_isset_def event_done_def intro!: runs_ws_peer_data [OF E inv] ping)
  then show ?thesis by (auto simp: runs_def)
qed

lemma client_service_stuck:
  assumes E: "posix_send E" "services_ok SV'" "services_le SV SV'" and inv: "ws_inv ws"
    and none: "client_service E SV interval ready now ws tr = None"
  shows "client_stuck E SV SV' ready now ws tr"
proof (rule ccontr)
  assume not: "\<not> client_stuck E SV SV' ready now ws tr"
  have fd: "\<not> ws_fd ws < 0" "ws_fd ws < FD_SETSIZE"
    using none not by (auto simp: client_service_def client_stuck_def split: if_splits)
  have last: "ws_inv (ws\<lparr>last_event := now\<rparr>)" using inv by simp
  show False
  proof (cases "ws_fd ws \<in> set ready")
    case False
    with not client_service_rest [OF E(1) inv, of ready tr interval now] none fd show ?thesis
      by (simp add: client_service_def client_stuck_def fd_isset_def)
  next
    case True
    then obtain r ws1 tr1 where data: "ws_data E SV (ws\<lparr>last_event := now\<rparr>) tr = Some (r, ws1, tr1)" "peer_fd ws1 < FD_SETSIZE"
      using not ws_data_stuck [OF E(1,2) last, of SV tr]
      by (cases "ws_data E SV (ws\<lparr>last_event := now\<rparr>) tr") (auto simp: client_stuck_def)
    from ws_data_SomeD [OF E(1,2) last option_ord_SomeD [OF ws_data_mono [OF E(3)] data(1)]]
    have "r = 0" "ws_inv ws1" by (auto simp: event_done_def)
    with client_service_rest [OF E(1) this(2) data(2), of ready tr1 interval now] data True none fd show ?thesis
      by (simp add: client_service_def fd_isset_def)
  qed
qed

lemma service_all_stuck:
  assumes "posix_send E" "services_ok SV'" "services_le SV SV'"
  shows "\<forall>ws\<in>set ss. ws_inv ws \<Longrightarrow> service_all E SV interval ready now ss tr = None \<Longrightarrow>
    service_stuck E SV SV' interval ready now ss tr"
proof (induction ss arbitrary: tr)
  case (Cons ws ss)
  show ?case
  proof (cases "client_service E SV interval ready now ws tr")
    case None
    with client_service_stuck [OF assms] Cons.prems(1) show ?thesis by simp
  next
    case (Some x)
    obtain leave ws1 tr1 where x: "x = (leave, ws1, tr1)" by (cases x)
    with Some Cons show ?thesis
      by (cases leave; cases "service_all E SV interval ready now ss tr1") auto
  qed
qed simp

lemma main_pass_stuck:
  assumes E: "posix_send E" "posix_accept E" "services_ok SV'" "services_le SV SV'"
    and inv: "daemon_inv \<lparr>socks = ss, log = tr\<rparr>"
    and none: "main_pass E SV lfd interval ready now ss tr = None"
  shows "pass_stuck E SV SV' lfd interval ready now ss tr"
proof (cases "fd_settable lfd ss")
  case True
  then have "lfd < FD_SETSIZE" by (simp add: fd_settable_def)
  obtain r ss1 tr1 where acc: "(if lfd \<in> set ready then ws_accept E lfd now ss tr else (0, ss, tr)) = (r, ss1, tr1)"
    by (rule prod_cases3)
  then have "daemon_inv \<lparr>socks = ss1, log = tr1\<rparr>"
    using inv daemon_inv_accept [OF inv E(2)] by (auto split: if_splits)
  then have "\<forall>ws\<in>set ss1. ws_inv ws" by (simp add: daemon_inv_with_def)
  moreover have "service_all E SV interval ready now ss1 tr1 = None"
    using none True \<open>lfd < FD_SETSIZE\<close> acc by (auto simp: main_pass_def fd_isset_def split: if_splits)
  ultimately show ?thesis
    using service_all_stuck [OF E(1,3,4)] acc by (simp add: pass_stuck_def)
qed (simp add: pass_stuck_def)

text \<open>Where nothing is missing, the services with more answers and room handle nothing more.\<close>

lemma ws_data_ample:
  assumes "services_ok SV"
  shows "ws_data E (ample SV) ws tr = ws_data E SV ws tr"
proof -
  have "services_total SV" "accept_room SV" using assms by (simp_all add: services_ok_def)
  then have "option_ord (ws_data E (ample SV) ws tr) (ws_data E SV ws tr)"
    unfolding ample_roomy [OF \<open>services_total SV\<close>] by (intro ws_data_mono roomy_ge)
  moreover have "option_ord (ws_data E SV ws tr) (ws_data E (ample SV) ws tr)" by (rule ws_data_mono [OF ample_le])
  ultimately show ?thesis unfolding flat_ord_def by metis
qed

section \<open>Code that performs events\<close>

text \<open>
  \<open>performs E SV lfd d m Q\<close>: from state \<open>d\<close>, the code \<open>m\<close>, if it is defined, performs events and ends
  with a result and in a state that satisfy \<open>Q\<close>.
\<close>

definition performs :: "env \<Rightarrow> services \<Rightarrow> int \<Rightarrow> daemon \<Rightarrow> 'a option \<Rightarrow> ('a \<Rightarrow> daemon \<Rightarrow> bool) \<Rightarrow> bool" where
  "performs E SV lfd d m Q \<longleftrightarrow> (\<forall>x. m = Some x \<longrightarrow> (\<exists>d'. daemon_steps E SV lfd d d' \<and> Q x d'))"

lemma performs_return: "Q x d \<Longrightarrow> performs E SV lfd d (Some x) Q"
  by (auto simp: performs_def)

lemma performs_step: "(\<And>x. m = Some x \<Longrightarrow> \<exists>d'. daemon_step E SV lfd d d' \<and> Q x d') \<Longrightarrow> performs E SV lfd d m Q"
  unfolding performs_def by blast

lemma performs_after: "daemon_steps E SV lfd d d' \<Longrightarrow> performs E SV lfd d' m Q \<Longrightarrow> performs E SV lfd d m Q"
  unfolding performs_def by (blast intro: rtranclp_trans)

lemma performs_if:
  "(b \<Longrightarrow> performs E SV lfd d m Q) \<Longrightarrow> (\<not> b \<Longrightarrow> performs E SV lfd d m' Q) \<Longrightarrow>
     performs E SV lfd d (if b then m else m') Q"
  by simp

lemma performs_bind:
  assumes "performs E SV lfd d m P" "\<And>x d'. P x d' \<Longrightarrow> performs E SV lfd d' (f x) Q"
  shows "performs E SV lfd d (Option.bind m f) Q"
  using assms unfolding performs_def by (auto elim!: bind_SomeE) (blast intro: rtranclp_trans)

section \<open>Serving one client\<close>

abbreviation daemon_at :: "websocket list \<Rightarrow> websocket list \<Rightarrow> websocket \<Rightarrow> trace \<Rightarrow> daemon" where
  "daemon_at pre ss ws tr \<equiv> \<lparr>socks = pre @ ws # ss, log = tr\<rparr>"

text \<open>The three things done for a client, as events.\<close>

lemma client_data_performs:
  assumes "0 \<le> ws_fd ws"
  shows "performs E SV lfd (daemon_at pre ss ws tr) (ws_data E SV (ws\<lparr>last_event := now\<rparr>) tr)
    (\<lambda>(r, ws', tr') d. d = daemon_at pre ss ws' tr')"
proof (rule performs_step)
  fix x
  assume run: "ws_data E SV (ws\<lparr>last_event := now\<rparr>) tr = Some x"
  obtain r ws' tr' where "x = (r, ws', tr')" by (cases x)
  with daemon_step.client [of "length pre" "pre @ ws # ss" E SV now tr r ws' tr' lfd] run assms
  show "\<exists>d'. daemon_step E SV lfd (daemon_at pre ss ws tr) d' \<and> (case x of (r, ws', tr') \<Rightarrow> \<lambda>d. d = daemon_at pre ss ws' tr') d'"
    by (simp add: nth_append list_update_append)
qed

lemma peer_data_performs:
  assumes "0 \<le> peer_fd ws"
  shows "performs E SV lfd (daemon_at pre ss ws tr) (ws_peer_data E ws tr)
    (\<lambda>(r, ws', tr') d. d = daemon_at pre ss ws' tr')"
proof (rule performs_step)
  fix x
  assume run: "ws_peer_data E ws tr = Some x"
  obtain r ws' tr' where "x = (r, ws', tr')" by (cases x)
  with daemon_step.peer [of "length pre" "pre @ ws # ss" E tr r ws' tr' SV lfd] run assms
  show "\<exists>d'. daemon_step E SV lfd (daemon_at pre ss ws tr) d' \<and> (case x of (r, ws', tr') \<Rightarrow> \<lambda>d. d = daemon_at pre ss ws' tr') d'"
    by (simp add: nth_append list_update_append)
qed

lemma ping_performs:
  "performs E SV lfd (daemon_at pre ss ws tr) (client_ping E interval now ws tr)
    (\<lambda>(ws', tr') d. d = daemon_at pre ss ws' tr')"
proof (rule performs_step)
  fix x
  assume run: "client_ping E interval now ws tr = Some x"
  obtain ws' tr' where "x = (ws', tr')" by (cases x)
  with daemon_step.ping [of "length pre" "pre @ ws # ss" E interval now tr ws' tr' SV lfd] run
  show "\<exists>d'. daemon_step E SV lfd (daemon_at pre ss ws tr) d' \<and> (case x of (ws', tr') \<Rightarrow> \<lambda>d. d = daemon_at pre ss ws' tr') d'"
    by (simp add: nth_append list_update_append)
qed

lemma fd_isset_performs: "performs E SV lfd d (fd_isset ready fd) (\<lambda>b d'. d' = d)"
  by (auto simp: performs_def)

lemma client_service_performs:
  "performs E SV lfd (daemon_at pre ss ws tr) (client_service E SV interval ready now ws tr)
    (\<lambda>(leave, ws', tr') d. d = daemon_at pre ss ws' tr')"
proof (cases "ws_fd ws < 0")
  case True
  then show ?thesis by (simp add: client_service_def performs_return)
next
  case False
  let ?at = "\<lambda>(r :: int, ws', tr') d. d = daemon_at pre ss ws' tr'"
  have data: "performs E SV lfd (daemon_at pre ss ws tr)
      (if b then ws_data E SV (ws\<lparr>last_event := now\<rparr>) tr else Some (0, ws, tr)) ?at" for b
    using False client_data_performs [of ws] by (simp add: performs_return)
  have sel: "performs E SV lfd d (if 0 \<le> fd then fd_isset ready fd else Some False)
      (\<lambda>b d'. d' = d \<and> (b \<longrightarrow> 0 \<le> fd))" for d fd
    by (auto simp: performs_def)
  have peer: "performs E SV lfd (daemon_at pre ss ws' tr')
      (if b then ws_peer_data E ws' tr' else Some (0, ws', tr')) ?at" if "b \<longrightarrow> 0 \<le> peer_fd ws'" for ws' tr' b
    using that peer_data_performs [of ws'] by (simp add: performs_return)
  have ping: "performs E SV lfd (daemon_at pre ss ws' tr')
      (do { (ws3, tr3) \<leftarrow> client_ping E interval now ws' tr'; Some (False, ws3, tr3) })
      (\<lambda>(leave, ws', tr') d. d = daemon_at pre ss ws' tr')" for ws' tr'
    by (rule performs_bind [OF ping_performs]) (auto intro: performs_return)
  have served: "performs E SV lfd (daemon_at pre ss ws' tr')
      (do { b \<leftarrow> (if 0 \<le> peer_fd ws' then fd_isset ready (peer_fd ws') else Some False);
            (r, ws2, tr2) \<leftarrow> (if b then ws_peer_data E ws' tr' else Some (0, ws', tr'));
            if r \<noteq> 0 then Some (True, ws2, tr2)
            else do { (ws3, tr3) \<leftarrow> client_ping E interval now ws2 tr2; Some (False, ws3, tr3) } })
      (\<lambda>(leave, ws', tr') d. d = daemon_at pre ss ws' tr')" for ws' tr'
    by (rule performs_bind [OF sel], elim conjE, hypsubst, rule performs_bind [OF peer])
      (auto intro!: ping performs_return)
  have rest: "performs E SV lfd (daemon_at pre ss ws' tr')
      (if r \<noteq> 0 then Some (True, ws', tr')
       else do { b \<leftarrow> (if 0 \<le> peer_fd ws' then fd_isset ready (peer_fd ws') else Some False);
            (r, ws2, tr2) \<leftarrow> (if b then ws_peer_data E ws' tr' else Some (0, ws', tr'));
            if r \<noteq> 0 then Some (True, ws2, tr2)
            else do { (ws3, tr3) \<leftarrow> client_ping E interval now ws2 tr2; Some (False, ws3, tr3) } })
      (\<lambda>(leave, ws', tr') d. d = daemon_at pre ss ws' tr')" for r :: int and ws' tr'
    by (rule performs_if) (simp add: performs_return, rule served)
  show ?thesis
    unfolding client_service_def if_not_P [OF False]
    by (rule performs_bind [OF fd_isset_performs], simp only:, rule performs_bind [OF data])
      (clarsimp simp only: prod.case, rule rest)
qed

section \<open>A pass of the core loop\<close>

lemma service_all_performs:
  "performs E SV lfd \<lparr>socks = pre @ ss, log = tr\<rparr> (service_all E SV interval ready now ss tr)
    (\<lambda>(ss', tr') d. d = \<lparr>socks = pre @ ss', log = tr'\<rparr>)"
proof (induction ss arbitrary: pre tr)
  case Nil
  show ?case by (simp add: performs_return)
next
  case (Cons ws ss)
  have tl: "performs E SV lfd (daemon_at pre ss ws' tr')
      (do { (ss1, tr2) \<leftarrow> service_all E SV interval ready now ss tr'; Some (ws' # ss1, tr2) })
      (\<lambda>(ss', tr') d. d = \<lparr>socks = pre @ ss', log = tr'\<rparr>)" for ws' tr'
  proof (rule performs_bind)
    show "performs E SV lfd (daemon_at pre ss ws' tr') (service_all E SV interval ready now ss tr')
      (\<lambda>(ss', tr') d. d = daemon_at pre ss' ws' tr')"
      using Cons.IH [of "pre @ [ws']" tr'] by simp
  qed (auto intro: performs_return)
  show ?case
    unfolding service_all.simps by (rule performs_bind [OF client_service_performs]) (auto intro!: performs_return tl)
qed

lemma main_pass_performs:
  "performs E SV lfd \<lparr>socks = ss, log = tr\<rparr> (main_pass E SV lfd interval ready now ss tr)
    (\<lambda>(ss', tr') d. d = \<lparr>socks = ss', log = tr'\<rparr>)"
proof (cases "fd_settable lfd ss")
  case False
  then show ?thesis by (simp add: main_pass_def performs_def)
next
  case True
  note serve = service_all_performs [of E SV lfd "[]", simplified]
  obtain r ss1 tr1 where acc: "(if lfd \<in> set ready then ws_accept E lfd now ss tr else (0, ss, tr)) = (r, ss1, tr1)"
    by (rule prod_cases3)
  then have steps: "daemon_steps E SV lfd \<lparr>socks = ss, log = tr\<rparr> \<lparr>socks = ss1, log = tr1\<rparr>"
    by (auto split: if_splits intro: daemon_step.accept)
  have "fd_isset ready lfd = Some (lfd \<in> set ready)" using True by (simp add: fd_isset_def fd_settable_def)
  with True acc have "main_pass E SV lfd interval ready now ss tr =
      (if r \<noteq> 0 then Some (ss1, tr1) else service_all E SV interval ready now ss1 tr1)" by (simp add: main_pass_def)
  with serve show ?thesis by (auto intro!: performs_after [OF steps] intro: performs_return)
qed

lemma performs_SomeD:
  assumes "performs E SV lfd d m (\<lambda>(ss', tr') d. d = \<lparr>socks = ss', log = tr'\<rparr>)" "m = Some (ss', tr')"
  shows "daemon_steps E SV lfd d \<lparr>socks = ss', log = tr'\<rparr>"
  using assms by (simp add: performs_def)

end
