(* ===== verification/Props_Daemon.thy ===== *)
theory Props_Daemon
  imports Examples Core_Loop
begin

text \<open>Properties of the event handlers and of the core loop.\<close>

section \<open>Data from the client\<close>

text \<open>
  C6. For a backend that answers every question usably, on any connection that satisfies the invariant,
  and for any bytes the kernel delivers, \<open>ws_data\<close> returns 0 without undefined behaviour: the invariant
  holds again; the connection state has only moved forward; no descriptor was closed twice or kept after
  closing, and none lost on an open connection; nothing was sent to or received from anyone but the two
  ends. There are two exceptions: behind its complete frames, an open connection receives a header
  whose length wraps; or, during the handshake, the accept key overruns its array, which has too little
  room for some key, and with room for it the data would be handled.
\<close>

theorem ws_data_safe:
  assumes "posix_send E" "services_total SV" "ws_inv ws"
  shows "(\<exists>ws' ext. ws_data E SV ws tr = Some (0, ws', tr @ ext) \<and> ws_inv ws' \<and> state ws \<le> state ws' \<and>
      accounts ws ext ws' \<and> (state ws = ws_open \<longrightarrow> exact ws ext ws') \<and> conn_only ws ext) \<or>
    ws_data E SV ws tr = None \<and>
      (wrapping_frame E ws tr \<or>
       state ws \<noteq> ws_open \<and> \<not> accept_room SV \<and> ws_data E (roomy SV) ws tr \<noteq> None)"
  using ws_data_outcome [OF assms, of tr] unfolding event_done_def by blast

theorem ws_data_safe_witness:
  "(\<exists>ws' ext. ws_data (demo_env (bytes ''GET /'')) demo_services new_client [] = Some (0, ws', [] @ ext) \<and>
      ws_inv ws' \<and> state new_client \<le> state ws' \<and> accounts new_client ext ws' \<and>
      (state new_client = ws_open \<longrightarrow> exact new_client ext ws') \<and> conn_only new_client ext) \<or>
    ws_data (demo_env (bytes ''GET /'')) demo_services new_client [] = None \<and>
      (wrapping_frame (demo_env (bytes ''GET /'')) new_client [] \<or>
       state new_client \<noteq> ws_open \<and> \<not> accept_room demo_services \<and>
       ws_data (demo_env (bytes ''GET /'')) (roomy demo_services) new_client [] \<noteq> None)"
  by (rule ws_data_safe [OF demo_posix_send demo_services_total new_client_inv])

text \<open>
  C39. A request line or header that arrives in pieces is damaged: when a read during the handshake
  brings no line end, the offset becomes the size of that read alone, so that the next read
  overwrites what had been buffered before.
\<close>

theorem ws_data_fragment_offset:
  assumes "ws_inv ws" "state ws = ws_new \<or> state ws = ws_http"
    and "rx E tr (ws_fd ws) (WS_MAX_LINE - read_buffer_offset ws - 1) = Some ds" "ds \<noteq> []"
    and "length ds < WS_MAX_LINE - read_buffer_offset ws - 1"
    and "\<forall>i. i + 1 < length ds \<longrightarrow> take 2 (drop i ds) \<noteq> crlf"
  shows "\<exists>ws' ext. ws_data E SV ws tr = Some (0, ws', tr @ ext) \<and> read_buffer_offset ws' = length ds \<and>
    take (read_buffer_offset ws + length ds) (read_buffer ws') = take (read_buffer_offset ws) (read_buffer ws) @ ds"
proof -
  let ?off = "read_buffer_offset ws" and ?k = "length ds"
  have len: "length (read_buffer ws) = WS_MAX_LINE" using assms(1) by (simp add: ws_inv_def ws_core_def)
  have room: "?off + ?k + 1 < WS_MAX_LINE" using assms(5) by simp
  let ?r = "(SysRecv (ws_fd ws) (WS_MAX_LINE - ?off - 1), int ?k)"
  have rc: "recv E (ws_fd ws) (read_buffer ws) ?off (length (read_buffer ws) - ?off - 1) tr =
      Some (int ?k, take ?off (read_buffer ws) @ ds @ drop (?off + ?k) (read_buffer ws), tr @ [?r])"
    using assms(3,5) room len by (simp add: recv_def put_def Let_def)
  define buf where "buf = (take ?off (read_buffer ws) @ ds @ drop (?off + ?k) (read_buffer ws))[?off + ?k := 0]"
  have lbuf: "length buf = WS_MAX_LINE" using room len by (simp add: buf_def)
  have front: "take (?off + ?k) buf = take ?off (read_buffer ws) @ ds"
    using room len by (simp add: buf_def list_update_append)
  let ?ws = "ws\<lparr>read_buffer := buf\<rparr>"
  have lines: "ws_data_lines E SV ?ws ?k 0 (tr @ [?r]) = Some (?ws, ?k, tr @ [?r])"
  proof (rule ws_data_lines_none)
    show "\<forall>i. 0 \<le> i \<longrightarrow> i + 1 < ?k \<longrightarrow> take 2 (drop (read_buffer_offset ?ws + i) (read_buffer ?ws)) \<noteq> crlf"
    proof (intro allI impI)
      fix i assume i: "i + 1 < ?k"
      have "take 2 (drop (?off + i) buf) = take 2 (drop (?off + i) (take (?off + ?k) buf))"
        using i by (simp add: drop_take)
      also have "\<dots> = take 2 (drop i ds)" using room len by (simp add: front)
      finally show "take 2 (drop (read_buffer_offset ?ws + i) (read_buffer ?ws)) \<noteq> crlf"
        using assms(6) i by simp
    qed
  qed (use room lbuf in simp)
  have "ws_data E SV ws tr = Some (0, ?ws\<lparr>read_buffer_offset := ?k\<rparr>, tr @ [?r])"
    using assms(2,4) rc room len lines lbuf by (auto simp: ws_data_def buf_def)
  with front show ?thesis by (intro exI [of _ "?ws\<lparr>read_buffer_offset := ?k\<rparr>"] exI [of _ "[?r]"]) simp
qed

theorem ws_data_fragment_offset_witness:
  "\<exists>ws' ext. ws_data (demo_env (bytes ''T /chat'')) demo_services (new_client\<lparr>read_buffer_offset := 2\<rparr>) [] =
      Some (0, ws', [] @ ext) \<and> read_buffer_offset ws' = length (bytes ''T /chat'') \<and>
    take (read_buffer_offset (new_client\<lparr>read_buffer_offset := 2\<rparr>) + length (bytes ''T /chat'')) (read_buffer ws') =
      take (read_buffer_offset (new_client\<lparr>read_buffer_offset := 2\<rparr>)) (read_buffer (new_client\<lparr>read_buffer_offset := 2\<rparr>)) @
      bytes ''T /chat''"
proof (rule ws_data_fragment_offset)
  show "ws_inv (new_client\<lparr>read_buffer_offset := 2\<rparr>)"
    using new_client_inv by (simp add: ws_inv_def WS_MAX_LINE_def)
  show "\<forall>i. i + 1 < length (bytes ''T /chat'') \<longrightarrow> take 2 (drop i (bytes ''T /chat'')) \<noteq> crlf"
  proof -
    have "list_all (\<lambda>i. take 2 (drop i (bytes ''T /chat'')) \<noteq> crlf) [0..<7]" by code_simp
    then show ?thesis by (auto simp: list_all_iff)
  qed
qed (simp_all add: new_client_def accepted_websocket_def demo_env_def WS_MAX_LINE_def)

section \<open>Data from the peer\<close>

text \<open>
  C7. \<open>ws_peer_data\<close> forwards the peer's byte stream unchanged: for every lawful framing function,
  the frames sent, in order, followed by what stays buffered are exactly what was buffered
  followed by what was received; none is empty, and the wire carries their encodings and nothing
  else. The handler returns; it fails only when a \<open>send\<close> to the client fails, and closes the
  connection when the peer has closed or the buffer has no room.
\<close>

theorem ws_peer_data_stream:
  assumes "posix_send E" "ws_inv ws" "0 \<le> peer_fd ws"
  shows "\<exists>r ws' ext. ws_peer_data E ws tr = Some (r, ws', tr @ ext) \<and> event_done ws ext ws' \<and>
    ((peer_delivery E ws tr = None \<or> peer_delivery E ws tr = Some []) \<and> r = 0 \<and> state ws' = ws_closed \<or>
     (\<exists>ds fs. peer_delivery E ws tr = Some ds \<and> r = 0 \<and> (\<forall>(op, p)\<in>set fs. p \<noteq> []) \<and>
        stream_of fs @ buffered ws' = buffered ws @ ds \<and> sent_on (ws_fd ws) ext = wire fs) \<or>
     r = 1 \<and> send_fails E (ws_fd ws))"
proof -
  have "runs (ws_peer_data E ws tr) (\<lambda>(r, ws', tr'). \<exists>ext. tr' = tr @ ext \<and> event_done ws ext ws' \<and>
    ((peer_delivery E ws tr = None \<or> peer_delivery E ws tr = Some []) \<and> r = 0 \<and> state ws' = ws_closed \<or>
     (\<exists>ds fs. peer_delivery E ws tr = Some ds \<and> r = 0 \<and> (\<forall>(op, p)\<in>set fs. p \<noteq> []) \<and>
        stream_of fs @ buffered ws' = buffered ws @ ds \<and> sent_on (ws_fd ws) ext = wire fs) \<or>
     r = 1 \<and> send_fails E (ws_fd ws)))"
    by (rule runs_ws_peer_data [OF assms]) auto
  then obtain x where x: "ws_peer_data E ws tr = Some x" "case x of (r, ws', tr') \<Rightarrow>
    \<exists>ext. tr' = tr @ ext \<and> event_done ws ext ws' \<and>
    ((peer_delivery E ws tr = None \<or> peer_delivery E ws tr = Some []) \<and> r = 0 \<and> state ws' = ws_closed \<or>
     (\<exists>ds fs. peer_delivery E ws tr = Some ds \<and> r = 0 \<and> (\<forall>(op, p)\<in>set fs. p \<noteq> []) \<and>
        stream_of fs @ buffered ws' = buffered ws @ ds \<and> sent_on (ws_fd ws) ext = wire fs) \<or>
     r = 1 \<and> send_fails E (ws_fd ws))"
    unfolding runs_def by blast
  obtain r ws' tr' where "x = (r, ws', tr')" by (cases x)
  with x show ?thesis by (simp only: prod.case) blast
qed

theorem ws_peer_data_stream_witness:
  "\<exists>r ws' ext. ws_peer_data (demo_env (bytes ''data'')) open_client [] = Some (r, ws', [] @ ext) \<and>
    event_done open_client ext ws' \<and>
    ((peer_delivery (demo_env (bytes ''data'')) open_client [] = None \<or>
      peer_delivery (demo_env (bytes ''data'')) open_client [] = Some []) \<and> r = 0 \<and> state ws' = ws_closed \<or>
     (\<exists>ds fs. peer_delivery (demo_env (bytes ''data'')) open_client [] = Some ds \<and> r = 0 \<and> (\<forall>(op, p)\<in>set fs. p \<noteq> []) \<and>
        stream_of fs @ buffered ws' = buffered open_client @ ds \<and> sent_on (ws_fd open_client) ext = wire fs) \<or>
     r = 1 \<and> send_fails (demo_env (bytes ''data'')) (ws_fd open_client))"
  by (rule ws_peer_data_stream [OF demo_posix_send open_client_inv])
    (simp add: open_client_def new_client_def accepted_websocket_def)

text \<open>
  C40. With a malformed separator configured, the loop of \<open>ws_peer_data\<close> does not end once the peer
  has sent anything: the framing function's error result is not handled.
\<close>

theorem ws_peer_loop_hangs:
  assumes "framing (peer ws) = Some framing_separator" "framing_config (peer ws) = Some c"
    and "0 \<notin> set c" "unescape c = None" "peer_framing_data ws = FNull" "0 < peer_buffer_offset ws + got"
  shows "ws_peer_loop E ws got op tr = None"
proof -
  have "separator_parse (c @ [0]) 0 0 = Some None"
    using separator_parse_config [OF assms(3)] assms(4) by auto
  then have "framing_separator (Some d) len got (Some op) (Some FNull) (Some c) = Some (-1, Some op, Some FNull)"
    for d len op by (simp add: framing_separator_def)
  with assms ws_peer_loop_negative [where f = framing_separator and E = E and ws = ws and got = got and op = op and tr = tr]
  show ?thesis by (cases "ws_peer_loop E ws got op tr") auto
qed

theorem ws_peer_loop_hangs_witness:
  "ws_peer_loop (demo_env [])
     (open_client\<lparr>peer := (peer open_client)\<lparr>framing := Some framing_separator,
        framing_config := Some (bytes [CHR 92, CHR ''x'', CHR ''g''])\<rparr>\<rparr>) 3 ws_frame_binary [] = None"
proof (rule ws_peer_loop_hangs)
  show "unescape (bytes [CHR 92, CHR ''x'', CHR ''g'']) = None" by code_simp
qed (simp_all add: bytes_def open_client_def new_client_def accepted_websocket_def)

section \<open>The registry of clients\<close>

text \<open>
  A new client takes the first slot whose client is gone, and otherwise extends the list; no
  other connection is touched.
\<close>

lemma client_register_slot:
  "\<exists>n. client_register ws ss = (0, if n = length ss then ss @ [ws] else ss[n := ws]) \<and> n \<le> length ss \<and>
     (n = length ss \<or> ws_fd (ss ! n) = -1) \<and> (\<forall>m\<in>{..<n}. ws_fd (ss ! m) \<noteq> -1)"
proof (intro exI [of _ "client_slot ss"] conjI)
  show "client_slot ss = length ss \<or> ws_fd (ss ! client_slot ss) = -1"
    using client_slot_le [of ss] client_slot_free [of ss] by linarith
qed (use client_slot_le client_slot_first in \<open>auto simp: client_register_eq\<close>)

lemma client_register_slot_witness:
  "\<exists>n. client_register new_client [open_client, open_client\<lparr>ws_fd := -1\<rparr>] =
      (0, if n = length [open_client, open_client\<lparr>ws_fd := -1\<rparr>] then [open_client, open_client\<lparr>ws_fd := -1\<rparr>] @ [new_client]
          else [open_client, open_client\<lparr>ws_fd := -1\<rparr>][n := new_client]) \<and>
     n \<le> length [open_client, open_client\<lparr>ws_fd := -1\<rparr>] \<and>
     (n = length [open_client, open_client\<lparr>ws_fd := -1\<rparr>] \<or> ws_fd ([open_client, open_client\<lparr>ws_fd := -1\<rparr>] ! n) = -1) \<and>
     (\<forall>m\<in>{..<n}. ws_fd ([open_client, open_client\<lparr>ws_fd := -1\<rparr>] ! m) \<noteq> -1)"
  by (rule client_register_slot)

section \<open>The core loop\<close>

text \<open>
  C3. In every state the daemon can reach, by any sequence of accepted clients, client data, peer
  data and pings, with any environment and any backend whose answers are usable (it need not answer
  every question), every connection satisfies its invariant, and the descriptors closed so far together
  with those held are among those obtained: none was closed more often than it was obtained, and what
  a connection holds has not been closed.
\<close>

theorem daemon_reachable_inv:
  assumes "posix_send E" "posix_accept E" "services_sound SV" "daemon_reach E SV lfd d"
  shows "(\<forall>ws\<in>set (socks d). ws_inv ws) \<and>
    mset (closed_in (log d)) + total_held (socks d) \<subseteq># mset (opened_in (log d))"
  using daemon_reach_sound [OF assms] by (simp add: daemon_inv_with_def)

theorem daemon_reachable_inv_witness:
  "\<exists>d :: daemon. socks d \<noteq> [] \<and> (\<forall>ws\<in>set (socks d). ws_inv ws) \<and>
    mset (closed_in (log d)) + total_held (socks d) \<subseteq># mset (opened_in (log d))"
proof -
  let ?d = "\<lparr>socks = [accepted_websocket 5 1], log = [(SysAccept 3, 5)]\<rparr>"
  have "ws_accept (demo_env []) 3 1 [] [] = (0, [accepted_websocket 5 1], [(SysAccept 3, 5)])"
    by (simp add: ws_accept_def do_sys_def client_register_def demo_env_def demo_sys_def)
  then have "daemon_step (demo_env []) demo_services 3 \<lparr>socks = [], log = []\<rparr> ?d"
    by (rule daemon_step.accept)
  then have "daemon_reach (demo_env []) demo_services 3 ?d" by (auto simp: daemon_reach_def)
  from daemon_reachable_inv [OF demo_posix_send demo_posix_accept services_ok_sound [OF demo_services_ok] this]
  show ?thesis by (intro exI [of _ ?d]) simp
qed

text \<open>
  C4. The core loop implements the event relation: a pass over the clients from an invariant state,
  for any set of ready descriptors and any time, performs a sequence of events and ends in the
  invariant state the last of them leaves; or it is undefined, and gets stuck at the first client that, after
  those before it were served, has a descriptor of \<open>FD_SETSIZE\<close> or more, has sent a frame header whose
  length wraps, or has sent data that would be handled if the backend had answered its request and the
  array of the accept key had room. With services that answer everything and have the room, the last
  case is out: there the data would have to be handled by the very services that do not.
\<close>

theorem main_pass_refines:
  assumes "posix_send E" "posix_accept E" "services_sound SV"
    and "daemon_inv \<lparr>socks = ss, log = tr\<rparr>"
  shows "(\<exists>ss' tr'. main_pass E SV lfd interval ready now ss tr = Some (ss', tr') \<and>
       daemon_steps E SV lfd \<lparr>socks = ss, log = tr\<rparr> \<lparr>socks = ss', log = tr'\<rparr> \<and>
       daemon_inv \<lparr>socks = ss', log = tr'\<rparr>) \<or>
    main_pass E SV lfd interval ready now ss tr = None \<and>
       pass_stuck E SV (ample SV) lfd interval ready now ss tr \<and>
       (services_ok SV \<longrightarrow> pass_stuck E SV SV lfd interval ready now ss tr)"
proof (cases "main_pass E SV lfd interval ready now ss tr")
  case None
  with main_pass_stuck [OF assms(1,2) ample_ok [OF assms(3)] ample_le assms(4)]
    main_pass_stuck [OF assms(1,2) _ services_le_refl assms(4)] show ?thesis by blast
next
  case (Some x)
  then obtain ss' tr' where run: "main_pass E SV lfd interval ready now ss tr = Some (ss', tr')" by (cases x) auto
  from performs_SomeD [OF main_pass_performs run] daemon_steps_sound [OF assms(1-3) _ assms(4)] run
  show ?thesis by blast
qed

theorem main_pass_refines_witness:
  "(\<exists>ss' tr'. main_pass (demo_env []) demo_services 3 30 [3, 5] 1 [new_client] [(SysAccept 3, 5)] = Some (ss', tr') \<and>
       daemon_steps (demo_env []) demo_services 3 \<lparr>socks = [new_client], log = [(SysAccept 3, 5)]\<rparr> \<lparr>socks = ss', log = tr'\<rparr> \<and>
       daemon_inv \<lparr>socks = ss', log = tr'\<rparr>) \<or>
    main_pass (demo_env []) demo_services 3 30 [3, 5] 1 [new_client] [(SysAccept 3, 5)] = None \<and>
       pass_stuck (demo_env []) demo_services (ample demo_services) 3 30 [3, 5] 1 [new_client] [(SysAccept 3, 5)] \<and>
       (services_ok demo_services \<longrightarrow>
        pass_stuck (demo_env []) demo_services demo_services 3 30 [3, 5] 1 [new_client] [(SysAccept 3, 5)])"
proof (rule main_pass_refines [OF demo_posix_send demo_posix_accept services_ok_sound [OF demo_services_ok]])
  show "daemon_inv \<lparr>socks = [new_client], log = [(SysAccept 3, 5)]\<rparr>"
    using new_client_inv by (simp add: daemon_inv_with_def) (simp add: new_client_def held_accepted fd_list_def)
qed

text \<open>
  C37. Shutting down from an invariant state returns and closes exactly the descriptors the
  connections hold, each once, and then the listening socket; no connection is left.
\<close>

theorem main_shutdown_closes:
  assumes "posix_send E" "daemon_inv \<lparr>socks = ss, log = tr\<rparr>"
  shows "\<exists>ext. main_shutdown E lfd ss tr = Some ([], tr @ ext) \<and> opened_in ext = [] \<and>
    mset (closed_in ext) = total_held ss + {#lfd#}"
proof -
  have "\<forall>ws\<in>set ss. ws_inv ws" using assms(2) by (simp add: daemon_inv_with_def)
  then obtain ext where "close_all E ss tr = Some (tr @ ext)" "opened_in ext = []"
    "mset (closed_in ext) = total_held ss"
    using close_all_closes [OF assms(1), of ss tr] by blast
  then show ?thesis
    by (intro exI [of _ "ext @ [(SysClose lfd, sys E (tr @ ext) (SysClose lfd))]"])
      (simp add: main_shutdown_def client_cleanup_def do_sys_def)
qed

theorem main_shutdown_closes_witness:
  "\<exists>ext. main_shutdown (demo_env []) 3 [new_client] [(SysAccept 3, 5)] = Some ([], [(SysAccept 3, 5)] @ ext) \<and>
    opened_in ext = [] \<and> mset (closed_in ext) = total_held [new_client] + {#3#}"
proof (rule main_shutdown_closes [OF demo_posix_send])
  show "daemon_inv \<lparr>socks = [new_client], log = [(SysAccept 3, 5)]\<rparr>"
    using new_client_inv by (simp add: daemon_inv_with_def) (simp add: new_client_def held_accepted fd_list_def)
qed

end
