(* ===== verification/Relay.thy ===== *)
theory Relay
  imports Client_Stream Service_Order
begin

text \<open>
  The daemon as a relay: over any run in which a connection stays open, whatever other connections
  do in between, what the client's frames carry reaches the peer, and what the peer sends reaches
  the client in frames, in order and without loss.
\<close>

section \<open>What was received\<close>

text \<open>
  The bytes the calls in \<open>ext\<close> have received on a descriptor; \<open>tr\<close> is the trace before them.
\<close>

fun event_received :: "env \<Rightarrow> int \<Rightarrow> trace \<Rightarrow> syscall \<times> int \<Rightarrow> u8 list" where
  "event_received E fd tr (SysRecv fd' len, r) =
     (if fd' = fd then case rx E tr fd len of None \<Rightarrow> [] | Some ds \<Rightarrow> take len ds else [])"
| "event_received E fd tr _ = []"

fun received_on :: "env \<Rightarrow> int \<Rightarrow> trace \<Rightarrow> trace \<Rightarrow> u8 list" where
  "received_on E fd tr [] = []"
| "received_on E fd tr (e # ext) = event_received E fd tr e @ received_on E fd (tr @ [e]) ext"

lemma received_on_append:
  "received_on E fd tr (xs @ ys) = received_on E fd tr xs @ received_on E fd (tr @ xs) ys"
  by (induction xs arbitrary: tr) simp_all

lemma event_received_none:
  "\<not> is_recv e \<Longrightarrow> event_received E fd tr e = []" "\<not> is_io fd e \<Longrightarrow> event_received E fd tr e = []"
  by (cases "(E, fd, tr, e)" rule: event_received.cases; simp)+

lemma received_on_none: "\<forall>e\<in>set ext. \<not> is_recv e \<Longrightarrow> received_on E fd tr ext = []"
  by (induction ext arbitrary: tr) (simp_all add: event_received_none(1))

lemma received_on_untouched: "untouched fd ext \<Longrightarrow> received_on E fd tr ext = []"
  by (induction ext arbitrary: tr) (simp_all add: event_received_none(2))

lemma received_on_exchanged: "exchanged ws ext a b \<Longrightarrow> received_on E fd tr ext = []"
  by (simp add: exchanged_sends_only(1) received_on_none)

section \<open>One event of the connection\<close>

lemma ws_peer_data_closes:
  assumes "posix_send E" "ws_inv ws" "0 \<le> peer_fd ws" "ws_peer_data E ws tr = Some (r, ws', tr')"
    and "peer_delivery E ws tr = None \<or> peer_delivery E ws tr = Some []"
  shows "state ws' = ws_closed"
proof -
  have "runs (ws_peer_data E ws tr) (\<lambda>(r, ws', tr'). state ws' = ws_closed)"
    by (rule runs_ws_peer_data [OF assms(1-3)]) (use assms(5) in auto)
  with assms(4) show ?thesis by simp
qed

context framing_shape_law
begin

lemma ws_peer_data_relays:
  assumes E: "posix_send E" "\<not> send_fails E (ws_fd ws)" and fds: "ws_fd ws \<noteq> peer_fd ws"
    and f: "framing (peer ws) = Some f" "framing_config (peer ws) = cfg" "I (peer_framing_data ws)"
    and d: "peer_buffer_offset ws < length (peer_buffer ws)" "peer_delivery E ws tr = Some ds" "ds \<noteq> []"
    and run: "ws_peer_data E ws tr = Some (r, ws', tr')"
  obtains fs fdata b off ext where "stream_of fs @ buffered ws' = buffered ws @ ds" "\<forall>(op, p)\<in>set fs. p \<noteq> []"
    "ws' = ws\<lparr>peer_framing_data := fdata, peer_buffer := b, peer_buffer_offset := off\<rparr>"
    "tr' = tr @ (SysRecv (peer_fd ws) (length (peer_buffer ws) - peer_buffer_offset ws - 1), int (length ds)) # ext"
    "exchanged ws ext [] (wire fs)"
proof -
  obtain buf1 where b: "length buf1 = length (peer_buffer ws)"
    "peer_buffer_offset ws + length ds < length (peer_buffer ws)"
    "take (peer_buffer_offset ws + length ds) buf1 = buffered ws @ ds"
    and eq: "ws_peer_data E ws tr = Option.bind
       (ws_peer_loop E (ws\<lparr>peer_buffer := buf1\<rparr>) (length ds) ws_frame_binary
          (tr @ [(SysRecv (peer_fd ws) (length (peer_buffer ws) - peer_buffer_offset ws - 1), int (length ds))]))
       peer_data_end"
    by (rule ws_peer_data_delivered [OF d])
  let ?r = "(SysRecv (peer_fd ws) (length (peer_buffer ws) - peer_buffer_offset ws - 1), int (length ds))"
  let ?Q = "\<lambda>(r, ws', tr'). \<exists>fs fdata b off ext. stream_of fs @ buffered ws' = buffered ws @ ds \<and>
    (\<forall>(op, p)\<in>set fs. p \<noteq> []) \<and>
    ws' = ws\<lparr>peer_framing_data := fdata, peer_buffer := b, peer_buffer_offset := off\<rparr> \<and>
    tr' = tr @ ?r # ext \<and> exchanged ws ext [] (wire fs)"
  have "runs (ws_peer_loop E (ws\<lparr>peer_buffer := buf1\<rparr>) (length ds) ws_frame_binary (tr @ [?r]))
      (\<lambda>x. runs (peer_data_end x) ?Q)"
  proof (rule runs_ws_peer_loop [OF E(1)], goal_cases)
    case (5 fs ws' got ext)
    then obtain fdata b off where w: "ws' = ws\<lparr>peer_framing_data := fdata, peer_buffer := b, peer_buffer_offset := off\<rparr>"
      "stream_of fs @ take (off + got) b = buffered ws @ ds"
      using b(3) by (auto simp: peer_pass_def)
    moreover have "\<forall>(op, p)\<in>set fs. p \<noteq> []" using 5(1) by (fastforce simp: peer_pass_def)
    moreover have "exchanged ws ext [] (wire fs)" using exchanged_sends(2) [OF fds] 5(2,3) by simp
    ultimately show ?case by (auto simp: peer_data_end_def buffered_def intro!: exI [of _ fs])
  next
    case (6 fs op p ws' got' len' ext)
    with E(2) show ?case by simp
  qed (use f b in simp_all)
  then have "runs (ws_peer_data E ws tr) ?Q" by (simp add: eq)
  with run have "?Q (r, ws', tr')" by simp
  with that show ?thesis by auto
qed

end

lemma ws_peer_data_open:
  assumes E: "posix_send E" "\<not> send_fails E (ws_fd ws)" and inv: "ws_inv ws" and st: "state ws = ws_open"
    and fds: "ws_fd ws \<noteq> peer_fd ws" and run: "ws_peer_data E ws tr = Some (r, ws', tr')" "state ws' \<noteq> ws_closed"
  obtains ds fs fdata b off ext where "peer_delivery E ws tr = Some ds"
    "stream_of fs @ buffered ws' = buffered ws @ ds"
    "ws' = ws\<lparr>peer_framing_data := fdata, peer_buffer := b, peer_buffer_offset := off\<rparr>"
    "tr' = tr @ (SysRecv (peer_fd ws) (length (peer_buffer ws) - peer_buffer_offset ws - 1), int (length ds)) # ext"
    "exchanged ws ext [] (wire fs)"
proof -
  have core: "ws_core ws" and fd: "0 \<le> peer_fd ws" and off: "peer_buffer_offset ws < length (peer_buffer ws)"
    using inv st by (simp_all add: ws_inv_def ws_core_def)
  obtain f I where f: "framing (peer ws) = Some f" "framing_law f (framing_config (peer ws)) I" "I (peer_framing_data ws)"
    using core fd by (auto simp: ws_core_def peer_sound_def)
  obtain ds where ds: "peer_delivery E ws tr = Some ds" "ds \<noteq> []"
    using ws_peer_data_closes [OF E(1) inv fd run(1)] run(2) by (cases "peer_delivery E ws tr") auto
  show ?thesis
    by (rule framing_shape_law.ws_peer_data_relays
        [OF framing_law_any_shape [OF f(2)] E fds f(1) refl f(3) off ds run(1)]) (rule that [OF ds(1)])
qed

lemma client_ping_open:
  assumes E: "posix_send E" and inv: "ws_inv ws" and fds: "ws_fd ws \<noteq> peer_fd ws"
    and run: "client_ping E interval now ws tr = Some (ws', tr')" "state ws' \<noteq> ws_closed"
  obtains ps ext where "ws' = ws" "tr' = tr @ ext" "set ps \<subseteq> {(ws_frame_ping, bytes ''PING'')}"
    "exchanged ws ext [] (wire ps)"
proof -
  have rel: "framing_releasable ws" using inv by (simp add: ws_inv_def ws_core_def peer_sound_releasable)
  let ?Q = "\<lambda>(ws', tr'). state ws' \<noteq> ws_closed \<longrightarrow> ws' = ws \<and> (\<exists>ext ps. tr' = tr @ ext \<and>
    set ps \<subseteq> {(ws_frame_ping, bytes ''PING'')} \<and> exchanged ws ext [] (wire ps))"
  have none: "?Q (ws, tr)" by (auto intro!: exI [of _ "[]"])
  have sent: "?Q (ws, tr @ ext)" if "only_sends (ws_fd ws) ext" "sent_on (ws_fd ws) ext = frame_bytes ws_frame_ping (bytes ''PING'')" for ext
    using exchanged_sends(2) [OF fds that] by (auto intro!: exI [of _ ext] exI [of _ "[(ws_frame_ping, bytes ''PING'')]"])
  have "runs (client_ping E interval now ws tr) ?Q"
    using none sent by (auto simp: client_ping_def ws_reset_def intro!: runs_ws_send_frame runs_ws_close E rel)
  with run that show ?thesis by auto
qed

section \<open>What a connection has relayed\<close>

text \<open>
  Between a state \<open>ws\<close> of a connection at trace \<open>tr\<close> and its state \<open>ws'\<close> behind \<open>ext\<close>: \<open>fs\<close> are
  exactly the complete frames in what the client has sent, and the peer got their payloads; \<open>out\<close> are
  the frames sent to the client, those marked \<open>True\<close> cut out of the peer's stream, the others
  answers to the client's pings, in order, and keep-alive pings.
\<close>

definition peer_frames :: "(bool \<times> ws_operation \<times> u8 list) list \<Rightarrow> (ws_operation \<times> u8 list) list" where
  "peer_frames out = map snd (filter fst out)"

definition control_frames :: "(bool \<times> ws_operation \<times> u8 list) list \<Rightarrow> (ws_operation \<times> u8 list) list" where
  "control_frames out = map snd (filter (\<lambda>x. \<not> fst x) out)"

definition pongs_in :: "(ws_operation \<times> u8 list) list \<Rightarrow> u8 list list" where
  "pongs_in cs = map snd (filter (\<lambda>(op, p). op = ws_frame_pong) cs)"

definition relayed :: "env \<Rightarrow> websocket \<Rightarrow> trace \<Rightarrow> trace \<Rightarrow> websocket \<Rightarrow> bool" where
  "relayed E ws tr ext ws' \<longleftrightarrow>
     ws_fd ws' = ws_fd ws \<and> peer_fd ws' = peer_fd ws \<and>
     (\<exists>fs out.
        rfc_frames (pending ws @ received_on E (ws_fd ws) tr ext) = (fs, pending ws') \<and>
        sent_on (peer_fd ws) ext = peer_bytes fs \<and>
        stream_of (peer_frames out) @ buffered ws' = buffered ws @ received_on E (peer_fd ws) tr ext \<and>
        sent_on (ws_fd ws) ext = wire (map snd out) \<and>
        pongs_in (control_frames out) = pong_payloads fs \<and>
        (\<forall>(op, p)\<in>set (control_frames out). op = ws_frame_pong \<or> (op, p) = (ws_frame_ping, bytes ''PING'')))"

lemma out_simps [simp]:
  "peer_frames [] = []" "peer_frames (xs @ ys) = peer_frames xs @ peer_frames ys"
  "control_frames [] = []" "control_frames (xs @ ys) = control_frames xs @ control_frames ys"
  "peer_frames (map (Pair True) fs) = fs" "peer_frames (map (Pair False) fs) = []"
  "control_frames (map (Pair True) fs) = []" "control_frames (map (Pair False) fs) = fs"
  "map snd (map (Pair b) fs) = fs" "pongs_in [] = []" "pongs_in (cs @ cs') = pongs_in cs @ pongs_in cs'"
  by (simp_all add: peer_frames_def control_frames_def pongs_in_def filter_map comp_def)

lemma wire_append [simp]: "wire (xs @ ys) = wire xs @ wire ys"
  by (simp add: wire_def)

lemma stream_of_append [simp]: "stream_of (xs @ ys) = stream_of xs @ stream_of ys"
  by (simp add: stream_of_def)

lemma pong_bytes_wire: "pong_bytes fs = wire (map (Pair ws_frame_pong) (pong_payloads fs))"
  by (simp add: pong_bytes_def wire_def comp_def)

lemma pongs_in_pongs [simp]: "pongs_in (map (Pair ws_frame_pong) ps) = ps"
  by (simp add: pongs_in_def filter_map comp_def)

lemma pongs_in_pings: "set ps \<subseteq> {(ws_frame_ping, p)} \<Longrightarrow> pongs_in ps = []"
  by (force simp: pongs_in_def filter_empty_conv)

lemma relayed_done: "relayed E ws tr ext ws' \<Longrightarrow> rfc_decode (pending ws') = None"
  by (auto simp: relayed_def dest: rfc_frames_done)

lemma relayed_trans:
  assumes "relayed E ws tr e1 ws1" "relayed E ws1 (tr @ e1) e2 ws2"
  shows "relayed E ws tr (e1 @ e2) ws2"
proof -
  obtain fs out where 1: "ws_fd ws1 = ws_fd ws" "peer_fd ws1 = peer_fd ws"
    "rfc_frames (pending ws @ received_on E (ws_fd ws) tr e1) = (fs, pending ws1)"
    "sent_on (peer_fd ws) e1 = peer_bytes fs"
    "stream_of (peer_frames out) @ buffered ws1 = buffered ws @ received_on E (peer_fd ws) tr e1"
    "sent_on (ws_fd ws) e1 = wire (map snd out)" "pongs_in (control_frames out) = pong_payloads fs"
    "\<forall>(op, p)\<in>set (control_frames out). op = ws_frame_pong \<or> (op, p) = (ws_frame_ping, bytes ''PING'')"
    using assms(1) unfolding relayed_def by blast
  obtain gs out' where 2: "ws_fd ws2 = ws_fd ws1" "peer_fd ws2 = peer_fd ws1"
    "rfc_frames (pending ws1 @ received_on E (ws_fd ws1) (tr @ e1) e2) = (gs, pending ws2)"
    "sent_on (peer_fd ws1) e2 = peer_bytes gs"
    "stream_of (peer_frames out') @ buffered ws2 = buffered ws1 @ received_on E (peer_fd ws1) (tr @ e1) e2"
    "sent_on (ws_fd ws1) e2 = wire (map snd out')" "pongs_in (control_frames out') = pong_payloads gs"
    "\<forall>(op, p)\<in>set (control_frames out'). op = ws_frame_pong \<or> (op, p) = (ws_frame_ping, bytes ''PING'')"
    using assms(2) unfolding relayed_def by blast
  have "rfc_frames (pending ws @ received_on E (ws_fd ws) tr (e1 @ e2)) = (fs @ gs, pending ws2)"
    using rfc_frames_append [OF 1(3)] 2(3) 1(1) by (simp add: received_on_append)
  moreover have "stream_of (peer_frames (out @ out')) @ buffered ws2 = buffered ws @ received_on E (peer_fd ws) tr (e1 @ e2)"
    using 1(2,5) 2(5) by (simp add: received_on_append)
  ultimately show ?thesis
    unfolding relayed_def using 1 2 by (intro conjI exI [of _ "fs @ gs"] exI [of _ "out @ out'"]) auto
qed

text \<open>The events: data from the client, data from the peer, a ping, and what happens elsewhere.\<close>

lemma relayed_client:
  assumes "posix_send E" "ws_inv ws" "state ws = ws_open" "ws_fd ws \<noteq> peer_fd ws"
    "ws_data E SV ws tr = Some (r, ws', tr')" "state ws' \<noteq> ws_closed"
  shows "\<exists>ext. tr' = tr @ ext \<and> relayed E ws tr ext ws'"
proof -
  let ?len = "length (read_buffer ws) - read_buffer_offset ws - 1"
  obtain ds fs b k ext where d: "client_delivery E ws tr = Some ds" "rfc_frames (pending ws @ ds) = (fs, pending ws')"
    "ws' = ws\<lparr>read_buffer := b, read_buffer_offset := k\<rparr>" "tr' = tr @ (SysRecv (ws_fd ws) ?len, int (length ds)) # ext"
    "exchanged ws ext (peer_bytes fs) (pong_bytes fs)"
    by (rule ws_data_open [OF assms])
  let ?ext = "(SysRecv (ws_fd ws) ?len, int (length ds)) # ext"
  have "received_on E (ws_fd ws) tr ?ext = ds" "received_on E (peer_fd ws) tr ?ext = []"
    using d(1) assms(4) received_on_exchanged [OF d(5)] by (auto simp: client_delivery_def Let_def)
  then have "relayed E ws tr ?ext ws'"
    unfolding relayed_def using d(2,3,5)
    by (intro conjI exI [of _ fs] exI [of _ "map (Pair False) (map (Pair ws_frame_pong) (pong_payloads fs))"])
      (auto simp: exchanged_def pong_bytes_wire buffered_def simp del: map_map)
  with d(4) show ?thesis by blast
qed

lemma relayed_peer:
  assumes "posix_send E" "\<not> send_fails E (ws_fd ws)" "ws_inv ws" "state ws = ws_open" "ws_fd ws \<noteq> peer_fd ws"
    "ws_peer_data E ws tr = Some (r, ws', tr')" "state ws' \<noteq> ws_closed" "rfc_decode (pending ws) = None"
  shows "\<exists>ext. tr' = tr @ ext \<and> relayed E ws tr ext ws'"
proof -
  let ?len = "length (peer_buffer ws) - peer_buffer_offset ws - 1"
  obtain ds fs fdata b off ext where d: "peer_delivery E ws tr = Some ds" "stream_of fs @ buffered ws' = buffered ws @ ds"
    "ws' = ws\<lparr>peer_framing_data := fdata, peer_buffer := b, peer_buffer_offset := off\<rparr>"
    "tr' = tr @ (SysRecv (peer_fd ws) ?len, int (length ds)) # ext" "exchanged ws ext [] (wire fs)"
    by (rule ws_peer_data_open [OF assms(1-7)])
  let ?ext = "(SysRecv (peer_fd ws) ?len, int (length ds)) # ext"
  have "received_on E (peer_fd ws) tr ?ext = ds" "received_on E (ws_fd ws) tr ?ext = []"
    using d(1) assms(5) received_on_exchanged [OF d(5)] by (auto simp: peer_delivery_def Let_def)
  then have "relayed E ws tr ?ext ws'"
    unfolding relayed_def using d(2,3,5) rfc_frames_None [OF assms(8)]
    by (intro conjI exI [of _ "[]"] exI [of _ "map (Pair True) fs"]) (auto simp: exchanged_def pending_def simp del: map_map)
  with d(4) show ?thesis by blast
qed

lemma relayed_quiet:
  assumes "rfc_decode (pending ws) = None" "received_on E (ws_fd ws) tr ext = []" "received_on E (peer_fd ws) tr ext = []"
    and "sent_on (peer_fd ws) ext = []" "sent_on (ws_fd ws) ext = wire ps" "set ps \<subseteq> {(ws_frame_ping, bytes ''PING'')}"
  shows "relayed E ws tr ext ws"
  unfolding relayed_def using assms(2-6) rfc_frames_None [OF assms(1)] pongs_in_pings [OF assms(6)]
  by (intro conjI exI [of _ "[]"] exI [of _ "map (Pair False) ps"]) (auto simp del: map_map)

lemma relayed_ping:
  assumes "posix_send E" "ws_inv ws" "ws_fd ws \<noteq> peer_fd ws"
    "client_ping E interval now ws tr = Some (ws', tr')" "state ws' \<noteq> ws_closed" "rfc_decode (pending ws) = None"
  shows "\<exists>ext. tr' = tr @ ext \<and> relayed E ws tr ext ws'"
proof -
  obtain ps ext where p: "ws' = ws" "tr' = tr @ ext" "set ps \<subseteq> {(ws_frame_ping, bytes ''PING'')}"
    "exchanged ws ext [] (wire ps)" by (rule client_ping_open [OF assms(1-5)])
  then have "relayed E ws tr ext ws"
    using assms(6) received_on_exchanged [OF p(4)] by (intro relayed_quiet) (auto simp: exchanged_def)
  with p show ?thesis by blast
qed

lemma relayed_elsewhere:
  "rfc_decode (pending ws) = None \<Longrightarrow> untouched (ws_fd ws) ext \<Longrightarrow> untouched (peer_fd ws) ext \<Longrightarrow> relayed E ws tr ext ws"
  by (rule relayed_quiet [where ps = "[]"]) (simp_all add: received_on_untouched untouched_sent)

section \<open>Descriptors of different connections\<close>

text \<open>
  The kernel does not hand out a descriptor that is open: \<open>live\<close> are the open ones before the trace.
\<close>

fun fresh_fds :: "int multiset \<Rightarrow> trace \<Rightarrow> bool" where
  "fresh_fds live [] \<longleftrightarrow> True"
| "fresh_fds live (e # tr) \<longleftrightarrow>
     (\<forall>fd\<in>set (event_opened e). fd \<notin># live) \<and>
     fresh_fds (live + mset (event_opened e) - mset (event_closed e)) tr"

lemma fresh_fds_append: "fresh_fds live (xs @ ys) \<Longrightarrow> fresh_fds live xs"
  by (induction xs arbitrary: live) simp_all

lemma fresh_fds_quiet:
  "fresh_fds live xs \<Longrightarrow> \<forall>e\<in>set ys. event_opened e = [] \<Longrightarrow> fresh_fds live (xs @ ys)"
proof (induction xs arbitrary: live)
  case Nil
  then show ?case by (induction ys arbitrary: live) simp_all
qed simp

lemma event_fds: "event_opened e = [] \<or> (\<exists>fd. event_opened e = [fd] \<and> event_closed e = [])"
  by (cases e rule: event_opened.cases) auto

lemma fresh_fds_count:
  "fresh_fds live tr \<Longrightarrow> \<forall>fd. count live fd \<le> 1 \<Longrightarrow>
     count live fd + count (mset (opened_in tr)) fd \<le> count (mset (closed_in tr)) fd + 1"
proof (induction tr arbitrary: live)
  case (Cons e tr)
  let ?live = "live + mset (event_opened e) - mset (event_closed e)"
  have "count ?live fd \<le> 1" for fd
    using Cons.prems(1) Cons.prems(2) [rule_format, of fd] event_fds [of e] by (auto simp: not_in_iff)
  then have "\<forall>fd. count ?live fd \<le> 1" by blast
  from Cons.IH [OF _ this] Cons.prems(1) show ?case by simp
qed simp

lemma held_count:
  assumes inv: "daemon_inv d" and fresh: "fresh_fds {#} (log d)"
  shows "count (total_held (socks d)) fd \<le> 1"
proof -
  have "mset (closed_in (log d)) + total_held (socks d) \<subseteq># mset (opened_in (log d))"
    using inv by (simp add: daemon_inv_with_def)
  then have "count (mset (closed_in (log d))) fd + count (total_held (socks d)) fd \<le> count (mset (opened_in (log d))) fd"
    by (metis count_union mset_subset_eq_count)
  with fresh_fds_count [OF fresh, of fd] show ?thesis by simp
qed

lemma total_held_take:
  assumes "n < length ss"
  obtains w where "total_held ss = total_held (ss[n := w]) + held (ss ! n)"
  by (rule that [of "accepted_websocket (-1) 0"])
    (use total_held_update [OF assms, of "accepted_websocket (-1) 0"] in \<open>simp add: held_accepted fd_list_def\<close>)

lemma total_held_split:
  assumes "n < length ss" "m < length ss" "m \<noteq> n"
  shows "held (ss ! n) + held (ss ! m) \<subseteq># total_held ss"
proof -
  obtain w where w: "total_held ss = total_held (ss[n := w]) + held (ss ! n)" by (rule total_held_take [OF assms(1)])
  obtain w' where "total_held (ss[n := w]) = total_held (ss[n := w, m := w']) + held (ss[n := w] ! m)"
    by (rule total_held_take [of m "ss[n := w]"]) (use assms in simp)
  with w assms(3) show ?thesis by (simp add: add.commute)
qed

text \<open>The descriptors of an open connection are its own.\<close>

lemma open_fds_distinct:
  assumes inv: "daemon_inv d" and fresh: "fresh_fds {#} (log d)" and n: "n < length (socks d)" "state (socks d ! n) = ws_open"
  shows "0 \<le> ws_fd (socks d ! n)" "0 \<le> peer_fd (socks d ! n)" "ws_fd (socks d ! n) \<noteq> peer_fd (socks d ! n)"
    and "m < length (socks d) \<Longrightarrow> m \<noteq> n \<Longrightarrow> fd = ws_fd (socks d ! n) \<or> fd = peer_fd (socks d ! n) \<Longrightarrow>
      fd \<noteq> ws_fd (socks d ! m) \<and> fd \<noteq> peer_fd (socks d ! m)"
proof -
  have "ws_core (socks d ! n)" using inv n by (simp add: daemon_inv_with_def ws_inv_def)
  with n(2) show fds: "0 \<le> ws_fd (socks d ! n)" "0 \<le> peer_fd (socks d ! n)" by (auto simp: ws_core_def)
  have one: "count (held (socks d ! n)) fd \<le> 1" for fd
    using held_count [OF inv fresh, of fd] total_held_take [OF n(1)] by (metis count_union le_add2 le_trans)
  from one [of "ws_fd (socks d ! n)"] fds show "ws_fd (socks d ! n) \<noteq> peer_fd (socks d ! n)"
    by (auto simp: held_def fd_list_def)
  assume m: "m < length (socks d)" "m \<noteq> n" and fd: "fd = ws_fd (socks d ! n) \<or> fd = peer_fd (socks d ! n)"
  have "count (held (socks d ! n) + held (socks d ! m)) fd \<le> 1"
    using mset_subset_eq_count [OF total_held_split [OF n(1) m]] held_count [OF inv fresh, of fd] le_trans by blast
  with fd fds show "fd \<noteq> ws_fd (socks d ! m) \<and> fd \<noteq> peer_fd (socks d ! m)"
    by (auto simp: held_def fd_list_def split: if_splits)
qed

section \<open>Runs of the daemon\<close>

definition open_at :: "nat \<Rightarrow> daemon \<Rightarrow> bool" where
  "open_at n d \<longleftrightarrow> n < length (socks d) \<and> state (socks d ! n) = ws_open"

text \<open>A run of the daemon during which connection \<open>n\<close> stays open.\<close>

inductive open_run :: "env \<Rightarrow> services \<Rightarrow> int \<Rightarrow> nat \<Rightarrow> daemon \<Rightarrow> daemon \<Rightarrow> bool"
  for E :: env and SV :: services and lfd :: int and n :: nat where
  start: "open_at n d \<Longrightarrow> open_run E SV lfd n d d"
| step: "open_run E SV lfd n d d1 \<Longrightarrow> daemon_step E SV lfd d1 d2 \<Longrightarrow> open_at n d2 \<Longrightarrow> open_run E SV lfd n d d2"

lemma open_run_steps: "open_run E SV lfd n d d' \<Longrightarrow> daemon_steps E SV lfd d d'"
  by (induction rule: open_run.induct) (auto intro: rtranclp.rtrancl_into_rtrancl)

lemma open_run_mono: "services_le SV SV' \<Longrightarrow> open_run E SV lfd n d d' \<Longrightarrow> open_run E SV' lfd n d d'"
  by (rotate_tac, induction rule: open_run.induct) (auto intro: open_run.intros daemon_step_mono)

lemma open_run_open: "open_run E SV lfd n d d' \<Longrightarrow> open_at n d'"
  by (induction rule: open_run.induct)

lemma relayed_last_event [simp]: "relayed E (ws\<lparr>last_event := now\<rparr>) = relayed E ws"
  by (intro ext) (simp add: relayed_def pending_def buffered_def)

lemma event_elsewhere:
  assumes inv: "daemon_inv d" and fresh: "fresh_fds {#} (log d)" and n: "open_at n d"
    and m: "m < length (socks d)" "m \<noteq> n" and ev: "conn_only (socks d ! m) ext" and dec: "rfc_decode (pending (socks d ! n)) = None"
  shows "relayed E (socks d ! n) tr ext (socks d ! n)"
proof -
  note open_fds = open_fds_distinct [OF inv fresh n [unfolded open_at_def, THEN conjunct1] n [unfolded open_at_def, THEN conjunct2]]
  have "untouched fd ext" if "fd = ws_fd (socks d ! n) \<or> fd = peer_fd (socks d ! n)" for fd
    using ev open_fds(1,2) open_fds(4) [OF m that] that by (auto simp: conn_only_def)
  then show ?thesis by (intro relayed_elsewhere dec) simp_all
qed

text \<open>Accepting a client does not touch an open connection.\<close>

lemma accept_relays:
  assumes inv: "daemon_inv d" and n: "open_at n d" and dec: "rfc_decode (pending (socks d ! n)) = None"
    and fd: "ws_fd (socks d ! n) \<noteq> -1"
    and acc: "ws_accept E lfd now (socks d) (log d) = (r, ss', tr')"
  shows "\<exists>ext. tr' = log d @ ext \<and> relayed E (socks d ! n) (log d) ext (ss' ! n)"
proof -
  let ?e = "(SysAccept lfd, sys E (log d) (SysAccept lfd))"
  have "ss' ! n = socks d ! n"
    using acc n fd client_slot_free [of "socks d"] client_slot_le [of "socks d"]
    by (cases "n = client_slot (socks d)")
      (auto simp: open_at_def ws_accept_def do_sys_def client_register_eq nth_append split: if_splits)
  moreover have "tr' = log d @ [?e]"
    using acc by (auto simp: ws_accept_def do_sys_def Let_def split: prod.splits)
  moreover have "relayed E (socks d ! n) (log d) [?e] (socks d ! n)"
    using dec by (intro relayed_elsewhere) simp_all
  ultimately show ?thesis by simp
qed

text \<open>An event of connection \<open>m\<close>, which is the connection itself or another one.\<close>

lemma event_relays:
  assumes inv: "daemon_inv d" and fresh: "fresh_fds {#} (log d)" and n: "open_at n d"
    and dec: "rfc_decode (pending (socks d ! n)) = None" and m: "m < length (socks d)"
    and other: "m \<noteq> n \<Longrightarrow> \<exists>ext. tr' = log d @ ext \<and> conn_only (socks d ! m) ext"
    and own: "m = n \<Longrightarrow> \<exists>ext. tr' = log d @ ext \<and> relayed E (socks d ! n) (log d) ext ws'"
  shows "\<exists>ext. tr' = log d @ ext \<and> relayed E (socks d ! n) (log d) ext ((socks d)[m := ws'] ! n)"
proof (cases "m = n")
  case True
  with own n show ?thesis by (auto simp: open_at_def)
next
  case False
  from other [OF this] obtain ext where "tr' = log d @ ext" "conn_only (socks d ! m) ext" by blast
  with event_elsewhere [OF inv fresh n m False _ dec, of ext] False show ?thesis by auto
qed

lemma step_relays:
  assumes E: "posix_send E" "posix_accept E" "services_ok SV" and inv: "daemon_inv d" and fresh: "fresh_fds {#} (log d)"
    and n: "open_at n d" "open_at n d'" and sends: "\<not> send_fails E (ws_fd (socks d ! n))"
    and dec: "rfc_decode (pending (socks d ! n)) = None" and step: "daemon_step E SV lfd d d'"
  shows "\<exists>ext. log d' = log d @ ext \<and> relayed E (socks d ! n) (log d) ext (socks d' ! n)"
proof -
  have st: "n < length (socks d)" "state (socks d ! n) = ws_open" "state (socks d' ! n) \<noteq> ws_closed"
    using n by (simp_all add: open_at_def)
  note fds = open_fds_distinct [OF inv fresh st(1,2)]
  have invs: "ws_inv (socks d ! m)" if "m < length (socks d)" for m
    using inv that by (simp add: daemon_inv_with_def)
  note event = event_relays [OF inv fresh n(1) dec]
  from step show ?thesis
  proof cases
    case (accept now ss tr r ss' tr')
    with accept_relays [OF inv n(1) dec, of E lfd now r ss' tr'] fds(1) show ?thesis by auto
  next
    case (client m ss now tr r ws' tr')
    have "\<exists>ext. tr' = tr @ ext \<and> conn_only (ss ! m) ext"
      using ws_data_SomeD [OF E(1,3) _ client(5)] invs [of m] client by (auto simp: event_done_def conn_only_def)
    moreover have "\<exists>ext. tr' = tr @ ext \<and> relayed E ((ss ! n)\<lparr>last_event := now\<rparr>) tr ext ws'" if "m = n"
      by (rule relayed_client [OF E(1) _ _ _ client(5) [unfolded that]]) (use client that st fds invs in simp_all)
    ultimately show ?thesis using event [of m tr' E ws'] client by simp
  next
    case (peer m ss tr r ws' tr')
    have "\<exists>ext. tr' = tr @ ext \<and> conn_only (ss ! m) ext"
      using ws_peer_data_SomeD [OF E(1) _ peer(4,5)] invs [of m] peer by (auto simp: event_done_def)
    moreover have "\<exists>ext. tr' = tr @ ext \<and> relayed E (ss ! n) tr ext ws'" if "m = n"
      by (rule relayed_peer [OF E(1) _ _ _ _ peer(5) [unfolded that]]) (use peer that st fds invs sends dec in simp_all)
    ultimately show ?thesis using event [of m tr' E ws'] peer by simp
  next
    case (ping m ss interval now tr ws' tr')
    have "runs (client_ping E interval now (ss ! m) tr) (\<lambda>(ws', tr'). \<exists>ext. tr' = tr @ ext \<and> event_done (ss ! m) ext ws')"
      by (rule runs_client_ping [OF E(1)]) (use invs [of m] ping in auto)
    then have "\<exists>ext. tr' = tr @ ext \<and> conn_only (ss ! m) ext" using ping by (auto simp: event_done_def)
    moreover have "\<exists>ext. tr' = tr @ ext \<and> relayed E (ss ! n) tr ext ws'" if "m = n"
      by (rule relayed_ping [OF E(1) _ _ ping(4) [unfolded that]]) (use ping that st fds invs dec in simp_all)
    ultimately show ?thesis using event [of m tr' E ws'] ping by simp
  qed
qed

lemma daemon_step_log:
  assumes E: "posix_send E" "services_ok SV" and inv: "daemon_inv d" and step: "daemon_step E SV lfd d d'"
  shows "\<exists>ext. log d' = log d @ ext"
proof -
  have invs: "ws_inv (socks d ! m)" if "m < length (socks d)" for m using inv that by (simp add: daemon_inv_with_def)
  from step show ?thesis
  proof cases
    case (accept now ss tr r ss' tr')
    then show ?thesis by (auto simp: ws_accept_def do_sys_def Let_def split: prod.splits)
  next
    case (client m ss now tr r ws' tr')
    then show ?thesis using ws_data_SomeD [OF E _ client(5)] invs [of m] by (metis daemon.select_convs ws_inv_last_event)
  next
    case (peer m ss tr r ws' tr')
    then show ?thesis using ws_peer_data_SomeD [OF E(1) _ peer(4,5)] invs [of m] by (metis daemon.select_convs)
  next
    case (ping m ss interval now tr ws' tr')
    have "runs (client_ping E interval now (ss ! m) tr) (\<lambda>(ws', tr'). \<exists>ext. tr' = tr @ ext)"
      by (rule runs_client_ping [OF E(1)]) (use invs [of m] ping in auto)
    with ping show ?thesis by auto
  qed
qed

lemma open_run_relays:
  assumes E: "posix_send E" "posix_accept E" "services_ok SV"
  shows "open_run E SV lfd n d d' \<Longrightarrow> daemon_inv d \<Longrightarrow> fresh_fds {#} (log d') \<Longrightarrow>
    \<not> send_fails E (ws_fd (socks d ! n)) \<Longrightarrow> rfc_decode (pending (socks d ! n)) = None \<Longrightarrow>
    \<exists>ext. log d' = log d @ ext \<and> relayed E (socks d ! n) (log d) ext (socks d' ! n)"
proof (induction rule: open_run.induct)
  case (start d)
  from relayed_elsewhere [OF start(5), of "[]"] show ?case by simp
next
  case (step d d1 d2)
  have inv: "daemon_inv d1" by (rule daemon_steps_inv [OF E open_run_steps [OF step(1)] step(5)])
  obtain e where e: "log d2 = log d1 @ e" using daemon_step_log [OF E(1,3) inv step(2)] by blast
  then have fresh: "fresh_fds {#} (log d1)" using step(6) fresh_fds_append by metis
  from step.IH [OF step(5) fresh step(7,8)] obtain ext where ext: "log d1 = log d @ ext"
    "relayed E (socks d ! n) (log d) ext (socks d1 ! n)" by blast
  have "\<not> send_fails E (ws_fd (socks d1 ! n))" using step(7) ext(2) by (simp add: relayed_def)
  from step_relays [OF E inv fresh open_run_open [OF step(1)] step(3) this relayed_done [OF ext(2)] step(2)]
  obtain ext' where "log d2 = log d1 @ ext'" "relayed E (socks d1 ! n) (log d1) ext' (socks d2 ! n)" by blast
  with relayed_trans [OF ext(2)] show ?case by (simp add: ext(1))
qed

end
