(* ===== verification/Props_Relay.thy ===== *)
theory Props_Relay
  imports Relay Examples
begin

text \<open>Properties of open connections over whole streams and whole runs.\<close>

section \<open>The client's stream\<close>

text \<open>
  C10. However the kernel cuts the client's stream into reads: when the bytes left over from before and
  those of this read contain the complete frames \<open>fs\<close> and a rest, \<open>ws_data\<close> sends exactly the payloads
  of the text and binary frames to the peer and the answers to the pings to the client, keeps the rest
  for the next read, and the connection stays open. Ruled out are frames that end a connection, an
  unmasked or oversized rest, a length that does not fit 64 bits, and failing sends.
\<close>

theorem ws_data_stream:
  assumes "posix_send E" "ws_inv ws" "state ws = ws_open" "ws_fd ws \<noteq> peer_fd ws"
    and "client_delivery E ws tr = Some ds" "ds \<noteq> []" "rfc_frames (pending ws @ ds) = (fs, rest)"
    and "\<forall>f\<in>set fs. fst f \<in> {1, 2, 9, 10}" "2 \<le> length rest \<longrightarrow> rest ! 1 AND 128 \<noteq> 0"
    and "length rest + 2 \<le> WS_MAX_LINE" "length_fits rest"
    and "\<not> send_fails E (ws_fd ws)" "\<not> send_fails E (peer_fd ws)"
  shows "\<exists>ws' ext. ws_data E SV ws tr = Some (0, ws', tr @ ext) \<and> state ws' = ws_open \<and> pending ws' = rest \<and>
    sent_on (peer_fd ws) ext = concat (map snd (filter (\<lambda>(op, p). op = 1 \<or> op = 2) fs)) \<and>
    sent_on (ws_fd ws) ext = concat (map (frame_bytes ws_frame_pong) (map snd (filter (\<lambda>(op, p). op = 9) fs)))"
proof -
  have "to_peer f = concat (map snd (filter (\<lambda>(op, p). op = 1 \<or> op = 2) [f]))" for f
    by (cases f) (simp add: to_peer_def)
  then have "peer_bytes fs = concat (map snd (filter (\<lambda>(op, p). op = 1 \<or> op = 2) fs))"
    by (induction fs) (auto simp: case_prod_beta)
  with ws_data_complete [OF assms, of SV] assms(3) show ?thesis
    by (fastforce simp: exchanged_def pong_bytes_def pong_payloads_def)
qed

text \<open>A text frame, a ping, and the first two bytes of a third frame.\<close>

definition demo_stream :: "u8 list" where
  "demo_stream = [0x81, 0x82, 1, 2, 3, 4, 0x69, 0x6B, 0x89, 0x80, 5, 6, 7, 8, 0x82, 0x83]"

lemma demo_stream_frames: "rfc_frames demo_stream = ([(1, bytes ''hi''), (9, [])], [0x82, 0x83])"
proof -
  have 1: "rfc_decode demo_stream = Some (1, bytes ''hi'', [0x89, 0x80, 5, 6, 7, 8, 0x82, 0x83])"
    by (simp add: rfc_decode_def rfc_layout_def demo_stream_def mask_bytes_def upt_rec bytes_def)
  have 2: "rfc_decode [0x89, 0x80, 5, 6, 7, 8, 0x82, 0x83] = Some (9, [], [0x82, 0x83])"
    by (simp add: rfc_decode_def rfc_layout_def mask_bytes_def)
  have 3: "rfc_decode [0x82, 0x83] = None" by (simp add: rfc_decode_def rfc_layout_def)
  show ?thesis by (simp add: rfc_frames_Some [OF 1] rfc_frames_Some [OF 2] rfc_frames_None [OF 3])
qed

lemma demo_stream_rest: "length_fits [0x82, 0x83]" "([0x82, 0x83] :: u8 list) ! 1 AND 128 \<noteq> 0"
  by (simp_all add: length_fits_def rfc_layout_def)

lemma demo_sends: "0 \<le> fd \<Longrightarrow> \<not> send_fails (demo_env ds) fd"
proof -
  have "1 \<le> int (length bs)" if "bs \<noteq> []" for bs :: "u8 list" using that by (cases bs) simp_all
  then show "0 \<le> fd \<Longrightarrow> \<not> send_fails (demo_env ds) fd" by (auto simp: send_fails_def demo_env_def demo_sys_def)
qed

lemma open_client_fields [simp]:
  "state open_client = ws_open" "ws_fd open_client = 5" "peer_fd open_client = 7" "pending open_client = []"
  "buffered open_client = []" "read_buffer_offset open_client = 0" "length (read_buffer open_client) = WS_MAX_LINE"
  by (simp_all add: open_client_def new_client_def accepted_websocket_def pending_def buffered_def)

lemma demo_stream_delivery: "client_delivery (demo_env demo_stream) open_client tr = Some demo_stream"
  by (simp add: client_delivery_def demo_env_def demo_stream_def WS_MAX_LINE_def)

theorem ws_data_stream_witness:
  "\<exists>ws' ext. ws_data (demo_env demo_stream) demo_services open_client [] = Some (0, ws', [] @ ext) \<and>
    state ws' = ws_open \<and> pending ws' = [0x82, 0x83] \<and>
    sent_on (peer_fd open_client) ext =
      concat (map snd (filter (\<lambda>(op, p). op = 1 \<or> op = 2) [(1 :: u8, bytes ''hi''), (9, [])])) \<and>
    sent_on (ws_fd open_client) ext =
      concat (map (frame_bytes ws_frame_pong) (map snd (filter (\<lambda>(op, p). op = 9) [(1 :: u8, bytes ''hi''), (9, [])])))"
  by (rule ws_data_stream [OF demo_posix_send open_client_inv _ _ demo_stream_delivery])
    (use demo_stream_frames demo_stream_rest demo_sends in \<open>simp_all add: demo_stream_def WS_MAX_LINE_def\<close>)

section \<open>A connection in a running daemon\<close>

text \<open>
  C2. The daemon relays. Over any run of events, of any connections, during which a connection stays
  open: what its client has sent decodes to frames \<open>fs\<close> and an incomplete rest, and the peer got
  exactly the payloads of the data frames; what its peer has sent is the contents of the frames
  marked in \<open>out\<close> and a rest that is still buffered, and the client got exactly the encodings of
  \<open>out\<close>, whose unmarked frames are keep-alive pings and the answers to the client's pings, in order.
  The kernel is assumed not to hand out descriptors that are open, and sends to the client not to fail.
\<close>

theorem daemon_relays:
  assumes "posix_send E" "posix_accept E" "services_sound SV" "daemon_inv d" "open_run E SV lfd n d d'"
    and "fresh_fds {#} (log d')" "ws = socks d ! n" "ws' = socks d' ! n"
    and "\<not> send_fails E (ws_fd ws)" "rfc_decode (pending ws) = None"
  shows "\<exists>ext fs out. log d' = log d @ ext \<and>
    rfc_frames (pending ws @ received_on E (ws_fd ws) (log d) ext) = (fs, pending ws') \<and>
    sent_on (peer_fd ws) ext = peer_bytes fs \<and>
    buffered ws @ received_on E (peer_fd ws) (log d) ext = stream_of (peer_frames out) @ buffered ws' \<and>
    sent_on (ws_fd ws) ext = wire (map snd out) \<and>
    pongs_in (control_frames out) = pong_payloads fs \<and>
    (\<forall>(op, p)\<in>set (control_frames out). op = ws_frame_pong \<or> (op, p) = (ws_frame_ping, bytes ''PING''))"
proof -
  obtain ext where ext: "log d' = log d @ ext" "relayed E ws (log d) ext ws'"
    using open_run_relays [OF assms(1,2) ample_ok [OF assms(3)] open_run_mono [OF ample_le assms(5)] assms(4,6)]
      assms(7-10) by auto
  from ext(2) obtain fs out where "rfc_frames (pending ws @ received_on E (ws_fd ws) (log d) ext) = (fs, pending ws')"
    "sent_on (peer_fd ws) ext = peer_bytes fs"
    "stream_of (peer_frames out) @ buffered ws' = buffered ws @ received_on E (peer_fd ws) (log d) ext"
    "sent_on (ws_fd ws) ext = wire (map snd out)" "pongs_in (control_frames out) = pong_payloads fs"
    "\<forall>(op, p)\<in>set (control_frames out). op = ws_frame_pong \<or> (op, p) = (ws_frame_ping, bytes ''PING'')"
    unfolding relayed_def by blast
  with ext(1) show ?thesis by (intro exI [of _ ext] exI [of _ fs] exI [of _ out]) simp
qed

definition demo_daemon :: daemon where
  "demo_daemon = \<lparr>socks = [open_client], log = [(SysAccept 3, 5), (SysSocket (InetAddr 0) SOCK_STREAM, 7)]\<rparr>"

lemma demo_daemon_inv: "daemon_inv demo_daemon"
  using open_client_inv by (simp add: daemon_inv_with_def demo_daemon_def held_def fd_list_def)

lemma demo_run:
  "\<exists>d'. open_run (demo_env demo_stream) demo_services 3 0 demo_daemon d' \<and> fresh_fds {#} (log d') \<and>
    pending (socks d' ! 0) = [0x82, 0x83]"
proof -
  let ?E = "demo_env demo_stream" and ?ws = "open_client\<lparr>last_event := 1\<rparr>" and ?tr = "log demo_daemon"
  have fields: "state ?ws = ws_open" "ws_fd ?ws = 5" "peer_fd ?ws = 7" "pending ?ws = []"
    using open_client_fields by (simp_all add: pending_def)
  have inv: "ws_inv ?ws" using open_client_inv by simp
  have del: "client_delivery ?E ?ws ?tr = Some demo_stream"
    using demo_stream_delivery [of ?tr] by (simp add: client_delivery_def)
  have "\<exists>b k ext. ws_data ?E demo_services ?ws ?tr = Some (0, ?ws\<lparr>read_buffer := b, read_buffer_offset := k\<rparr>,
      ?tr @ (SysRecv (ws_fd ?ws) (length (read_buffer ?ws) - read_buffer_offset ?ws - 1), int (length demo_stream)) # ext) \<and>
    pending (?ws\<lparr>read_buffer := b, read_buffer_offset := k\<rparr>) = [0x82, 0x83] \<and>
    exchanged ?ws ext (peer_bytes [(1, bytes ''hi''), (9, [])]) (pong_bytes [(1, bytes ''hi''), (9, [])])"
    by (rule ws_data_complete [OF demo_posix_send inv _ _ del])
      (use demo_stream_frames demo_stream_rest demo_sends fields in \<open>simp_all add: demo_stream_def WS_MAX_LINE_def\<close>)
  then obtain b k ext r where data: "ws_data ?E demo_services ?ws ?tr =
      Some (0, ?ws\<lparr>read_buffer := b, read_buffer_offset := k\<rparr>, ?tr @ (SysRecv 5 r, int (length demo_stream)) # ext)"
    "pending (?ws\<lparr>read_buffer := b, read_buffer_offset := k\<rparr>) = [0x82, 0x83]"
    "\<forall>e\<in>set ext. event_opened e = [] \<and> event_closed e = []"
    using fields(2) by (metis exchanged_sends_only(2))
  let ?d = "\<lparr>socks = [?ws\<lparr>read_buffer := b, read_buffer_offset := k\<rparr>], log = ?tr @ (SysRecv 5 r, int (length demo_stream)) # ext\<rparr>"
  have "daemon_step ?E demo_services 3 demo_daemon ?d"
    using daemon_step.client [of 0 "[open_client]" ?E demo_services 1 ?tr 0 _ _ 3] data(1) by (simp add: demo_daemon_def)
  then have "open_run ?E demo_services 3 0 demo_daemon ?d"
    by (rule open_run.step [OF open_run.start, rotated]) (simp_all add: open_at_def demo_daemon_def)
  moreover have "fresh_fds {#} (log ?d)"
    using fresh_fds_quiet [of "{#}" ?tr "(SysRecv 5 r, int (length demo_stream)) # ext"] data(3) by (simp add: demo_daemon_def)
  ultimately show ?thesis using data(2) by (intro exI [of _ ?d]) simp
qed

theorem daemon_relays_witness:
  "\<exists>(d' :: daemon) ext fs out. log d' = log demo_daemon @ ext \<and>
    rfc_frames (pending open_client @ received_on (demo_env demo_stream) (ws_fd open_client) (log demo_daemon) ext) =
      (fs, [0x82, 0x83]) \<and>
    sent_on (peer_fd open_client) ext = peer_bytes fs \<and>
    buffered open_client @ received_on (demo_env demo_stream) (peer_fd open_client) (log demo_daemon) ext =
      stream_of (peer_frames out) @ buffered (socks d' ! 0) \<and>
    sent_on (ws_fd open_client) ext = wire (map snd out) \<and>
    pongs_in (control_frames out) = pong_payloads fs \<and>
    (\<forall>(op, p)\<in>set (control_frames out). op = ws_frame_pong \<or> (op, p) = (ws_frame_ping, bytes ''PING''))"
proof -
  obtain d' where d': "open_run (demo_env demo_stream) demo_services 3 0 demo_daemon d'" "fresh_fds {#} (log d')"
    "pending (socks d' ! 0) = [0x82, 0x83]"
    using demo_run by blast
  have ws: "open_client = socks demo_daemon ! 0" by (simp add: demo_daemon_def)
  have "\<not> send_fails (demo_env demo_stream) (ws_fd open_client)" "rfc_decode (pending open_client) = None"
    by (simp_all add: demo_sends rfc_decode_def)
  from daemon_relays [OF demo_posix_send demo_posix_accept services_ok_sound [OF demo_services_ok] demo_daemon_inv d'(1,2) ws refl this]
  show ?thesis unfolding d'(3) by blast
qed

end
