(* ===== verification/Plugin.thy ===== *)
theory Plugin
  imports Registry
begin

text \<open>
  The rest of \<open>plugin.c\<close>: attaching shared objects. \<open>dlopen\<close> and the directory listing are
  parameters; an object is what the program uses of it, the initialiser it runs when it is loaded
  and the symbols of a backend.
\<close>

section \<open>Shared objects\<close>

text \<open>
  \<open>'s\<close> is the type of the static variables of the backends. A symbol that is missing is a null
  pointer. Backends call \<open>core_framing\<close>, so they see the framing library.
\<close>

record 's ws_backend =
  be_init :: "('s \<Rightarrow> nat \<times> 's) option"
  be_config :: "(framing_registry \<Rightarrow> cstring \<Rightarrow> cstring \<Rightarrow> 's \<Rightarrow> (nat \<times> 's) option) option"
  be_query :: "(framing_registry \<Rightarrow> 's \<Rightarrow> backend_query) option"
  be_cleanup :: "('s \<Rightarrow> 's) option"

record 's shared_object =
  initializer :: "framing_registry \<Rightarrow> framing_registry"
  symbols :: "'s ws_backend"

text \<open>
  The variables of the program that are neither connections nor configuration. \<open>attached_library\<close> is
  an array of handles, here the paths they were opened with; after \<open>free\<close> the pointer dangles.
\<close>

record 's process =
  framing_function :: framing_registry
  attached_library :: "cstring list option"
  statics :: 's

definition MAX_PLUGIN_PATH :: nat where
  "MAX_PLUGIN_PATH = 4096"

text \<open>\<open>dlopen\<close> runs the initialiser of an object that is not loaded yet.\<close>

definition plugin_attach ::
  "(cstring \<Rightarrow> 's shared_object option) \<Rightarrow> cstring \<Rightarrow> 's process \<Rightarrow> ('s shared_object option \<times> 's process) option" where
  "plugin_attach dlopen path st =
     (case dlopen path of
        None \<Rightarrow> Some (None, st)
      | Some m \<Rightarrow>
          do { libs \<leftarrow> attached_library st;
               Some (Some m, st\<lparr>framing_function := (if path \<in> set libs then framing_function st
                                                    else initializer m (framing_function st)),
                                attached_library := Some (libs @ [path])\<rparr>) })"

text \<open>\<open>snprintf(plugin_path, sizeof(plugin_path), "%s%s...", path, "/" or "", name)\<close>.\<close>

definition plugin_path :: "cstring \<Rightarrow> cstring \<Rightarrow> cstring" where
  "plugin_path path name =
     take (MAX_PLUGIN_PATH - 1) (path @ (if last path = 47 then [] else [47]) @ name)"

text \<open>The test on a directory entry: not a backend, and the name ends in \<open>.so\<close>.\<close>

definition framing_plugin_name :: "cstring \<Rightarrow> bool" where
  "framing_plugin_name name \<longleftrightarrow>
     \<not> prefix (bytes ''backend_'') name \<and> \<not> (length name < 4 \<or> drop (length name - 3) name \<noteq> bytes ''.so'')"

fun framing_load_entries ::
  "(cstring \<Rightarrow> 's shared_object option) \<Rightarrow> cstring \<Rightarrow> cstring list \<Rightarrow> 's process \<Rightarrow> (int \<times> 's process) option" where
  "framing_load_entries dlopen path [] st = Some (0, st)"
| "framing_load_entries dlopen path (name # names) st =
     (if framing_plugin_name name
      then do { (m, st1) \<leftarrow> plugin_attach dlopen (plugin_path path name) st;
                case m of None \<Rightarrow> Some (1, st1) | Some _ \<Rightarrow> framing_load_entries dlopen path names st1 }
      else framing_load_entries dlopen path names st)"

definition plugin_framing_load ::
  "(cstring \<Rightarrow> 's shared_object option) \<Rightarrow> (cstring \<Rightarrow> cstring list option) \<Rightarrow> cstring \<Rightarrow> 's process \<Rightarrow>
   (int \<times> 's process) option" where
  "plugin_framing_load dlopen readdir path st =
     (if MAX_PLUGIN_PATH - 20 \<le> length path \<or> path = [] then Some (1, st)
      else case readdir path of
        None \<Rightarrow> Some (0, st)
      | Some names \<Rightarrow> framing_load_entries dlopen path names st)"

definition plugin_backend_load ::
  "(cstring \<Rightarrow> 's shared_object option) \<Rightarrow> cstring \<Rightarrow> cstring \<Rightarrow> 's ws_backend \<Rightarrow> 's process \<Rightarrow>
   (int \<times> 's ws_backend \<times> 's process) option" where
  "plugin_backend_load dlopen path backend_requested be st =
     (if MAX_PLUGIN_PATH - 30 \<le> length path \<or> path = [] then Some (1, be, st)
      else do {
        (m, st1) \<leftarrow> plugin_attach dlopen
                      (plugin_path path (bytes ''backend_'' @ backend_requested @ bytes ''.so'')) st;
        case m of
          None \<Rightarrow> Some (1, be, st1)
        | Some m \<Rightarrow>
            (let be1 = be\<lparr>be_init := be_init (symbols m), be_config := be_config (symbols m),
                          be_query := be_query (symbols m), be_cleanup := be_cleanup (symbols m)\<rparr>
             in Some (if Option.is_none (be_init be1) \<or> Option.is_none (be_query be1) then 1 else 0, be1, st1)) })"

text \<open>The end of the program: the names are freed, the objects closed.\<close>

definition modules_cleanup :: "'s process \<Rightarrow> 's process" where
  "modules_cleanup st = st\<lparr>framing_function := plugin_cleanup (framing_function st), attached_library := None\<rparr>"

end
