(* ===== verification/Config.thy ===== *)
theory Config
  imports Plugin Defaultpeer
begin

text \<open>
  \<open>config.c\<close>: the configuration file and the command line. The files and the shared objects
  are parameters.
\<close>

section \<open>The configuration\<close>

record 's ws_config =
  config_host :: "cstring option"
  config_port :: "cstring option"
  ping_interval :: int
  backend :: "'s ws_backend"

datatype config_file_section = cfg_main | cfg_backend

text \<open>The plugin directory, \<open>PLUGINPATH\<close> of the makefile.\<close>

definition PLUGINS :: cstring where
  "PLUGINS = bytes ''plugins/''"

definition config_file_line ::
  "(cstring \<Rightarrow> 's shared_object option) \<Rightarrow> 's ws_config \<Rightarrow> cstring \<Rightarrow> cstring \<Rightarrow> 's process \<Rightarrow>
   (int \<times> 's ws_config \<times> 's process) option" where
  "config_file_line dlopen config key val st =
     (if key = bytes ''port'' then Some (0, config\<lparr>config_port := Some val\<rparr>, st)
      else if key = bytes ''listen'' then Some (0, config\<lparr>config_host := Some val\<rparr>, st)
      else if key = bytes ''ping'' then Some (0, config\<lparr>ping_interval := sint (strtoul 10 val)\<rparr>, st)
      else if key = bytes ''backend''
      then do {
        let st1 = (case be_cleanup (backend config) of None \<Rightarrow> st | Some f \<Rightarrow> st\<lparr>statics := f (statics st)\<rparr>);
        (r, be, st2) \<leftarrow> plugin_backend_load dlopen PLUGINS val (backend config) st1;
        if r \<noteq> 0 then Some (1, config\<lparr>backend := be\<rparr>, st2)
        else do {
          f \<leftarrow> be_init be;
          let (v, s) = f (statics st2);
          Some (if v \<noteq> WEBSOCKSY_API_VERSION then 1 else 0, config\<lparr>backend := be\<rparr>, st2\<lparr>statics := s\<rparr>) } }
      else Some (0, config, st))"

section \<open>Splitting a line\<close>

text \<open>
  \<open>for(...; p && isspace(s[p]); p--) s[p] = 0\<close>, for the string at \<open>i\<close>; the first character stays.
\<close>

fun trim_back :: "u8 list \<Rightarrow> nat \<Rightarrow> nat \<Rightarrow> (nat \<times> u8 list) option" where
  "trim_back buf i 0 = Some (0, buf)"
| "trim_back buf i (Suc p) =
     do { c \<leftarrow> rd buf (i + Suc p);
          if isspace c then do { buf1 \<leftarrow> wr buf (i + Suc p) 0; trim_back buf1 i p }
          else Some (Suc p, buf) }"

definition left_trim :: "u8 list \<Rightarrow> nat \<Rightarrow> nat option" where
  "left_trim buf i = scan (\<lambda>c. \<not> (c \<noteq> 0 \<and> isspace c)) buf i"

text \<open>The key and the value of a line of \<open>n\<close> characters, if it has them.\<close>

definition config_fields :: "u8 list \<Rightarrow> nat \<Rightarrow> (cstring \<times> cstring) option option" where
  "config_fields buf n =
     do { (lc, buf1) \<leftarrow> trim_back buf 0 (n - 1);
          if lc = 0 then Some None
          else do {
            key \<leftarrow> left_trim buf1 0;
            eq \<leftarrow> scan (\<lambda>c. c = 0 \<or> c = 61) buf1 key;
            c \<leftarrow> rd buf1 eq;
            if c = 0 then Some None
            else do {
              buf2 \<leftarrow> wr buf1 eq 0;
              val \<leftarrow> left_trim buf2 (eq + 1);
              key_len \<leftarrow> strlen_at buf2 key;
              (_, buf3) \<leftarrow> (if key_len = 0 then Some (0, buf2) else trim_back buf2 key (key_len - 1));
              k \<leftarrow> cstr buf3 key;
              v \<leftarrow> cstr buf3 val;
              Some (Some (k, v)) } } }"

section \<open>The file\<close>

text \<open>One line. The first component is set when parsing stops with an error.\<close>

definition config_line ::
  "(cstring \<Rightarrow> 's shared_object option) \<Rightarrow> u8 list \<Rightarrow> config_file_section \<Rightarrow> 's ws_config \<Rightarrow> 's process \<Rightarrow>
   (bool \<times> config_file_section \<times> 's ws_config \<times> 's process) option" where
  "config_line dlopen line config_section config st =
     do { core \<leftarrow> strncmp_eq (line @ [0]) 0 (bytes ''[core]'');
          be \<leftarrow> (if core then Some False else strncmp_eq (line @ [0]) 0 (bytes ''[backend]''));
          if core then Some (False, cfg_main, config, st)
          else if be then Some (False, cfg_backend, config, st)
          else if length line = 0 then Some (False, config_section, config, st)
          else do {
            fields \<leftarrow> config_fields (line @ [0]) (length line);
            case fields of
              None \<Rightarrow> Some (False, config_section, config, st)
            | Some (key, val) \<Rightarrow>
                (case config_section of
                   cfg_main \<Rightarrow>
                     do { (r, config1, st1) \<leftarrow> config_file_line dlopen config key val st;
                          Some (r \<noteq> 0, config_section, config1, st1) }
                 | cfg_backend \<Rightarrow>
                     do { f \<leftarrow> be_config (backend config);
                          (r, s) \<leftarrow> f (framing_function st) key val (statics st);
                          Some (r \<noteq> 0, config_section, config, st\<lparr>statics := s\<rparr>) }) } }"

fun config_lines ::
  "(cstring \<Rightarrow> 's shared_object option) \<Rightarrow> u8 list list \<Rightarrow> config_file_section \<Rightarrow> 's ws_config \<Rightarrow> 's process \<Rightarrow>
   (int \<times> config_file_section \<times> 's ws_config \<times> 's process) option" where
  "config_lines dlopen [] config_section config st = Some (0, config_section, config, st)"
| "config_lines dlopen (line # lines) config_section config st =
     do { (stop, config_section1, config1, st1) \<leftarrow> config_line dlopen line config_section config st;
          if stop then Some (1, config_section1, config1, st1)
          else config_lines dlopen lines config_section1 config1 st1 }"

text \<open>\<open>config_section\<close> is \<open>cfg_main\<close> at first; the program parses at most one file.\<close>

definition config_parse_file ::
  "(cstring \<Rightarrow> 's shared_object option) \<Rightarrow> (cstring \<Rightarrow> u8 list option) \<Rightarrow> cstring \<Rightarrow> 's ws_config \<Rightarrow> 's process \<Rightarrow>
   (int \<times> 's ws_config \<times> 's process) option" where
  "config_parse_file dlopen files filename config st =
     (case files filename of
        None \<Rightarrow> Some (1, config, st)
      | Some content \<Rightarrow>
          do { (r, _, config1, st1) \<leftarrow> config_lines dlopen (file_lines content) cfg_main config st;
               Some (r, config1, st1) })"

section \<open>The command line\<close>

text \<open>\<open>argv[u][0]\<close> and \<open>argv[u][1]\<close>; a string ends with NUL.\<close>

fun config_option ::
  "(cstring \<Rightarrow> 's shared_object option) \<Rightarrow> cstring \<Rightarrow> cstring \<Rightarrow> 's ws_config \<Rightarrow> 's process \<Rightarrow>
   (int \<times> 's ws_config \<times> 's process) option" where
  "config_option dlopen opt arg config st =
     (if (opt @ [0]) ! 0 \<noteq> 45 then Some (1, config, st)
      else let c = (opt @ [0]) ! 1;
               set_option = (\<lambda>key. do { (_, config1, st1) \<leftarrow> config_file_line dlopen config key arg st;
                                     Some (0, config1, st1) }) in
        if c = 112 then set_option (bytes ''port'')
        else if c = 108 then set_option (bytes ''listen'')
        else if c = 98 then set_option (bytes ''backend'')
        else if c = 107 then set_option (bytes ''ping'')
        else if c = 99
        then if 61 \<notin> set arg then Some (1, config, st)
             else case be_config (backend config) of
                    None \<Rightarrow> Some (0, config, st)
                  | Some f \<Rightarrow>
                      do { (_, s) \<leftarrow> f (framing_function st) (takeWhile (\<lambda>c. c \<noteq> 61) arg)
                                       (tl (dropWhile (\<lambda>c. c \<noteq> 61) arg)) (statics st);
                           Some (0, config, st\<lparr>statics := s\<rparr>) }
        else Some (0, config, st))"

fun config_options ::
  "(cstring \<Rightarrow> 's shared_object option) \<Rightarrow> cstring list \<Rightarrow> 's ws_config \<Rightarrow> 's process \<Rightarrow>
   (int \<times> 's ws_config \<times> 's process) option" where
  "config_options dlopen (opt # arg # argv) config st =
     do { (r, config1, st1) \<leftarrow> config_option dlopen opt arg config st;
          if r \<noteq> 0 then Some (r, config1, st1) else config_options dlopen argv config1 st1 }"
| "config_options dlopen argv config st = Some (0, config, st)"

definition config_parse_arguments ::
  "(cstring \<Rightarrow> 's shared_object option) \<Rightarrow> (cstring \<Rightarrow> u8 list option) \<Rightarrow> cstring list \<Rightarrow> 's ws_config \<Rightarrow>
   's process \<Rightarrow> (int \<times> 's ws_config \<times> 's process) option" where
  "config_parse_arguments dlopen files argv config st =
     (if length argv = 1 then config_parse_file dlopen files (argv ! 0) config st
      else if odd (length argv) then Some (1, config, st)
      else config_options dlopen argv config st)"

end
