(* ===== verification/Program.thy ===== *)
theory Program
  imports Core_Inv Config Backend_File
begin

text \<open>
  \<open>main\<close> of \<open>websocksy.c\<close> as a whole: the initialisation, the core loop over a sequence of wake-ups,
  and the clean-up.
\<close>

section \<open>Backends as loaded objects\<close>

text \<open>The static variables of the default backend, and of a loaded one.\<close>

record 'm backend_statics =
  default_static :: defaultpeer
  loaded_static :: 'm

definition builtin_backend :: "'m backend_statics ws_backend" where
  "builtin_backend =
     \<lparr>be_init = Some (\<lambda>s. let (v, d) = backend_defaultpeer_init (default_static s) in (v, s\<lparr>default_static := d\<rparr>)),
      be_config = Some (\<lambda>reg key val s.
        do { (r, d) \<leftarrow> backend_defaultpeer_configure reg key val (default_static s);
             Some (r, s\<lparr>default_static := d\<rparr>) }),
      be_query = Some (\<lambda>reg s. backend_defaultpeer_query (default_static s)),
      be_cleanup = Some (\<lambda>s. s\<lparr>default_static := backend_defaultpeer_cleanup (default_static s)\<rparr>)\<rparr>"

definition file_backend_object :: "(cstring \<Rightarrow> u8 list option) \<Rightarrow> file_backend backend_statics shared_object" where
  "file_backend_object files =
     \<lparr>initializer = id,
      symbols =
       \<lparr>be_init = Some (\<lambda>s. let (v, d) = backend_file_init (loaded_static s) in (v, s\<lparr>loaded_static := d\<rparr>)),
        be_config = Some (\<lambda>reg key val s.
          let (r, d) = backend_file_configure key val (loaded_static s) in Some (r, s\<lparr>loaded_static := d\<rparr>)),
        be_query = Some (\<lambda>reg s. backend_file_query reg files (loaded_static s)),
        be_cleanup = Some (\<lambda>s. s\<lparr>loaded_static := backend_file_cleanup (loaded_static s)\<rparr>)\<rparr>\<rparr>"

section \<open>Initialisation\<close>

definition config_start :: "'m backend_statics ws_config" where
  "config_start = \<lparr>config_host = None, config_port = None, ping_interval = 30, backend = builtin_backend\<rparr>"

text \<open>The result is the exit of the program, or its configuration, variables and listening socket.\<close>

definition main_start ::
  "(cstring \<Rightarrow> 'm backend_statics shared_object option) \<Rightarrow> (cstring \<Rightarrow> cstring list option) \<Rightarrow>
   (cstring \<Rightarrow> u8 list option) \<Rightarrow> cstring list \<Rightarrow> 'm backend_statics \<Rightarrow> env \<Rightarrow> trace \<Rightarrow>
   (('m backend_statics ws_config \<times> 'm backend_statics process \<times> int) option \<times> trace) option" where
  "main_start dlopen readdir files argv s E tr =
     do { let st0 = \<lparr>framing_function = builtin_framings, attached_library = Some [], statics = s\<rparr>;
          (r, st1) \<leftarrow> plugin_framing_load dlopen readdir PLUGINS st0;
          if r \<noteq> 0 then Some (None, tr)
          else do {
            init \<leftarrow> be_init (backend config_start);
            let (v, s1) = init (statics st1);
            if v \<noteq> WEBSOCKSY_API_VERSION then Some (None, tr)
            else do {
              (r, config, st2) \<leftarrow> config_parse_arguments dlopen files argv config_start (st1\<lparr>statics := s1\<rparr>);
              if r \<noteq> 0 then Some (None, tr)
              else (let (fd, tr1) = network_socket E
                          (case config_host config of Some h \<Rightarrow> h | None \<Rightarrow> bytes ''::'')
                          (case config_port config of Some p \<Rightarrow> p | None \<Rightarrow> bytes ''8001'') SOCK_STREAM True tr
                    in Some (if fd < 0 then None else Some (config, st2, fd), tr1)) } } }"

section \<open>The core loop\<close>

text \<open>
  What \<open>select\<close> and the clock make of one iteration: both may fail, which ends the loop. The
  sequence of wake-ups ends when a signal has requested the shutdown.
\<close>

datatype wakeup = Select_failed | Clock_failed | Wakeup "int list" int

fun main_loop ::
  "env \<Rightarrow> services \<Rightarrow> int \<Rightarrow> int \<Rightarrow> wakeup list \<Rightarrow> websocket list \<Rightarrow> trace \<Rightarrow> (websocket list \<times> trace) option" where
  "main_loop E SV lfd interval [] ss tr = Some (ss, tr)"
| "main_loop E SV lfd interval (Wakeup ready now # ws) ss tr =
     do { (ss1, tr1) \<leftarrow> main_pass E SV lfd interval ready now ss tr;
          main_loop E SV lfd interval ws ss1 tr1 }"
| "main_loop E SV lfd interval (w # ws) ss tr =
     (if fd_settable lfd ss then Some (ss, tr) else None)"

text \<open>The services of a configured program; \<open>sha1\<close>, \<open>base64\<close> and \<open>room\<close> are nettle's.\<close>

definition program_services ::
  "(u8 list \<Rightarrow> u8 list) \<Rightarrow> (u8 list \<Rightarrow> u8 list) \<Rightarrow> (nat \<Rightarrow> nat) \<Rightarrow> 's ws_config \<Rightarrow> 's process \<Rightarrow> services" where
  "program_services sha1 base64 room config st =
     \<lparr>cfg_query = (case be_query (backend config) of
                     Some q \<Rightarrow> q (framing_function st) (statics st) | None \<Rightarrow> (\<lambda>_ _ _. None)),
      nettle_sha1 = sha1, nettle_base64 = base64, BASE64_ENCODE_LENGTH = room\<rparr>"

text \<open>The whole program, to its exit: the code, its variables after the clean-up, and the trace.\<close>

definition main ::
  "(cstring \<Rightarrow> 'm backend_statics shared_object option) \<Rightarrow> (cstring \<Rightarrow> cstring list option) \<Rightarrow>
   (cstring \<Rightarrow> u8 list option) \<Rightarrow> (u8 list \<Rightarrow> u8 list) \<Rightarrow> (u8 list \<Rightarrow> u8 list) \<Rightarrow> (nat \<Rightarrow> nat) \<Rightarrow>
   cstring list \<Rightarrow> 'm backend_statics \<Rightarrow> env \<Rightarrow> wakeup list \<Rightarrow>
   (int \<times> 'm backend_statics process option \<times> trace) option" where
  "main dlopen readdir files sha1 base64 room argv s E wakeups =
     do { (started, tr) \<leftarrow> main_start dlopen readdir files argv s E [];
          case started of
            None \<Rightarrow> Some (1, None, tr)
          | Some (config, st, lfd) \<Rightarrow>
              do { (ss, tr1) \<leftarrow> main_loop E (program_services sha1 base64 room config st) lfd (ping_interval config)
                                  wakeups [] tr;
                   let st1 = (case be_cleanup (backend config) of None \<Rightarrow> st | Some f \<Rightarrow> st\<lparr>statics := f (statics st)\<rparr>);
                   (_, tr2) \<leftarrow> main_shutdown E lfd ss tr1;
                   Some (0, Some (modules_cleanup st1), tr2) } }"

end
