(* ===== verification/Program_Inv.thy ===== *)
theory Program_Inv
  imports Program Core_Loop Backend_Upgrade
begin

text \<open>
  What initialisation establishes for a command line that keeps the default backend, and the core
  loop as a sequence of events from there.
\<close>

section \<open>Loading framing plugins\<close>

text \<open>The initialiser of an object only registers framing functions.\<close>

definition registers_only :: "(cstring \<Rightarrow> 's shared_object option) \<Rightarrow> bool" where
  "registers_only dlopen \<longleftrightarrow>
     (\<forall>path m. dlopen path = Some m \<longrightarrow>
        (\<exists>fs. \<forall>reg. initializer m reg = fold (\<lambda>(n, f). registry_insert n f) fs reg))"

abbreviation knows_auto :: "framing_registry \<Rightarrow> bool" where
  "knows_auto reg \<equiv> registry_find (bytes ''auto'') reg \<noteq> None"

lemma knows_auto_inserts: "knows_auto reg \<Longrightarrow> knows_auto (fold (\<lambda>(n, f). registry_insert n f) fs reg)"
  by (induction fs arbitrary: reg) (auto simp: registry_find_map_of map_of_registry_insert)

lemma knows_auto_builtin: "knows_auto builtin_framings"
proof -
  have "bytes ''auto'' \<in> fst ` set builtin_framings"
    using arg_cong [OF builtin_framings_names, of set] by auto
  then show ?thesis by (auto simp: registry_find_map_of map_of_eq_None_iff)
qed

text \<open>What loading keeps: \<open>auto\<close> is registered, the array of handles is there, the backends are untouched.\<close>

definition loads :: "'s process \<Rightarrow> 's process \<Rightarrow> bool" where
  "loads st st' \<longleftrightarrow> statics st' = statics st \<and>
     (knows_auto (framing_function st) \<and> attached_library st \<noteq> None \<longrightarrow>
      knows_auto (framing_function st') \<and> attached_library st' \<noteq> None)"

lemma loads_refl [simp]: "loads st st"
  by (simp add: loads_def)

lemma loads_trans: "loads st st1 \<Longrightarrow> loads st1 st2 \<Longrightarrow> loads st st2"
  by (simp add: loads_def)

lemma plugin_attach_runs:
  assumes "registers_only dlopen" "attached_library st \<noteq> None"
  shows "runs (plugin_attach dlopen path st) (\<lambda>(m, st'). loads st st')"
proof (cases "dlopen path")
  case (Some m)
  then obtain fs where "\<forall>reg. initializer m reg = fold (\<lambda>(n, f). registry_insert n f) fs reg"
    using assms(1) unfolding registers_only_def by blast
  with Some assms(2) knows_auto_inserts show ?thesis by (auto simp: plugin_attach_def loads_def)
qed (simp add: plugin_attach_def)

lemma framing_load_entries_runs:
  assumes "registers_only dlopen"
  shows "knows_auto (framing_function st) \<Longrightarrow> attached_library st \<noteq> None \<Longrightarrow>
    runs (framing_load_entries dlopen path names st) (\<lambda>(r, st'). loads st st')"
proof (induction names arbitrary: st)
  case (Cons name names)
  obtain m st1 where m: "plugin_attach dlopen (plugin_path path name) st = Some (m, st1)" "loads st st1"
    using plugin_attach_runs [OF assms Cons.prems(2), of "plugin_path path name"] by (auto simp: runs_def)
  have "runs (framing_load_entries dlopen path names st1) (\<lambda>(r, st'). loads st st')"
    using Cons.IH [of st1] Cons.prems m(2) by (auto simp: loads_def elim!: runs_weaken)
  with Cons m show ?case by (auto split: option.split)
qed simp

lemma plugin_framing_load_runs:
  assumes "registers_only dlopen" "knows_auto (framing_function st)" "attached_library st \<noteq> None"
  shows "runs (plugin_framing_load dlopen readdir path st) (\<lambda>(r, st'). loads st st')"
  using framing_load_entries_runs [OF assms] by (auto simp: plugin_framing_load_def split: option.split)

section \<open>Command lines that keep the default backend\<close>

fun plain_options :: "cstring list \<Rightarrow> bool" where
  "plain_options (opt # arg # argv) \<longleftrightarrow>
     \<not> prefix (bytes ''-b'') opt \<and> \<not> (prefix (bytes ''-c'') opt \<and> prefix (bytes ''framing='') arg) \<and>
     0 \<notin> set arg \<and> plain_options argv"
| "plain_options argv \<longleftrightarrow> True"

definition plain_config :: "'m backend_statics ws_config \<Rightarrow> 'm backend_statics process \<Rightarrow> bool" where
  "plain_config config st \<longleftrightarrow>
     backend config = builtin_backend \<and> knows_auto (framing_function st) \<and>
     (let p = default_peer (default_static (statics st))
      in framing p = None \<and> (\<forall>h. host p = Some h \<longrightarrow> 0 \<notin> set h))"

lemma config_file_line_plain:
  assumes "plain_config config st" "key \<noteq> bytes ''backend''"
  shows "runs (config_file_line dlopen config key val st) (\<lambda>(r, config', st'). plain_config config' st')"
  using assms by (simp add: config_file_line_def plain_config_def)

lemma builtin_configure_plain:
  assumes "plain_config config st" "key \<noteq> bytes ''framing''" "0 \<notin> set val"
  shows "\<exists>f. be_config (backend config) = Some f \<and>
    runs (f (framing_function st) key val (statics st)) (\<lambda>(r, s). plain_config config (st\<lparr>statics := s\<rparr>))"
  using assms by (auto simp: plain_config_def builtin_backend_def backend_defaultpeer_configure_def Let_def)

lemma framing_key:
  assumes "61 \<in> set arg" "takeWhile (\<lambda>c. c \<noteq> 61) arg = bytes ''framing''"
  shows "prefix (bytes ''framing='') arg"
proof -
  obtain a r where a: "arg = a @ 61 # r" "61 \<notin> set a" using split_list_first [OF assms(1)] by blast
  then have "takeWhile (\<lambda>c. c \<noteq> 61) arg = a" unfolding a(1) by (induction a) auto
  with assms(2) have "a = bytes ''framing''" by simp
  with a(1) show ?thesis by (simp add: bytes_def)
qed

lemma option_letter:
  fixes opt :: cstring
  assumes "(opt @ [0]) ! 0 = 45" "(opt @ [0]) ! 1 = c" "c \<noteq> 0"
  shows "prefix [45, c] opt"
proof -
  obtain x xs where x: "opt = x # xs" using assms(1) by (cases opt) auto
  then obtain y ys where "xs = y # ys" using assms(2,3) by (cases xs) auto
  with x assms show ?thesis by simp
qed

lemma config_option_plain:
  assumes "plain_config config st" "plain_options [opt, arg]"
  shows "runs (config_option dlopen opt arg config st) (\<lambda>(r, config', st'). plain_config config' st')"
proof (cases "(opt @ [0]) ! 0 = 45")
  case True
  let ?c = "(opt @ [0]) ! 1"
  have set_option: "runs (config_file_line dlopen config (bytes k) arg st) (\<lambda>(r, config', st'). plain_config config' st')"
    if "bytes k \<noteq> bytes ''backend''" for k
    by (rule config_file_line_plain [OF assms(1) that])
  have b: "?c \<noteq> 98" using option_letter [OF True, of 98] assms(2) by (auto simp: bytes_def)
  have c: "runs (f (framing_function st) (takeWhile (\<lambda>c. c \<noteq> 61) arg) (tl (dropWhile (\<lambda>c. c \<noteq> 61) arg)) (statics st))
      (\<lambda>(r, s). plain_config config (st\<lparr>statics := s\<rparr>))"
    if "?c = 99" "61 \<in> set arg" "be_config (backend config) = Some f" for f
  proof -
    have "takeWhile (\<lambda>c. c \<noteq> 61) arg \<noteq> bytes ''framing''"
      using option_letter [OF True that(1)] framing_key [OF that(2)] assms(2) by (auto simp: bytes_def)
    moreover have "0 \<notin> set (tl (dropWhile (\<lambda>c. c \<noteq> 61) arg))"
    proof
      assume "0 \<in> set (tl (dropWhile (\<lambda>c. c \<noteq> 61) arg))"
      then have "0 \<in> set (dropWhile (\<lambda>c. c \<noteq> 61) arg)" by (cases "dropWhile (\<lambda>c. c \<noteq> 61) arg") simp_all
      then show False using assms(2) set_dropWhileD by fastforce
    qed
    ultimately show ?thesis using builtin_configure_plain [OF assms(1)] that(3) by auto
  qed
  show ?thesis
    using True b c assms(1) set_option [of "''port''"] set_option [of "''listen''"] set_option [of "''ping''"]
    by (auto simp: Let_def bytes_def split: option.split elim!: runs_weaken)
qed (use assms(1) in simp)

lemma config_options_plain:
  "plain_config config st \<Longrightarrow> plain_options argv \<Longrightarrow>
     runs (config_options dlopen argv config st) (\<lambda>(r, config', st'). plain_config config' st')"
proof (induction dlopen argv config st rule: config_options.induct)
  case (1 dlopen opt arg argv config st)
  have "runs (config_option dlopen opt arg config st) (\<lambda>(r, config', st'). plain_config config' st')"
    by (rule config_option_plain [OF "1.prems"(1)]) (use "1.prems"(2) in simp)
  then obtain r config1 st1 where step: "config_option dlopen opt arg config st = Some (r, config1, st1)"
    "plain_config config1 st1" by (auto simp: runs_def)
  show ?case
  proof (cases "r = 0")
    case True
    with "1.IH" [OF step(1) refl refl _ step(2)] step "1.prems" show ?thesis by simp
  qed (use step in simp)
qed simp_all

lemma config_start_init:
  "be_init (backend config_start) =
     Some (\<lambda>s. let (v, d) = backend_defaultpeer_init (default_static s) in (v, s\<lparr>default_static := d\<rparr>))"
  by (simp add: config_start_def builtin_backend_def)

definition start_ready :: "'m backend_statics ws_config \<times> 'm backend_statics process \<times> int \<Rightarrow> trace \<Rightarrow> bool" where
  "start_ready x tr \<longleftrightarrow>
     (case x of (config, st, lfd) \<Rightarrow>
        plain_config config st \<and> 0 \<le> lfd \<and> balanced lfd tr)"

lemma main_start_ready:
  assumes "registers_only dlopen" "default_static s = defaultpeer_start" "length argv \<noteq> 1" "plain_options argv"
  shows "runs (main_start dlopen readdir files argv s E [])
    (\<lambda>(x, tr). case x of None \<Rightarrow> balanced (-1) tr | Some x \<Rightarrow> start_ready x tr)"
proof -
  let ?st0 = "\<lparr>framing_function = builtin_framings, attached_library = Some [], statics = s\<rparr>"
  have "runs (plugin_framing_load dlopen readdir PLUGINS ?st0) (\<lambda>(r, st'). loads ?st0 st')"
    by (rule plugin_framing_load_runs [OF assms(1)]) (simp_all add: knows_auto_builtin)
  then obtain r st1 where load: "plugin_framing_load dlopen readdir PLUGINS ?st0 = Some (r, st1)" "loads ?st0 st1"
    by (auto simp: runs_def)
  obtain d where init: "backend_defaultpeer_init (default_static s) = (WEBSOCKSY_API_VERSION, d)"
    by (simp add: backend_defaultpeer_init_def)
  let ?st2 = "st1\<lparr>statics := s\<lparr>default_static := d\<rparr>\<rparr>"
  have plain: "plain_config config_start ?st2"
    using load(2) init knows_auto_builtin assms(2)
    by (auto simp: plain_config_def config_start_def loads_def backend_defaultpeer_init_def defaultpeer_start_def
        empty_peer_def bytes_def Let_def)
  have "runs (config_parse_arguments dlopen files argv config_start ?st2) (\<lambda>(r, config', st'). plain_config config' st')"
    using config_options_plain [OF plain assms(4)] assms(3) plain by (simp add: config_parse_arguments_def)
  then obtain r2 config st3 where parse: "config_parse_arguments dlopen files argv config_start ?st2 = Some (r2, config, st3)"
    "plain_config config st3" by (auto simp: runs_def)
  obtain fd tr1 where sock: "network_socket E (case config_host config of Some h \<Rightarrow> h | None \<Rightarrow> bytes ''::'')
      (case config_port config of Some p \<Rightarrow> p | None \<Rightarrow> bytes ''8001'') SOCK_STREAM True [] = (fd, tr1)"
    by (meson surj_pair)
  from network_socket_spec [OF this] have bal: "-1 \<le> fd" "balanced fd tr1" by auto
  have "statics st1 = s" using load(2) by (simp add: loads_def)
  moreover have "balanced (-1) tr1" if "fd < 0" using bal that by (simp add: balanced_def)
  moreover have "balanced (-1) []" by (simp add: balanced_def)
  ultimately show ?thesis
    using load(1) init parse sock bal by (simp add: main_start_def start_ready_def Let_def config_start_init)
qed

lemma plain_config_services:
  assumes "plain_config config st"
  shows "services_total (program_services sha1 base64 room config st)"
proof (rule defaultpeer.services)
  show "defaultpeer_ready (default_static (statics st))"
    using assms by (intro defaultpeer_readyI) (simp_all add: plain_config_def framing_choice_ok_def Let_def)
  show "cfg_query (program_services sha1 base64 room config st) = backend_defaultpeer_query (default_static (statics st))"
    using assms by (simp add: program_services_def plain_config_def builtin_backend_def)
qed

section \<open>The core loop\<close>

lemma main_loop_performs:
  "performs E SV lfd \<lparr>socks = ss, log = tr\<rparr> (main_loop E SV lfd interval ws ss tr)
    (\<lambda>(ss', tr') d. d = \<lparr>socks = ss', log = tr'\<rparr>)"
proof (induction ws arbitrary: ss tr)
  case (Cons w ws)
  show ?case
  proof (cases w)
    case (Wakeup ready now)
    show ?thesis
      unfolding Wakeup main_loop.simps by (rule performs_bind [OF main_pass_performs]) (auto intro: Cons.IH)
  qed (simp_all add: performs_def)
qed (simp add: performs_return)

text \<open>
  The loop gets stuck in the first pass that does, after those before it; where \<open>select\<close> or the clock
  fails, it can only be the building of the descriptor set.
\<close>

fun loop_stuck ::
  "env \<Rightarrow> services \<Rightarrow> services \<Rightarrow> int \<Rightarrow> int \<Rightarrow> wakeup list \<Rightarrow> websocket list \<Rightarrow> trace \<Rightarrow> bool" where
  "loop_stuck E SV SV' lfd interval [] ss tr \<longleftrightarrow> False"
| "loop_stuck E SV SV' lfd interval (Wakeup ready now # ws) ss tr \<longleftrightarrow>
     (case main_pass E SV lfd interval ready now ss tr of
        None \<Rightarrow> pass_stuck E SV SV' lfd interval ready now ss tr
      | Some (ss1, tr1) \<Rightarrow> loop_stuck E SV SV' lfd interval ws ss1 tr1)"
| "loop_stuck E SV SV' lfd interval (w # ws) ss tr \<longleftrightarrow> \<not> fd_settable lfd ss"

lemma main_loop_stuck:
  assumes E: "posix_send E" "posix_accept E" "services_ok SV'" "services_le SV SV'" "services_sound SV"
  shows "daemon_inv \<lparr>socks = ss, log = tr\<rparr> \<Longrightarrow> main_loop E SV lfd interval ws ss tr = None \<Longrightarrow>
    loop_stuck E SV SV' lfd interval ws ss tr"
proof (induction ws arbitrary: ss tr)
  case (Cons w ws)
  show ?case
  proof (cases w)
    case (Wakeup ready now)
    show ?thesis
    proof (cases "main_pass E SV lfd interval ready now ss tr")
      case None
      with main_pass_stuck [OF E(1-4) Cons.prems(1)] show ?thesis by (simp add: Wakeup)
    next
      case (Some x)
      obtain ss1 tr1 where x: "x = (ss1, tr1)" by (cases x)
      have "daemon_inv \<lparr>socks = ss1, log = tr1\<rparr>"
        using daemon_steps_sound [OF E(1,2,5) performs_SomeD [OF main_pass_performs Some [unfolded x]] Cons.prems(1)] .
      from Cons.IH [OF this] Cons.prems(2) Some show ?thesis by (simp add: Wakeup x)
    qed
  qed (use Cons.prems(2) in \<open>auto split: if_splits\<close>)
qed simp

text \<open>The whole program: what it closes it has opened, and every connection is closed at the end.\<close>

lemma main_shutdown_done:
  assumes "posix_send E" "daemon_inv_with {#lfd#} \<lparr>socks = ss, log = tr\<rparr>"
  shows "\<exists>tr'. main_shutdown E lfd ss tr = Some ([], tr') \<and> mset (closed_in tr') \<subseteq># mset (opened_in tr')"
proof -
  have "\<forall>ws\<in>set ss. ws_inv ws" using assms(2) by (simp add: daemon_inv_with_def)
  from close_all_closes [OF assms(1) this, of tr] obtain ext where
    ext: "close_all E ss tr = Some (tr @ ext)" "opened_in ext = []" "mset (closed_in ext) = total_held ss" by blast
  let ?tr' = "snd (do_sys E (SysClose lfd) (tr @ ext))"
  have "mset (closed_in ?tr') = mset (closed_in tr) + total_held ss + {#lfd#}"
    "mset (opened_in ?tr') = mset (opened_in tr)"
    using ext(2,3) by (simp_all add: do_sys_def)
  with assms(2) ext(1) show ?thesis
    by (simp add: main_shutdown_def client_cleanup_def daemon_inv_with_def)
qed

lemma main_start_socket:
  assumes "main_start dlopen readdir files argv s E [] = Some (Some (config, st, lfd), tr)"
  shows "0 \<le> lfd \<and> balanced lfd tr"
  using assms by (auto simp: main_start_def Let_def dest!: network_socket_spec elim!: bind_SomeE
      split: prod.splits if_splits)

text \<open>From a successful start with a sound backend: to the exit, or to where the loop gets stuck.\<close>

lemma main_outcome:
  fixes sha1 base64 :: "u8 list \<Rightarrow> u8 list" and room :: "nat \<Rightarrow> nat"
  defines "SV config st \<equiv> program_services sha1 base64 room config st"
  assumes E: "posix_send E" "posix_accept E" "services_sound (SV config st)"
    and start: "main_start dlopen readdir files argv s E [] = Some (Some (config, st, lfd), tr0)"
  shows "(\<exists>st' tr. main dlopen readdir files sha1 base64 room argv s E wakeups = Some (0, st', tr) \<and>
      mset (closed_in tr) \<subseteq># mset (opened_in tr)) \<or>
    main dlopen readdir files sha1 base64 room argv s E wakeups = None \<and>
      loop_stuck E (SV config st) (ample (SV config st)) lfd (ping_interval config) wakeups [] tr0"
proof -
  let ?SV = "SV config st"
  let ?loop = "main_loop E ?SV lfd (ping_interval config) wakeups [] tr0"
  have inv: "daemon_inv_with {#lfd#} \<lparr>socks = [], log = tr0\<rparr>"
    using main_start_socket [OF start] by (simp add: daemon_inv_with_def balanced_def)
  have main: "main dlopen readdir files sha1 base64 room argv s E wakeups =
      do { (ss, tr1) \<leftarrow> ?loop;
           let st1 = (case be_cleanup (backend config) of None \<Rightarrow> st | Some f \<Rightarrow> st\<lparr>statics := f (statics st)\<rparr>);
           (_, tr2) \<leftarrow> main_shutdown E lfd ss tr1;
           Some (0, Some (modules_cleanup st1), tr2) }"
    by (simp add: main_def start SV_def)
  show ?thesis
  proof (cases ?loop)
    case None
    with main_loop_stuck [OF E(1,2) ample_ok [OF E(3)] ample_le E(3) daemon_inv_weaken [OF inv]] main show ?thesis by simp
  next
    case (Some x)
    then obtain ss1 tr1 where l: "?loop = Some (ss1, tr1)" by (cases x) auto
    from main_shutdown_done [OF E(1) daemon_steps_sound [OF E performs_SomeD [OF main_loop_performs l] inv]] main l
    show ?thesis by auto
  qed
qed

lemma main_ends:
  fixes sha1 base64 :: "u8 list \<Rightarrow> u8 list" and room :: "nat \<Rightarrow> nat"
  defines "SV config st \<equiv> program_services sha1 base64 room config st"
  assumes E: "posix_send E" "posix_accept E" and "registers_only dlopen" "default_static s = defaultpeer_start"
    and "length argv \<noteq> 1" "plain_options argv"
  shows "(\<exists>code st tr. main dlopen readdir files sha1 base64 room argv s E wakeups = Some (code, st, tr) \<and>
      mset (closed_in tr) \<subseteq># mset (opened_in tr)) \<or>
    (\<exists>config st lfd tr0. main dlopen readdir files sha1 base64 room argv s E wakeups = None \<and>
      main_start dlopen readdir files argv s E [] = Some (Some (config, st, lfd), tr0) \<and>
      loop_stuck E (SV config st) (roomy (SV config st)) lfd (ping_interval config) wakeups [] tr0)"
proof -
  obtain x tr where x: "main_start dlopen readdir files argv s E [] = Some (x, tr)"
    "case x of None \<Rightarrow> balanced (-1) tr | Some x \<Rightarrow> start_ready x tr"
    using main_start_ready [OF assms(4-7), of readdir files E] by (auto simp: runs_def)
  show ?thesis
  proof (cases x)
    case None
    with x show ?thesis by (simp add: main_def balanced_def)
  next
    case (Some y)
    obtain config st lfd where y: "y = (config, st, lfd)" by (cases y)
    with x Some have start: "main_start dlopen readdir files argv s E [] = Some (Some (config, st, lfd), tr)"
      and "plain_config config st"
      by (simp_all add: start_ready_def)
    from plain_config_services [OF this(2)] have total: "services_total (SV config st)" by (simp add: SV_def)
    from main_outcome [OF E services_total_sound [OF total [unfolded SV_def]] start] start show ?thesis
      unfolding SV_def ample_roomy [OF total [unfolded SV_def]] by blast
  qed
qed

section \<open>The program with the \<open>file\<close> backend\<close>

lemma program_services_file:
  assumes "be_query (backend config) = be_query (symbols (file_backend_object peers))"
    and "files_lawful (framing_function st) peers"
  shows "services_sound (program_services sha1 base64 room config st)"
  by (rule file_service_sound.sound [of "(framing_function st, peers, loaded_static (statics st))"])
    (use assms in \<open>simp_all add: program_services_def file_backend_object_def fun_eq_iff\<close>)

end
