(* ===== verification/Config_Spec.thy ===== *)
theory Config_Spec
  imports Config
begin

text \<open>What a configuration file means: the documented form of its lines, and running the settings in order.\<close>

section \<open>One setting\<close>

lemma trim_back_blank:
  assumes "list_all isspace t" "s \<noteq> []" "\<not> isspace (last s)"
  shows "trim_back (pre @ s @ t @ post) (length pre) (length s + length t - 1) =
    Some (length s - 1, pre @ s @ replicate (length t) 0 @ post)"
  using assms(1)
proof (induction t arbitrary: post rule: rev_induct)
  case Nil
  obtain s' c where s: "s = s' @ [c]" using assms(2) by (cases s rule: rev_cases) auto
  with assms(3) show ?case by (cases "length s'") (simp_all add: nth_append)
next
  case (snoc c t)
  obtain p where p: "length s + length (t @ [c]) - 1 = Suc p" "Suc p = length s + length t"
    "p = length s + length t - 1"
    using assms(2) by (cases s) auto
  have "trim_back (pre @ s @ (t @ [c]) @ post) (length pre) (Suc p) = trim_back (pre @ s @ t @ 0 # post) (length pre) p"
    using snoc.prems by (subst trim_back.simps(2), unfold p(2)) (simp add: nth_append list_update_append)
  then show ?case
    using snoc unfolding p(1) p(3) by (simp add: replicate_app_Cons_same)
qed

lemma left_trim_blank:
  assumes "list_all isspace t" "\<not> isspace c"
  shows "left_trim (pre @ t @ c # post) (length pre) = Some (length pre + length t)"
  unfolding left_trim_def
  by (rule scan_append_zero) (use assms in \<open>auto simp: list_all_iff\<close>)

text \<open>
  A setting: the key and the value, without blanks at their ends, and blanks around them. The
  value may be empty.
\<close>

definition config_key :: "cstring \<Rightarrow> bool" where
  "config_key k \<longleftrightarrow> k \<noteq> [] \<and> 0 \<notin> set k \<and> 61 \<notin> set k \<and> \<not> isspace (hd k) \<and> \<not> isspace (last k)"

definition config_value :: "cstring \<Rightarrow> bool" where
  "config_value v \<longleftrightarrow> 0 \<notin> set v \<and> (v \<noteq> [] \<longrightarrow> \<not> isspace (hd v) \<and> \<not> isspace (last v))"

lemma config_fields_spec:
  assumes "config_key k" "config_value v" "list_all isspace (a @ b @ c @ d)"
  shows "config_fields ((a @ k @ b @ 61 # c @ v @ d) @ [0]) (length (a @ k @ b @ 61 # c @ v @ d)) = Some (Some (k, v))"
proof -
  define c' where "c' = (if v = [] then [] else c)"
  define d' where "d' = (if v = [] then c @ d else d)"
  have line: "a @ k @ b @ 61 # c @ v @ d = (a @ k @ b @ 61 # c' @ v) @ d'" by (simp add: c'_def d'_def)
  have bl: "list_all isspace c'" "list_all isspace d'" "list_all isspace a" "list_all isspace b"
    using assms(3) by (auto simp: c'_def d'_def)
  let ?s = "a @ k @ b @ 61 # c' @ v" and ?z = "replicate (length d') 0 @ [0 :: u8]"
  have k: "k \<noteq> []" "0 \<notin> set k" "61 \<notin> set k" "\<not> isspace (hd k)" "\<not> isspace (last k)"
    using assms(1) by (auto simp: config_key_def)
  have last: "\<not> isspace (last ?s)"
    using assms(2) by (auto simp: config_value_def c'_def isspace_def)
  have n: "length (?s @ d') - 1 = length ?s + length d' - 1" by simp
  have t1: "trim_back ((?s @ d') @ [0]) 0 (length (?s @ d') - 1) = Some (length ?s - 1, ?s @ ?z)"
    unfolding n using trim_back_blank [OF bl(2) _ last, of "[]" "[0]"] by simp
  have lc: "length ?s - 1 \<noteq> 0" using k(1) by (cases k) auto
  obtain k' where k': "k = hd k # k'" using k(1) by (cases k) auto
  have t2: "left_trim (?s @ ?z) 0 = Some (length a)"
    using left_trim_blank [OF bl(3) k(4), of "[]"] k' by (metis append_Cons append_Nil append_assoc add_0 list.size(3))
  have nob: "0 \<notin> set b" "61 \<notin> set b" using bl(4) by (auto simp: list_all_iff isspace_def)
  have t3: "scan (\<lambda>c. c = 0 \<or> c = 61) (?s @ ?z) (length a) = Some (length a + length (k @ b))"
    using scan_append_zero [of "k @ b" "\<lambda>c. c = 0 \<or> c = 61" 61 a "c' @ v @ ?z"] k nob by auto
  have t4: "rd (?s @ ?z) (length a + length (k @ b)) = Some 61" by (simp add: nth_append)
  have t5: "wr (?s @ ?z) (length a + length (k @ b)) 0 = Some (a @ k @ b @ 0 # c' @ v @ ?z)"
    by (simp add: list_update_append)
  have t6: "left_trim (a @ k @ b @ 0 # c' @ v @ ?z) (length a + length (k @ b) + 1) =
      Some (length a + length (k @ b) + 1 + length c')"
  proof -
    obtain x r where x: "v @ ?z = x # r" "\<not> isspace x"
      using assms(2) by (cases v; cases ?z) (auto simp: config_value_def Cons_eq_append_conv replicate_append_same)
    show ?thesis using left_trim_blank [OF bl(1) x(2), of "a @ k @ b @ [0]" r] x(1) by simp
  qed
  have t7: "strlen_at (a @ k @ b @ 0 # c' @ v @ ?z) (length a) = Some (length (k @ b))"
    using strlen_at_append [of "k @ b" a] k(2) nob(1) by simp
  have kb: "length (k @ b) \<noteq> 0" using k(1) by simp
  have t8: "trim_back (a @ k @ b @ 0 # c' @ v @ ?z) (length a) (length (k @ b) - 1) =
      Some (length k - 1, a @ k @ replicate (length b) 0 @ 0 # c' @ v @ ?z)"
    using trim_back_blank [OF bl(4) k(1,5), of a "0 # c' @ v @ ?z"] by simp
  let ?buf = "a @ k @ replicate (length b) 0 @ 0 # c' @ v @ ?z"
  have t9: "cstr ?buf (length a) = Some k"
    using cstr_append [OF k(2), of a] by (cases b) simp_all
  have t10: "cstr ?buf (length a + length (k @ b) + 1 + length c') = Some v"
  proof -
    have "0 \<notin> set v" using assms(2) by (simp add: config_value_def)
    from cstr_append [OF this, of "a @ k @ replicate (length b) 0 @ 0 # c'"] show ?thesis
      by (cases "length d'") (simp_all add: add_ac)
  qed
  show ?thesis
    unfolding line config_fields_def t1 Option.bind.simps prod.case Eq_FalseI [OF lc] if_False t2 t3 t4 t5 t6 t7
      Eq_FalseI [OF kb] t8 t9 t10
    by simp
qed

section \<open>A whole file\<close>

text \<open>
  The abstract syntax of a file: section headers and settings, each setting with the blanks around
  its key and its value, and blank lines.
\<close>

datatype config_item =
    Section config_file_section
  | Setting cstring cstring cstring cstring cstring cstring
  | Blank cstring

fun render_item :: "config_item \<Rightarrow> cstring" where
  "render_item (Section cfg_main) = bytes ''[core]''"
| "render_item (Section cfg_backend) = bytes ''[backend]''"
| "render_item (Setting a k b c v d) = a @ k @ b @ 61 # c @ v @ d"
| "render_item (Blank s) = s"

definition render_config :: "config_item list \<Rightarrow> u8 list" where
  "render_config items = concat (map (\<lambda>i. render_item i @ [10]) items)"

definition section_line :: "cstring \<Rightarrow> bool" where
  "section_line s \<longleftrightarrow> prefix (bytes ''[core]'') s \<or> prefix (bytes ''[backend]'') s"

fun item_ok :: "config_item \<Rightarrow> bool" where
  "item_ok (Section sec) \<longleftrightarrow> True"
| "item_ok (Setting a k b c v d) \<longleftrightarrow> config_key k \<and> config_value v \<and> list_all isspace (a @ b @ c @ d) \<and>
     10 \<notin> set (a @ k @ b @ c @ v @ d) \<and> \<not> section_line (a @ k @ b @ [61])"
| "item_ok (Blank s) \<longleftrightarrow> list_all isspace s \<and> 10 \<notin> set s"

text \<open>Running the items in order; the first setting that is refused ends it.\<close>

fun config_run ::
  "(cstring \<Rightarrow> 's shared_object option) \<Rightarrow> config_item list \<Rightarrow> config_file_section \<Rightarrow> 's ws_config \<Rightarrow> 's process \<Rightarrow>
   (int \<times> 's ws_config \<times> 's process) option" where
  "config_run dlopen [] sec config st = Some (0, config, st)"
| "config_run dlopen (Section sec1 # items) sec config st = config_run dlopen items sec1 config st"
| "config_run dlopen (Blank s # items) sec config st = config_run dlopen items sec config st"
| "config_run dlopen (Setting a k b c v d # items) cfg_main config st =
     do { (r, config1, st1) \<leftarrow> config_file_line dlopen config k v st;
          if r \<noteq> 0 then Some (1, config1, st1) else config_run dlopen items cfg_main config1 st1 }"
| "config_run dlopen (Setting a k b c v d # items) cfg_backend config st =
     do { f \<leftarrow> be_config (backend config);
          (r, s) \<leftarrow> f (framing_function st) k v (statics st);
          if r \<noteq> 0 then Some (1, config, st\<lparr>statics := s\<rparr>)
          else config_run dlopen items cfg_backend config (st\<lparr>statics := s\<rparr>) }"

lemma header_strncmp:
  "strncmp_eq (line @ [0]) 0 (bytes ''[core]'') = Some (prefix (bytes ''[core]'') line)"
  "strncmp_eq (line @ [0]) 0 (bytes ''[backend]'') = Some (prefix (bytes ''[backend]'') line)"
  using strncmp_eq_string [of "bytes ''[core]''" line "[]"]
    strncmp_eq_string [of "bytes ''[backend]''" line "[]"]
  by (simp_all add: bytes_def)

lemma section_line_blank: "list_all isspace s \<Longrightarrow> \<not> section_line s"
  by (cases s) (auto simp: section_line_def bytes_def isspace_def)

lemma section_line_setting:
  assumes "\<not> section_line (a @ k @ b @ [61])"
  shows "\<not> section_line (a @ k @ b @ 61 # r)"
proof -
  have "prefix h (s @ 61 # r) \<longleftrightarrow> prefix h (s @ [61])" if "61 \<notin> set h" for h s :: cstring
    using that by (auto simp: prefix_append prefix_Cons prefix_snoc)
  from this [of _ "a @ k @ b"] assms show ?thesis by (simp add: section_line_def bytes_def)
qed

lemma config_fields_blank:
  assumes "list_all isspace s" "s \<noteq> []"
  shows "config_fields (s @ [0]) (length s) = Some None"
proof -
  obtain c s' where s: "s = c # s'" using assms(2) by (cases s) auto
  have "\<exists>buf. trim_back (c # s' @ post) 0 (length s') = Some (0, buf)" for post
    using assms(1) unfolding s
  proof (induction s' arbitrary: post rule: rev_induct)
    case (snoc x s')
    then show ?case by (simp add: nth_append list_update_append)
  qed simp
  then obtain buf where "trim_back (s @ [0]) 0 (length s - 1) = Some (0, buf)" using s by (metis append_Cons diff_Suc_1 length_Cons)
  then show ?thesis by (simp add: config_fields_def)
qed

lemma config_line_section:
  "config_line dlopen (render_item (Section sec1) @ [10]) sec config st = Some (False, sec1, config, st)"
  by (cases sec1; simp only: config_line_def header_strncmp render_item.simps)
    (simp_all add: bytes_def)

lemma config_line_blank:
  assumes "list_all isspace s"
  shows "config_line dlopen (s @ [10]) sec config st = Some (False, sec, config, st)"
proof -
  have sp: "list_all isspace (s @ [10])" using assms by (simp add: isspace_def)
  from section_line_blank [OF sp] config_fields_blank [OF sp] show ?thesis
    unfolding config_line_def header_strncmp section_line_def by simp
qed

lemma config_line_setting:
  assumes "item_ok (Setting a k b c v d)"
  shows "config_line dlopen (render_item (Setting a k b c v d) @ [10]) sec config st =
    (case sec of
       cfg_main \<Rightarrow> do { (r, config1, st1) \<leftarrow> config_file_line dlopen config k v st; Some (r \<noteq> 0, sec, config1, st1) }
     | cfg_backend \<Rightarrow>
         do { f \<leftarrow> be_config (backend config);
              (r, s) \<leftarrow> f (framing_function st) k v (statics st);
              Some (r \<noteq> 0, sec, config, st\<lparr>statics := s\<rparr>) })"
proof -
  let ?line = "a @ k @ b @ 61 # c @ v @ d @ [10]"
  have ok: "config_key k" "config_value v" "list_all isspace (a @ b @ c @ d @ [10])" "\<not> section_line (a @ k @ b @ [61])"
    using assms by (auto simp: isspace_def)
  have fields: "config_fields (?line @ [0]) (length ?line) = Some (Some (k, v))"
    using config_fields_spec [OF ok(1,2), of a b c "d @ [10]"] ok(3) by simp
  have line: "render_item (Setting a k b c v d) @ [10] = ?line" by simp
  have len: "length ?line \<noteq> 0" by simp
  from section_line_setting [OF ok(4)] have no: "\<not> prefix (bytes ''[core]'') ?line" "\<not> prefix (bytes ''[backend]'') ?line"
    unfolding section_line_def by blast+
  show ?thesis
    unfolding config_line_def header_strncmp line fields no [THEN Eq_FalseI] Eq_FalseI [OF len] if_False Option.bind.simps
      option.case prod.case ..
qed

lemma file_lines_render:
  assumes "\<forall>i\<in>set items. item_ok i"
  shows "file_lines (render_config items) = map (\<lambda>i. render_item i @ [10]) items"
  using assms
proof (induction items)
  case (Cons i items)
  have "10 \<notin> set (render_item i)"
    using Cons.prems by (cases i rule: render_item.cases) (auto simp: bytes_def)
  with Cons file_lines_line [OF this] show ?case by (simp add: render_config_def)
qed (simp add: render_config_def)

lemma config_lines_run:
  assumes "\<forall>i\<in>set items. item_ok i"
  shows "do { (r, _, config1, st1) \<leftarrow> config_lines dlopen (map (\<lambda>i. render_item i @ [10]) items) sec config st;
              Some (r, config1, st1) } = config_run dlopen items sec config st"
  using assms
proof (induction dlopen items sec config st rule: config_run.induct)
  case (2 dlopen sec1 items sec config st)
  then show ?case unfolding list.map config_lines.simps config_line_section by simp
next
  case (3 dlopen s items sec config st)
  then show ?case by (simp add: config_line_blank)
next
  case (4 dlopen a k b c v d items config st)
  have ok: "item_ok (Setting a k b c v d)" using "4.prems" by simp
  show ?case
    unfolding list.map config_lines.simps config_line_setting [OF ok]
    using "4.IH" "4.prems" by (auto split: option.split bind_splits)
next
  case (5 dlopen a k b c v d items config st)
  have ok: "item_ok (Setting a k b c v d)" using "5.prems" by simp
  show ?case
    unfolding list.map config_lines.simps config_line_setting [OF ok]
    using "5.IH" "5.prems" by (auto split: option.split bind_splits)
qed simp

end
