(* ===== verification/Props_Program.thy ===== *)
theory Props_Program
  imports Program_Inv Config_Spec Examples
begin

text \<open>Properties of the configuration and of the program as a whole.\<close>

section \<open>The configuration file\<close>

text \<open>
  C20. A configuration file in the documented form is read as what it says: section headers switch the
  section, each setting goes, with its key and value stripped of the blanks around them, to the core or
  to the backend selected at that point, in order, and the first one that is refused ends the parsing.
\<close>

theorem config_parse_file_documented:
  assumes "\<forall>i\<in>set items. item_ok i" "files filename = Some (render_config items)"
  shows "config_parse_file dlopen files filename config st = config_run dlopen items cfg_main config st"
  unfolding config_lines_run [OF assms(1), symmetric]
  by (simp add: config_parse_file_def assms(2) file_lines_render [OF assms(1)])

text \<open>The example of the repository, \<open>plugins/backend_file.cfg\<close>.\<close>

definition demo_setting :: "cstring \<Rightarrow> cstring \<Rightarrow> config_item" where
  "demo_setting k v = Setting [] k [32] [32] v []"

definition demo_items :: "config_item list" where
  "demo_items =
     [Section cfg_main, demo_setting (bytes ''port'') (bytes ''8000''), demo_setting (bytes ''backend'') (bytes ''file''),
      Blank [], Section cfg_backend, demo_setting (bytes ''path'') (bytes ''files/''),
      demo_setting (bytes ''expression'') (bytes ''%endpoint%.txt'')]"

definition demo_plugins :: "cstring \<Rightarrow> file_backend backend_statics shared_object option" where
  "demo_plugins path = (if path = bytes ''plugins/backend_file.so'' then Some (file_backend_object (\<lambda>_. None)) else None)"

definition demo_process :: "file_backend backend_statics process" where
  "demo_process = \<lparr>framing_function = builtin_framings, attached_library = Some [],
     statics = \<lparr>default_static = demo_backend, loaded_static = file_backend_start\<rparr>\<rparr>"

lemma demo_items_ok: "\<forall>i\<in>set demo_items. item_ok i"
  by (simp add: demo_items_def demo_setting_def)
    (simp add: bytes_def config_key_def config_value_def isspace_def section_line_def)

lemma demo_config_run:
  "\<exists>config st. config_run demo_plugins demo_items cfg_main config_start demo_process = Some (0, config, st) \<and>
     config_port config = Some (bytes ''8000'') \<and>
     loaded_static (statics st) = \<lparr>backend_path = Some (bytes ''files''), expressions = [bytes ''%endpoint%.txt'']\<rparr>"
proof -
  have path: "plugin_path PLUGINS (bytes ''backend_'' @ bytes ''file'' @ bytes ''.so'') = bytes ''plugins/backend_file.so''"
    by (simp add: plugin_path_def PLUGINS_def MAX_PLUGIN_PATH_def bytes_def)
  have "MAX_PLUGIN_PATH - 30 > length PLUGINS" "PLUGINS \<noteq> []" by (simp_all add: PLUGINS_def MAX_PLUGIN_PATH_def bytes_def)
  with path show ?thesis
    by (simp add: demo_items_def demo_setting_def config_file_line_def plugin_backend_load_def plugin_attach_def
        demo_plugins_def demo_process_def file_backend_object_def config_start_def builtin_backend_def
        backend_file_init_def backend_file_configure_def file_backend_start_def)
      (simp add: bytes_def)
qed

theorem config_parse_file_documented_witness:
  "\<exists>config st. config_parse_file demo_plugins (\<lambda>_. Some (render_config demo_items)) (bytes ''x.cfg'') config_start
      demo_process = Some (0, config, st) \<and>
    config_port config = Some (bytes ''8000'') \<and>
    loaded_static (statics st) = \<lparr>backend_path = Some (bytes ''files''), expressions = [bytes ''%endpoint%.txt'']\<rparr>"
  using config_parse_file_documented [OF demo_items_ok, of "\<lambda>_. Some (render_config demo_items)" "bytes ''x.cfg''"
      demo_plugins config_start demo_process] demo_config_run
  by simp

section \<open>Errors of the configuration\<close>

text \<open>
  A \<open>-b\<close> option whose plugin cannot be loaded is ignored, but the default backend has been cleaned
  up by then: the program starts with a backend that has no peer. And a setting for a backend without
  a \<open>configure\<close> function calls a null pointer, when it is in a file.
\<close>

lemma config_backend_errors:
  assumes "dlopen (plugin_path PLUGINS (bytes ''backend_'' @ arg @ bytes ''.so'')) = None"
    and "backend config = builtin_backend" "be_config (backend config') = None"
    and "config_key k" "config_value v" "10 \<notin> set (k @ v)" "\<not> section_line (k @ [61])"
  shows "config_option dlopen (bytes ''-b'') arg config st =
      Some (0, config, st\<lparr>statics := (statics st)
        \<lparr>default_static := backend_defaultpeer_cleanup (default_static (statics st))\<rparr>\<rparr>) \<and>
    config_line dlopen' (k @ 61 # v @ [10]) cfg_backend config' st' = None"
proof
  have "MAX_PLUGIN_PATH - 30 > length PLUGINS" "PLUGINS \<noteq> []" by (simp_all add: PLUGINS_def MAX_PLUGIN_PATH_def bytes_def)
  with assms(1,2) show "config_option dlopen (bytes ''-b'') arg config st =
      Some (0, config, st\<lparr>statics := (statics st)
        \<lparr>default_static := backend_defaultpeer_cleanup (default_static (statics st))\<rparr>\<rparr>)"
    by (simp add: bytes_def [of "''-b''"] config_file_line_def plugin_backend_load_def plugin_attach_def builtin_backend_def)
      (simp add: bytes_def)
  have "item_ok (Setting [] k [] [] v [])" using assms(4-7) by simp
  from config_line_setting [OF this, of dlopen' cfg_backend config' st'] assms(3)
  show "config_line dlopen' (k @ 61 # v @ [10]) cfg_backend config' st' = None" by simp
qed

section \<open>The program\<close>

text \<open>
  C1. Started with options that keep the default backend and its framing, and whatever framing plugins are
  loaded, the program runs to its exit without undefined behaviour for a sequence of wake-ups, and over
  the whole run, the clean-up and the listening socket included, no descriptor is closed more often than
  it was obtained; or else that very run gets stuck. It gets stuck where, after all the wake-ups and
  clients served before, a descriptor is too large for a descriptor set, or a client has sent a frame
  header whose length wraps, or a handshake is completed whose accept key overruns its array: the data
  that cannot be handled could be, if the array had the room.
\<close>

theorem main_safe:
  assumes "posix_send E" "posix_accept E" "registers_only dlopen" "default_static s = defaultpeer_start"
    and "length argv \<noteq> 1" "plain_options argv"
  shows "(\<exists>code st tr. main dlopen readdir files sha1 base64 room argv s E wakeups = Some (code, st, tr) \<and>
      mset (closed_in tr) \<subseteq># mset (opened_in tr)) \<or>
    (\<exists>config st lfd tr0. main dlopen readdir files sha1 base64 room argv s E wakeups = None \<and>
      main_start dlopen readdir files argv s E [] = Some (Some (config, st, lfd), tr0) \<and>
      loop_stuck E (program_services sha1 base64 room config st) (roomy (program_services sha1 base64 room config st))
        lfd (ping_interval config) wakeups [] tr0)"
  by (rule main_ends [OF assms])

theorem main_safe_witness:
  "(\<exists>code st tr. main (\<lambda>_. None) (\<lambda>_. Some []) (\<lambda>_. None) (take 20) id id [bytes ''-p'', bytes ''80'']
      \<lparr>default_static = defaultpeer_start, loaded_static = ()\<rparr> (demo_env []) [Wakeup [7] 1, Select_failed] =
      Some (code, st, tr) \<and> mset (closed_in tr) \<subseteq># mset (opened_in tr)) \<or>
    (\<exists>config st lfd tr0. main (\<lambda>_. None) (\<lambda>_. Some []) (\<lambda>_. None) (take 20) id id [bytes ''-p'', bytes ''80'']
      \<lparr>default_static = defaultpeer_start, loaded_static = ()\<rparr> (demo_env []) [Wakeup [7] 1, Select_failed] = None \<and>
      main_start (\<lambda>_. None) (\<lambda>_. Some []) (\<lambda>_. None) [bytes ''-p'', bytes ''80'']
        \<lparr>default_static = defaultpeer_start, loaded_static = ()\<rparr> (demo_env []) [] = Some (Some (config, st, lfd), tr0) \<and>
      loop_stuck (demo_env []) (program_services (take 20) id id config st)
        (roomy (program_services (take 20) id id config st)) lfd (ping_interval config) [Wakeup [7] 1, Select_failed] [] tr0)"
  by (rule main_safe [OF demo_posix_send demo_posix_accept]) (simp_all add: registers_only_def, simp add: bytes_def)






end
