(* ===== verification/Spec2Isabelle.thy ===== *)
theory Spec2Isabelle
  imports Props_Net Props_Framing Props_Plugins Props_Frame Props_Handshake Props_Backend Props_Daemon Props_Relay Props_Program
begin

text \<open>
  Verification of websocksy, a proxy between WebSocket clients and TCP, UDP or Unix socket peers.

  The program. \<open>websocksy.c\<close> holds the registry of clients and the core loop: \<open>main\<close> waits with
  \<open>select\<close>, accepts clients, and calls \<open>ws_data\<close> (\<open>websocket.c\<close>) when a client has sent something
  and \<open>ws_peer_data\<close> when its peer has. A connection goes through the states \<open>ws_new\<close>, \<open>ws_http\<close>,
  \<open>ws_open\<close> and \<open>ws_closed\<close>. During the handshake \<open>ws_data\<close> splits the input into lines
  (\<open>ws_handle_new\<close>, \<open>ws_handle_http\<close>); the empty line upgrades the connection (\<open>ws_upgrade_http\<close>),
  which asks the backend for a peer and connects it (\<open>client_connect\<close>, \<open>network.c\<close>). On an open
  connection frames from the client are unmasked and forwarded (\<open>ws_frame\<close>), and the peer's stream
  is cut into frames by a framing function (\<open>builtins.c\<close> and \<open>plugins/framing_*.c\<close>, registered through
  \<open>plugin.c\<close>). The backend is the one of \<open>builtins.c\<close> or a loaded one, such as \<open>plugins/backend_file.c\<close>;
  \<open>config.c\<close> selects and configures it from a file or from the command line.

  Theories, in the order of the layers:
  Prelude: machine integers, C arrays as lists (\<open>rd\<close>, \<open>wr\<close>, \<open>memmove\<close> are undefined out of range),
    the predicate \<open>runs m Q\<close> (m is defined and its result satisfies Q) with its rules, big-endian numbers.
  Cstring, Strtok: the string functions of the C library that the code uses.
  Os: system calls, traces and the environment that answers them; \<open>sent_on\<close>, \<open>opened_in\<close> and
    \<open>closed_in\<close> read a trace.
  Network: \<open>network.c\<close>, with termination of \<open>network_send\<close> and descriptor accounting of the sockets.
  Types: the types of \<open>websocksy.h\<close>. Framing, Separator: the framing functions of \<open>builtins.c\<close>, and the
    contract between a framing function and the connection that uses it (locale \<open>framing_law\<close>,
    interpreted on the built-in functions). Registry: the framing library of \<open>plugin.c\<close> (locale
    \<open>name_library\<close>).
  Frame, Frame_Close, Frame_Decode: \<open>ws_send_frame\<close>, \<open>ws_close\<close>, \<open>ws_frame\<close>; what closing does in
    general, and the decoding of client frames.
  Client: \<open>client_connect\<close> and its address scan. Handshake, Handshake_Spec: the line handlers, and
    what they compute. Conn: the invariant \<open>ws_inv\<close> of a connection and the accounting of its
    descriptors. Upgrade: \<open>ws_upgrade_http\<close> preserves both.
  Wsdata, Peerdata: the two event handlers. Handshake_Run: a whole opening handshake in one read. Core, Core_Inv: registry, core loop, and the event
    relation \<open>daemon_step\<close> the loop implements, with the invariant of all reachable states.
  Service_Order: runs are monotone in the backend, so the invariants need only a backend whose answers
    are usable (\<open>services_sound\<close>), not one that answers everything. Core_Loop: a pass of the core loop
    performs events, or breaks down in one of three described states (\<open>performs\<close>, \<open>breakdown\<close>).
  Client_Stream: the stream of an open connection's client against a reference decoder of RFC 6455
    (\<open>rfc_frames\<close>): what one call of \<open>ws_data\<close> forwards, answers and leaves in the buffer, whatever the
    segmentation, that it is defined, and the reasons for which it closes the connection.
  Relay: what a connection relays in both directions over a run of the daemon in which it stays open
    (\<open>open_run\<close>, \<open>relayed\<close>), composed from the two event handlers.
  Defaultpeer: the built-in backend, and the contracts between a backend and the connection code (locales
    \<open>sound_backend_law\<close>: its answers are usable; \<open>backend_law\<close>: it answers certain questions;
    \<open>total_backend_law\<close>: it answers every question).
  Framing_Plugins: \<open>framing_fixedlen\<close> and \<open>framing_dynamic32\<close>, which obey the data part of the contract
    (locale \<open>framing_shape_law\<close>: every frame has a given shape) but not its clean-up part. Framing_Json:
    the scanner of \<open>framing_json.c\<close>, with its bounds; Json_Spec: the texts it recognises, as a grammar.
  Backend_File: the expansion of templates in place, the search of the files. Backend_File_Spec: the
    same on strings (\<open>expand\<close>, \<open>file_lookup\<close>), and what the values of a client can change in a file name.
  Backend_Upgrade: the \<open>file\<close> backend under the contract of a backend, for the questions it can answer
    (a client with a path and offers), and so the upgrade of a connection with it.
  Plugin: attaching shared objects. Config: \<open>config.c\<close>. Config_Spec: the abstract syntax of a
    configuration file, its rendering, and running it. Program: \<open>main\<close> from the command line to its exit;
    Program_Inv: what initialisation establishes, and the core loop from there.
  Examples: a concrete environment and connections for the witnesses. Props_Net, Props_Framing,
    Props_Plugins, Props_Frame, Props_Handshake, Props_Backend, Props_Daemon, Props_Relay, Props_Program:
    the properties, and lemmas that show where the code departs from its documentation.

  Conventions. Failure (\<open>None\<close>) stands for undefined behaviour of C, such as an access outside an
  array, and for loops that never end (\<open>partial_function\<close>); a theorem that a handler yields
  \<open>Some\<close> is memory safety and termination. A \<open>char*\<close> that owns a heap string is an optional
  string. Sizes are natural numbers where the code cannot reach a wrap-around, and 64-bit words
  in the completeness check of \<open>ws_frame\<close>, where it can. Allocation succeeds. The environment
  answers each call as an arbitrary function of the trace so far.

  Hypotheses about code outside the tree: \<open>posix_send\<close> (a \<open>send\<close> fails or makes progress, and
  fails on a negative descriptor), \<open>posix_accept\<close>, \<open>fresh_fds\<close> (in a given trace the kernel has not
  handed out a descriptor that was open). SHA-1 and base64 are parameters. A backend is a parameter of
  the connection code, with \<open>services_ok\<close> (its query returns, with a C string for a host and a framing
  function that obeys \<open>framing_law\<close>), \<open>backend_answers\<close> (the same for one connection) or
  \<open>services_sound\<close>; for the two backends of the repository these are proved, \<open>services_ok\<close> for the
  default backend, \<open>services_sound\<close> for the \<open>file\<close> backend when the lines of its files give framings
  a configuration they can work with (\<open>files_lawful\<close>).

  Further parameters are the files (a function from names to contents), the directory of plugins, and
  the shared objects that can be loaded (\<open>registers_only\<close>: their initialisers only register framing
  functions). The loop of \<open>main\<close> runs over a given sequence of wake-ups, which ends where a signal
  requests the shutdown; no fuel is used anywhere.

  Not modelled: usage text and log output, allocation failures, the size of the local array of the
  accept key, the Windows branches, and files that change while they are read. The scanner of
  \<open>framing_json.c\<close> is modelled on offsets below the length, where its 64-bit sums cannot wrap.
\<close>

end
